(* ===== verification/Prelude.thy ===== *)
theory Prelude
  imports Main "HOL-Library.Word"
begin

text \<open>
  The vocabulary the components share: machine integers, the error values of the kernel,
  sequencing of fallible steps, C's \<^verbatim>\<open>while\<close> loop over a fallible body, and the
  word arithmetic that the loops and the address calculations need.

  \<^item> \<open>u8\<close>, \<open>u16\<close>, \<open>u32\<close> are the \<^verbatim>\<open>uintN_t\<close> types; addition wraps as in C.
  \<^item> A result is \<open>kerror + 'a\<close>. Every way in which the kernel does not return is a
    value: a failed
    \<^verbatim>\<open>ASSERT\<close> and a \<^verbatim>\<open>PANIC\<close> (both hang for ever in the source),
    an integer division by zero (a CPU exception), an endless loop or recursion, and the
    accesses for which C gives no meaning (a missing variadic argument, an index outside a
    static array).
  \<^item> \<open>while_res b c s\<close> is the loop \<^verbatim>\<open>while(b) c\<close>: \<open>Inr\<close> of the first state
    in which the guard fails, the error of the body if the body fails, and
    \<open>Inl Diverges\<close> if neither happens.
\<close>

unbundle bit_operations_syntax

type_synonym u8 = "8 word"
type_synonym u16 = "16 word"
type_synonym u32 = "32 word"

named_theorems layout \<comment> \<open>definitions that only compute an address or a constant\<close>

section \<open>Errors and sequencing\<close>

datatype kerror =
    Panic string
  | Assert_failed string
  | Division_by_zero
  | Undefined_behaviour string
  | Diverges

definition bindE :: "kerror + 'a \<Rightarrow> ('a \<Rightarrow> kerror + 'b) \<Rightarrow> kerror + 'b" where
  "bindE r k = (case r of Inl e \<Rightarrow> Inl e | Inr x \<Rightarrow> k x)"

lemma bindE_simps [simp]:
  "bindE (Inl e) k = Inl e"
  "bindE (Inr x) k = k x"
  by (simp_all add: bindE_def)

lemma bindE_eq_Inr: "bindE r k = Inr y \<longleftrightarrow> (\<exists>x. r = Inr x \<and> k x = Inr y)"
  by (cases r) auto

definition assertE :: "string \<Rightarrow> bool \<Rightarrow> kerror + unit" where
  "assertE msg b = (if b then Inr () else Inl (Assert_failed msg))"

lemma assertE_simps [simp]:
  "b \<Longrightarrow> assertE msg b = Inr ()"
  "\<not> b \<Longrightarrow> assertE msg b = Inl (Assert_failed msg)"
  by (simp_all add: assertE_def)

section \<open>Loops\<close>

partial_function (option) while_opt ::
    "('s \<Rightarrow> bool) \<Rightarrow> ('s \<Rightarrow> kerror + 's) \<Rightarrow> 's \<Rightarrow> (kerror + 's) option" where
  "while_opt b c s =
     (if b s then (case c s of Inl e \<Rightarrow> Some (Inl e) | Inr s' \<Rightarrow> while_opt b c s')
      else Some (Inr s))"

definition while_res :: "('s \<Rightarrow> bool) \<Rightarrow> ('s \<Rightarrow> kerror + 's) \<Rightarrow> 's \<Rightarrow> kerror + 's" where
  "while_res b c s = (case while_opt b c s of None \<Rightarrow> Inl Diverges | Some r \<Rightarrow> r)"

lemma while_res_unfold:
  "while_res b c s = (if b s then bindE (c s) (while_res b c) else Inr s)"
  by (cases "c s") (simp_all add: while_res_def while_opt.simps [of b c s])

lemma while_res_stop [simp]: "\<not> b s \<Longrightarrow> while_res b c s = Inr s"
  by (simp add: while_res_unfold)

lemma while_res_step: "b s \<Longrightarrow> c s = Inr s' \<Longrightarrow> while_res b c s = while_res b c s'"
  by (simp add: while_res_unfold [of b c s])

lemma while_res_fail: "b s \<Longrightarrow> c s = Inl e \<Longrightarrow> while_res b c s = Inl e"
  by (simp add: while_res_unfold [of b c s])

text \<open>Total correctness: an invariant and a measure that the body decreases.\<close>

lemma while_res_rule:
  fixes f :: "'s \<Rightarrow> nat"
  assumes "P s"
    and step: "\<And>s. P s \<Longrightarrow> b s \<Longrightarrow> \<exists>s'. c s = Inr s' \<and> P s' \<and> f s' < f s"
  shows "\<exists>s'. while_res b c s = Inr s' \<and> P s' \<and> \<not> b s'"
  using \<open>P s\<close>
proof (induction "f s" arbitrary: s rule: less_induct)
  case less
  show ?case
  proof (cases "b s")
    case True
    with step [OF less.prems] obtain s' where "c s = Inr s'" "P s'" "f s' < f s" by blast
    with less.hyps [of s'] True show ?thesis by (auto simp: while_res_step)
  next
    case False
    with less.prems show ?thesis by auto
  qed
qed

text \<open>
  A closed form: if the body can be run \<open>n\<close> times from \<open>s\<close> along the states
  \<open>g 0, g 1, \<dots>, g n\<close> and the guard fails in \<open>g n\<close>, the loop returns \<open>g n\<close>.
\<close>

lemma while_res_iterate:
  assumes "\<And>i. i < n \<Longrightarrow> b (g i) \<and> c (g i) = Inr (g (Suc i))" and "\<not> b (g n)"
  shows "while_res b c (g 0) = Inr (g n)"
proof -
  have "k \<le> n \<Longrightarrow> while_res b c (g (n - k)) = Inr (g n)" for k
  proof (induction k)
    case 0
    with assms(2) show ?case by simp
  next
    case (Suc k)
    then have "n - Suc k < n" "Suc (n - Suc k) = n - k" by auto
    with assms(1) [of "n - Suc k"] Suc show ?case by (simp add: while_res_step)
  qed
  from this [of n] show ?thesis by simp
qed

text \<open>A loop whose guard never fails, whatever the number of rounds, does not return.\<close>

lemma while_res_diverges:
  assumes P: "P s" and step: "\<And>s. P s \<Longrightarrow> b s \<and> (\<exists>s'. c s = Inr s' \<and> P s')"
  shows "while_res b c s = Inl Diverges"
proof -
  have "b' = b \<longrightarrow> c' = c \<longrightarrow> \<not> P t" if "while_opt b' c' t = Some r" for b' c' t r
  proof (rule while_opt.raw_induct
      [where P = "\<lambda>b' c' t r. b' = b \<longrightarrow> c' = c \<longrightarrow> \<not> P t", OF _ that])
    fix f b' c' t r
    assume IH: "\<And>b' c' t r. f b' c' t = Some r \<Longrightarrow> b' = b \<longrightarrow> c' = c \<longrightarrow> \<not> P t"
      and eq: "(if b' t then case c' t of Inl e \<Rightarrow> Some (Inl e) | Inr s' \<Rightarrow> f b' c' s'
         else Some (Inr t)) = Some r"
    show "b' = b \<longrightarrow> c' = c \<longrightarrow> \<not> P t"
    proof (intro impI notI)
      assume "b' = b" "c' = c" "P t"
      moreover from step [OF \<open>P t\<close>] obtain t' where "b t" "c t = Inr t'" "P t'" by blast
      ultimately have "f b c t' = Some r" using eq by simp
      with IH \<open>P t'\<close> show False by blast
    qed
  qed
  with P have "while_opt b c s = None" by (cases "while_opt b c s") blast+
  then show ?thesis by (simp add: while_res_def)
qed

section \<open>Results and call depth\<close>

text \<open>
  \<open>approx r r'\<close>: the result \<open>r\<close> is either no result, or \<open>r'\<close>. With it, functions
  whose recursion is cut off at a depth are monotone in the depth.
\<close>

definition approx :: "kerror + 'a \<Rightarrow> kerror + 'a \<Rightarrow> bool" where
  "approx r r' \<longleftrightarrow> r = Inl Diverges \<or> r = r'"

lemma approx_refl [simp, intro]: "approx r r"
  by (simp add: approx_def)

lemma approx_diverges [simp, intro]: "approx (Inl Diverges) r"
  by (simp add: approx_def)

lemma approx_bindE:
  "approx r r' \<Longrightarrow> (\<And>x. approx (k x) (k' x)) \<Longrightarrow> approx (bindE r k) (bindE r' k')"
  by (cases r; cases r') (auto simp: approx_def)

lemma approx_while_opt:
  assumes c: "\<And>s. approx (c s) (c' s)" and run: "while_opt b c s = Some r"
  shows "approx r (while_res b c' s)"
proof -
  have "b1 = b \<longrightarrow> c1 = c \<longrightarrow> approx r (while_res b c' t)" if "while_opt b1 c1 t = Some r" for b1 c1 t r
  proof (rule while_opt.raw_induct
      [where P = "\<lambda>b1 c1 t r. b1 = b \<longrightarrow> c1 = c \<longrightarrow> approx r (while_res b c' t)", OF _ that])
    fix f b1 c1 t r
    assume IH: "\<And>b1 c1 t r. f b1 c1 t = Some r \<Longrightarrow>
        b1 = b \<longrightarrow> c1 = c \<longrightarrow> approx r (while_res b c' t)"
      and eq: "(if b1 t then case c1 t of Inl e \<Rightarrow> Some (Inl e) | Inr s' \<Rightarrow> f b1 c1 s'
         else Some (Inr t)) = Some r"
    show "b1 = b \<longrightarrow> c1 = c \<longrightarrow> approx r (while_res b c' t)"
    proof (intro impI)
      assume [simp]: "b1 = b" "c1 = c"
      show "approx r (while_res b c' t)"
      proof (cases "b t")
        case True
        show ?thesis
        proof (cases "c t")
          case (Inl e)
          with eq True have r: "r = Inl e" by simp
          from c [of t] Inl have "e = Diverges \<or> c' t = Inl e" by (auto simp: approx_def)
          with r True show ?thesis by (auto simp: while_res_fail)
        next
          case (Inr t')
          with c [of t] have "c' t = Inr t'" by (simp add: approx_def)
          with eq True Inr IH [of b c t' r] show ?thesis by (simp add: while_res_step)
        qed
      qed (use eq in simp)
    qed
  qed
  with run show ?thesis by blast
qed

lemma approx_while_res:
  "(\<And>s. approx (c s) (c' s)) \<Longrightarrow> approx (while_res b c s) (while_res b c' s)"
  using approx_while_opt [of c c' b s] by (auto simp: while_res_def split: option.split)

section \<open>Word arithmetic\<close>

lemma unat_less_Suc: "(i :: u32) < n \<Longrightarrow> unat (i + 1) = Suc (unat i)"
proof -
  assume "i < n"
  then have "unat i < unat n" by (simp add: word_less_nat_alt)
  moreover have "unat n < 2 ^ 32" using unsigned_less [of n] by simp
  ultimately show ?thesis by (simp add: unat_word_ariths)
qed

lemma one_le_word: "(1 :: u32) \<le> x \<longleftrightarrow> x \<noteq> 0"
  by (simp add: word_le_nat_alt Suc_le_eq unat_gt_0)

lemma unat_of_nat32 [simp]: "n < 2 ^ 32 \<Longrightarrow> unat (of_nat n :: u32) = n"
  by (simp add: unat_of_nat)

lemma unat32_bound: "unat (a :: u32) < 2 ^ 32"
  using unsigned_less [of a] by simp

lemma unat_add32: "unat a + unat b < 2 ^ 32 \<Longrightarrow> unat ((a :: u32) + b) = unat a + unat b"
  by (simp add: unat_word_ariths)

lemma unat_sub32: "unat b \<le> unat a \<Longrightarrow> unat ((a :: u32) - b) = unat a - unat b"
  by (simp add: unat_sub word_le_nat_alt)

lemma unat_minus32: "(d :: u32) \<noteq> 0 \<Longrightarrow> unat (- d) = 2 ^ 32 - unat d"
  using unat_sub_if_size [of 0 d] by (simp add: word_size unat_gt_0)

lemma unat_of_nat_diff32:
  "x < 2 ^ 32 \<Longrightarrow> y < 2 ^ 32 \<Longrightarrow>
   unat ((of_nat x :: u32) - of_nat y) = (if y \<le> x then x - y else x + 2 ^ 32 - y)"
  by (simp add: unat_sub_if_size word_size)

lemma of_nat_unat32 [simp]: "(of_nat (unat (a :: u32)) :: u32) = a"
  by simp

lemma of_nat_eq32: "x < 2 ^ 32 \<Longrightarrow> y < 2 ^ 32 \<Longrightarrow> ((of_nat x :: u32) = of_nat y) = (x = y)"
  by (metis unat_of_nat32)

lemma ucast_u32_u16: "(ucast (of_nat n :: u32) :: u16) = of_nat n"
  by (intro bit_word_eqI) (simp add: bit_simps)

text \<open>The reading of a word comparison on numbers below \<open>2 ^ 32\<close>.\<close>

lemma of_nat_less32: "x < 2 ^ 32 \<Longrightarrow> y < 2 ^ 32 \<Longrightarrow> ((of_nat x :: u32) < of_nat y) = (x < y)"
  by (simp add: word_less_nat_alt)

lemma of_nat_le32: "x < 2 ^ 32 \<Longrightarrow> y < 2 ^ 32 \<Longrightarrow> ((of_nat x :: u32) \<le> of_nat y) = (x \<le> y)"
  by (simp add: word_le_nat_alt)

lemma of_nat_pred32: "0 < n \<Longrightarrow> (of_nat n :: u32) - 1 = of_nat (n - 1)"
  by (cases n) simp_all

lemma of_nat_diff32: "y \<le> x \<Longrightarrow> (of_nat x :: u32) - of_nat y = of_nat (x - y)"
  by simp

end
