(* ===== verification/Memory.thy ===== *)
theory Memory
  imports Prelude
begin

text \<open>
  The flat 32-bit address space of the kernel. A memory maps every address to a byte;
  \<open>read32\<close> and \<open>write32\<close> are the little-endian accesses that the x86 makes for a
  \<^verbatim>\<open>uint32_t\<close> or a pointer, at any (also unaligned) address. Addresses wrap at \<open>2 ^ 32\<close>.
  Whether a page is mapped is not part of this state: an access never faults.

  \<^item> \<open>apart n a k b\<close> says that the \<open>n\<close> bytes at \<open>a\<close> and the \<open>k\<close> bytes at \<open>b\<close>
    have no byte in common, in modular arithmetic.
  \<^item> \<open>span a n\<close> is the set of the \<open>n\<close> addresses from \<open>a\<close> on, in modular arithmetic;
    \<open>region lo hi\<close> is the set of addresses from \<open>lo\<close> to \<open>hi - 1\<close>, and
    \<open>same_outside R m m'\<close> says that \<open>m'\<close> differs from \<open>m\<close> in \<open>R\<close> only.
  \<^item> \<open>ptr\<close> is a pointer to bytes that are only read: a string literal of the source or
    an address.
\<close>

type_synonym memory = "u32 \<Rightarrow> u8"

section \<open>Accesses\<close>

definition read8 :: "memory \<Rightarrow> u32 \<Rightarrow> u8" where
  "read8 m a = m a"

definition write8 :: "memory \<Rightarrow> u32 \<Rightarrow> u8 \<Rightarrow> memory" where
  "write8 m a v = m(a := v)"

definition read32 :: "memory \<Rightarrow> u32 \<Rightarrow> u32" where
  "read32 m a = ucast (m a) OR push_bit 8 (ucast (m (a + 1)))
     OR push_bit 16 (ucast (m (a + 2))) OR push_bit 24 (ucast (m (a + 3)))"

definition write32 :: "memory \<Rightarrow> u32 \<Rightarrow> u32 \<Rightarrow> memory" where
  "write32 m a v = m(a := ucast v, a + 1 := ucast (drop_bit 8 v),
     a + 2 := ucast (drop_bit 16 v), a + 3 := ucast (drop_bit 24 v))"

definition apart :: "u32 \<Rightarrow> u32 \<Rightarrow> u32 \<Rightarrow> u32 \<Rightarrow> bool" where
  "apart n a k b \<longleftrightarrow> n \<le> b - a \<and> k \<le> a - b"

definition region :: "nat \<Rightarrow> nat \<Rightarrow> u32 set" where
  "region lo hi = {a. lo \<le> unat a \<and> unat a < hi}"

definition same_outside :: "u32 set \<Rightarrow> memory \<Rightarrow> memory \<Rightarrow> bool" where
  "same_outside R m m' \<longleftrightarrow> (\<forall>a. a \<notin> R \<longrightarrow> m' a = m a)"

definition span :: "u32 \<Rightarrow> u32 \<Rightarrow> u32 set" where
  "span a n = {x. x - a < n}"

section \<open>Disjointness\<close>

lemma apart_neq:
  assumes "apart n a k b" "i < n" "j < k"
  shows "a + i \<noteq> b + j"
proof
  assume eq: "a + i = b + j"
  show False
  proof (cases "j \<le> i")
    case True
    have "b - a = i - j" using eq by (simp add: algebra_simps)
    moreover have "i - j \<le> i" using True by (rule word_sub_le)
    ultimately show False using assms unfolding apart_def by (metis leD order_trans)
  next
    case False
    have "a - b = j - i" using eq by (simp add: algebra_simps)
    moreover have "j - i \<le> j" using False by (intro word_sub_le) simp
    ultimately show False using assms unfolding apart_def by (metis leD order_trans)
  qed
qed

lemma apart_commute: "apart n a k b \<longleftrightarrow> apart k b n a"
  by (auto simp: apart_def)

lemma apart_below:
  assumes "unat a + unat n \<le> unat b" "unat b + unat k \<le> 2 ^ 32 + unat a" "0 < n"
  shows "apart n a k b"
proof -
  have "0 < unat n" using \<open>0 < n\<close> by (simp add: unat_gt_0)
  with assms(1,2) show ?thesis
    by (simp add: apart_def word_le_nat_alt unat_sub_if_size word_size) arith
qed

lemma apart_same_base:
  assumes "unat x + unat n \<le> unat y" "unat y + unat k \<le> 2 ^ 32 + unat x" "0 < n"
  shows "apart n (a + x) k (a + y)"
proof -
  have "(a + y) - (a + x) = y - x" "(a + x) - (a + y) = x - y" by simp_all
  with apart_below [OF assms] show ?thesis unfolding apart_def by simp
qed

lemma apart_sub:
  assumes "apart n a k b" "n' \<le> n" "unat i + unat k' \<le> unat k" "i < k"
  shows "apart n' a k' (b + i)"
proof -
  define d where "d = b - a"
  have "a - b = - d" by (simp add: d_def)
  then have d: "unat n \<le> unat d" "unat k \<le> unat (- d)"
    using assms(1) by (simp_all add: apart_def d_def word_le_nat_alt)
  have i: "unat i < unat k" using assms(4) by (simp add: word_less_nat_alt)
  with d have "d \<noteq> 0" by auto
  then have md: "unat (- d) = 2 ^ 32 - unat d" by (rule unat_minus32)
  with d i have di: "unat (d + i) = unat d + unat i"
    by (intro unat_add32) simp
  have "d + i \<noteq> 0"
  proof
    assume "d + i = 0"
    with di have "unat d = 0" by simp
    with \<open>d \<noteq> 0\<close> show False by (simp add: unat_eq_0)
  qed
  from unat_minus32 [OF this] di md d assms(2,3)
  have "unat n' \<le> unat (d + i) \<and> unat k' \<le> unat (- (d + i))"
    by (simp add: word_le_nat_alt)
  moreover have "(b + i) - a = d + i" "a - (b + i) = - (d + i)" by (simp_all add: d_def)
  ultimately show ?thesis unfolding apart_def word_le_nat_alt by (simp only:)
qed

lemma apart_nat:
  assumes "a + unat n \<le> b" "b + unat k \<le> 2 ^ 32" "0 < n" "0 < k"
  shows "apart n (of_nat a) k (of_nat b)"
proof -
  have "0 < unat k" using \<open>0 < k\<close> by (simp add: word_less_nat_alt)
  with assms(1,2) have "b < 2 ^ 32" "a < 2 ^ 32" by auto
  with assms show ?thesis by (intro apart_below) auto
qed

lemma span_disjoint: "apart n a k b \<Longrightarrow> x \<in> span a n \<Longrightarrow> x \<notin> span b k"
  using apart_neq [of n a k b "x - a" "x - b"] by (auto simp: span_def)

lemma in_span: "i < n \<Longrightarrow> a + i \<in> span a n"
  by (simp add: span_def)

lemma in_span_of_nat: "i < n \<Longrightarrow> n < 2 ^ 32 \<Longrightarrow> a + of_nat i \<in> span a (of_nat n)"
  by (simp add: in_span of_nat_less32)

lemma span_mono: "n \<le> k \<Longrightarrow> span a n \<subseteq> span a k"
  by (auto simp: span_def)

lemma span_part:
  assumes "unat (d :: u32) + unat n \<le> unat k"
  shows "span (a + d) n \<subseteq> span a k"
proof
  fix x assume "x \<in> span (a + d) n"
  then have "unat (x - (a + d)) < unat n" by (simp add: span_def word_less_nat_alt)
  moreover have "unat k < 2 ^ 32" using unsigned_less [of k] by simp
  ultimately have "unat ((x - (a + d)) + d) < unat k" using assms by (subst unat_add32) simp_all
  moreover have "x - (a + d) + d = x - a" by simp
  ultimately show "x \<in> span a k" by (simp add: span_def word_less_nat_alt)
qed

section \<open>Reading what was written\<close>

lemma read8_write8_same [simp]: "read8 (write8 m a v) a = v"
  by (simp add: read8_def write8_def)

lemma read8_write8_other: "a \<noteq> b \<Longrightarrow> read8 (write8 m a v) b = read8 m b"
  by (simp add: read8_def write8_def)

lemma read32_write32_same [simp]: "read32 (write32 m a v) a = v"
proof -
  have "bit (read32 (write32 m a v) a) n = bit v n" if "n < 32" for n
  proof -
    have "n < 8 \<or> n = 8 + (n - 8) \<and> n - 8 < 8 \<or> n = 16 + (n - 16) \<and> n - 16 < 8
        \<or> n = 24 + (n - 24) \<and> n - 24 < 8"
      using that by arith
    then consider "n < 8" | k where "n = 8 + k" "k < 8" | k where "n = 16 + k" "k < 8"
      | k where "n = 24 + k" "k < 8" by blast
    then show ?thesis
      by cases (auto simp: read32_def write32_def bit_simps)
  qed
  then show ?thesis by (intro bit_word_eqI) simp
qed

lemma small_words: "(i :: u32) < 4 \<longleftrightarrow> i = 0 \<or> i = 1 \<or> i = 2 \<or> i = 3"
proof -
  have "i < 4 \<longleftrightarrow> unat i \<in> {0, 1, 2, 3}"
    by (auto simp: word_less_nat_alt)
  also have "\<dots> \<longleftrightarrow> i \<in> {0, 1, 2, 3}"
    by (auto simp: word_unat_eq_iff)
  finally show ?thesis by simp
qed

lemma write32_outside: "\<not> (x - a < 4) \<Longrightarrow> write32 m a v x = m x"
  by (auto simp: write32_def small_words)

lemma read32_cong: "(\<And>i. i < 4 \<Longrightarrow> m' (a + i) = m (a + i)) \<Longrightarrow> read32 m' a = read32 m a"
proof -
  assume eq: "\<And>i. i < 4 \<Longrightarrow> m' (a + i) = m (a + i)"
  have "m' a = m a" "m' (a + 1) = m (a + 1)" "m' (a + 2) = m (a + 2)" "m' (a + 3) = m (a + 3)"
    using eq [of 0] eq [of 1] eq [of 2] eq [of 3] by simp_all
  then show ?thesis by (simp add: read32_def)
qed

lemma write32_apart: "apart 4 a k b \<Longrightarrow> j < k \<Longrightarrow> write32 m a v (b + j) = m (b + j)"
proof -
  assume *: "apart 4 a k b" "j < k"
  have "\<not> (b + j - a < 4)"
  proof
    assume "b + j - a < 4"
    from apart_neq [OF *(1) this *(2)] show False by simp
  qed
  then show ?thesis by (rule write32_outside)
qed

lemma read32_write32_apart: "apart 4 a 4 b \<Longrightarrow> read32 (write32 m a v) b = read32 m b"
  by (rule read32_cong) (rule write32_apart)

lemma read8_write32_apart: "apart 4 a 1 b \<Longrightarrow> read8 (write32 m a v) b = read8 m b"
  using write32_apart [of a 1 b 0] by (simp add: read8_def)

lemma read32_write8_apart: "apart 1 a 4 b \<Longrightarrow> read32 (write8 m a v) b = read32 m b"
proof (rule read32_cong)
  fix i :: u32 assume "apart 1 a 4 b" "i < 4"
  from apart_neq [OF this(1) _ this(2), of 0] show "write8 m a v (b + i) = m (b + i)"
    by (simp add: write8_def)
qed

section \<open>Frames\<close>

lemma same_outside_refl [simp, intro]: "same_outside R m m"
  by (simp add: same_outside_def)

lemma same_outside_trans:
  "same_outside R m m' \<Longrightarrow> same_outside R m' m'' \<Longrightarrow> same_outside R m m''"
  by (simp add: same_outside_def)

lemma same_outside_mono: "same_outside R m m' \<Longrightarrow> R \<subseteq> S \<Longrightarrow> same_outside S m m'"
  by (auto simp: same_outside_def)

lemma same_outside_write8: "a \<in> R \<Longrightarrow> same_outside R m (write8 m a v)"
  by (auto simp: same_outside_def write8_def)

lemma same_outside_span_read8:
  "same_outside (span a n) m m' \<Longrightarrow> apart n a 1 b \<Longrightarrow> read8 m' b = read8 m b"
  using span_disjoint [of n a 1 b b] by (auto simp: same_outside_def span_def read8_def)

lemma same_outside_span_read32:
  "same_outside (span a n) m m' \<Longrightarrow> apart n a 4 b \<Longrightarrow> read32 m' b = read32 m b"
  by (intro read32_cong) (metis apart_commute in_span same_outside_def span_disjoint)

lemma region_offset:
  "unat (b :: u32) + unat k \<le> 2 ^ 32 \<Longrightarrow> j < k \<Longrightarrow> unat (b + j) = unat b + unat j"
  by (intro unat_add32) (simp add: word_less_nat_alt)

lemma same_outside_write32:
  assumes "lo \<le> unat a" "unat a + 4 \<le> hi" "hi \<le> 2 ^ 32"
  shows "same_outside (region lo hi) m (write32 m a v)"
  unfolding same_outside_def
proof (intro allI impI)
  fix x assume x: "x \<notin> region lo hi"
  have "\<not> (x - a < 4)"
  proof
    assume lt: "x - a < 4"
    from region_offset [of a 4, OF _ lt] assms have "unat x = unat a + unat (x - a)" by simp
    with lt assms x show False by (simp add: region_def word_less_nat_alt)
  qed
  then show "write32 m a v x = m x" by (rule write32_outside)
qed

lemma same_outside_read32:
  assumes "same_outside (region lo hi) m m'" "unat a + 4 \<le> lo \<or> hi \<le> unat a"
    "unat a + 4 \<le> 2 ^ 32"
  shows "read32 m' a = read32 m a"
proof (rule read32_cong)
  fix i :: u32 assume "i < 4"
  with region_offset [of a 4 i] assms(3) have "unat (a + i) = unat a + unat i" "unat i < 4"
    by (simp_all add: word_less_nat_alt)
  with assms show "m' (a + i) = m (a + i)" by (auto simp: same_outside_def region_def)
qed

lemma same_outside_read8:
  assumes "same_outside (region lo hi) m m'" "unat a < lo \<or> hi \<le> unat a"
  shows "read8 m' a = read8 m a"
  using assms by (auto simp: same_outside_def region_def read8_def)

end
