(* ===== verification/Store.thy ===== *)
theory Store
  imports Memory
begin

text \<open>
  Arrays in memory. The locale \<open>array_store\<close> is the contract of an indexed store: what a
  read returns after a write, for indices below a bound. Its lemmas, proved once, are about
  the list of the first \<open>n\<close> elements and about the two loops the kernel uses on arrays:
  the shift that opens a slot and the shift that closes one. It is interpreted on
  \<open>get_slot\<close> and \<open>put_slot\<close>, the accesses \<^verbatim>\<open>array[i]\<close> to an array of 32-bit values
  (heap index, frame bitmap, page directory), and on \<open>get_byte\<close> and \<open>put_byte\<close>, the
  accesses to a buffer of bytes.
\<close>

section \<open>The contract\<close>

locale array_store =
  fixes get :: "'m \<Rightarrow> nat \<Rightarrow> 'v" and put :: "'m \<Rightarrow> nat \<Rightarrow> 'v \<Rightarrow> 'm" and bound :: nat
  assumes get_put_same: "i < bound \<Longrightarrow> get (put m i v) i = v"
    and get_put_other: "i < bound \<Longrightarrow> j < bound \<Longrightarrow> i \<noteq> j \<Longrightarrow> get (put m i v) j = get m j"
begin

lemma get_put: "i < bound \<Longrightarrow> j < bound \<Longrightarrow> get (put m i v) j = (if i = j then v else get m j)"
  by (simp add: get_put_same get_put_other)

lemma contents_put:
  "i < n \<Longrightarrow> n \<le> bound \<Longrightarrow> map (get (put m i v)) [0..<n] = (map (get m) [0..<n])[i := v]"
  by (rule nth_equalityI) (auto simp: get_put nth_list_update)

lemma contents_put_beyond:
  "n \<le> i \<Longrightarrow> i < bound \<Longrightarrow> map (get (put m i v)) [0..<n] = map (get m) [0..<n]"
  by (auto simp: get_put)

lemma contents_append:
  "n < bound \<Longrightarrow> map (get (put m n v)) [0..<Suc n] = map (get m) [0..<n] @ [v]"
  by (simp add: contents_put_beyond get_put_same)

text \<open>Writing a list element by element.\<close>

lemma get_fold_put:
  "k \<le> bound \<Longrightarrow> j < bound \<Longrightarrow>
   get (fold (\<lambda>i m. put m i (f i)) [lo..<k] m) j = (if lo \<le> j \<and> j < k then f j else get m j)"
proof (induction k)
  case 0
  then show ?case by simp
next
  case (Suc k)
  then show ?case by (auto simp: get_put)
qed

lemma contents_fold_put:
  "n \<le> bound \<Longrightarrow> map (get (fold (\<lambda>i m. put m i (f i)) [0..<n] m)) [0..<n] = map f [0..<n]"
  by (simp add: get_fold_put)

text \<open>Closing the slot \<open>i\<close>: each element above it moves down by one.\<close>

lemma get_shift_down:
  "k < bound \<Longrightarrow> j < bound \<Longrightarrow>
   get (fold (\<lambda>i m. put m i (get m (Suc i))) [lo..<k] m) j =
     (if lo \<le> j \<and> j < k then get m (Suc j) else get m j)"
proof (induction k arbitrary: j)
  case 0
  then show ?case by simp
next
  case (Suc k)
  then show ?case by (auto simp: get_put)
qed

lemma contents_shift_down:
  assumes "i < n" "n < bound"
  shows "map (get (fold (\<lambda>i m. put m i (get m (Suc i))) [i..<n] m)) [0..<n - 1] =
    take i (map (get m) [0..<n]) @ drop (Suc i) (map (get m) [0..<n])"
  using assms by (intro nth_equalityI) (auto simp: get_shift_down nth_append)

text \<open>Opening the slot \<open>i\<close>: the old elements are carried up one by one.\<close>

lemma get_shift_up:
  "k < bound \<Longrightarrow> j < bound \<Longrightarrow>
   get (fold (\<lambda>i m'. put m' (Suc i) (get m i)) [lo..<k] m') j =
     (if lo < j \<and> j \<le> k then get m (j - 1) else get m' j)"
proof (induction k arbitrary: j)
  case 0
  then show ?case by auto
next
  case (Suc k)
  then show ?case by (auto simp: get_put not_less_eq)
qed

lemma contents_shift_up:
  assumes "i < n" "n < bound"
  shows "map (get (fold (\<lambda>i m'. put m' (Suc i) (get m i)) [i..<n] (put m i v))) [0..<Suc n] =
    take i (map (get m) [0..<n]) @ v # drop i (map (get m) [0..<n])"
  using assms
  by (intro nth_equalityI) (auto simp: get_shift_up get_put nth_append nth_Cons' simp del: upt_Suc)

end

section \<open>Arrays of 32-bit values and of bytes\<close>

definition get_slot :: "u32 \<Rightarrow> memory \<Rightarrow> nat \<Rightarrow> u32" where
  "get_slot base m i = read32 m (base + 4 * of_nat i)"

definition put_slot :: "u32 \<Rightarrow> memory \<Rightarrow> nat \<Rightarrow> u32 \<Rightarrow> memory" where
  "put_slot base m i v = write32 m (base + 4 * of_nat i) v"

definition get_byte :: "u32 \<Rightarrow> memory \<Rightarrow> nat \<Rightarrow> u8" where
  "get_byte base m i = read8 m (base + of_nat i)"

definition put_byte :: "u32 \<Rightarrow> memory \<Rightarrow> nat \<Rightarrow> u8 \<Rightarrow> memory" where
  "put_byte base m i v = write8 m (base + of_nat i) v"

lemma slots_apart:
  assumes "i < 2 ^ 30" "j < 2 ^ 30" "i \<noteq> j"
  shows "apart 4 (base + 4 * of_nat i) 4 (base + 4 * of_nat j)"
proof -
  have small: "unat (4 * of_nat k :: u32) = 4 * k" if "k < 2 ^ 30" for k
    using that by (simp add: unat_word_ariths)
  have "apart 4 (base + 4 * of_nat i) 4 (base + 4 * of_nat j)" if "i < j" "j < 2 ^ 30" for i j
    using that by (intro apart_same_base) (simp_all add: small)
  with assms show ?thesis by (metis apart_commute linorder_neqE_nat)
qed

interpretation slots: array_store "get_slot base" "put_slot base" "2 ^ 30" for base
proof unfold_locales
  fix m i v
  show "get_slot base (put_slot base m i v) i = v"
    by (simp add: get_slot_def put_slot_def)
next
  fix m v and i j :: nat
  assume "i < 2 ^ 30" "j < 2 ^ 30" "i \<noteq> j"
  from slots_apart [OF this, of base]
  show "get_slot base (put_slot base m i v) j = get_slot base m j"
    by (simp add: get_slot_def put_slot_def read32_write32_apart)
qed

interpretation bytes: array_store "get_byte base" "put_byte base" "2 ^ 32" for base
  by unfold_locales
    (simp_all add: get_byte_def put_byte_def read8_write8_other of_nat_eq32)

end
