(* ===== verification/CString.thy ===== *)
theory CString
  imports Store
begin

text \<open>
  The C library of the kernel, \<^verbatim>\<open>kernel/libc/string.c\<close>: one definition per function,
  over the flat memory. Buffers that are written are addresses; pointers that are only read
  are of type \<open>ptr\<close>, an address or a string literal of the source. Loops are loops: a
  \<^verbatim>\<open>while\<close> that looks for a terminator is \<open>while_res\<close>, with the value
  \<open>Inl Diverges\<close> when it never stops, a counted \<^verbatim>\<open>for\<close> is a fold over its range.

  The predicate \<open>cstr m p bs\<close> says that \<open>p\<close> points to the string \<open>bs\<close>; the
  lemmas relate the functions to lists of bytes through it.
\<close>

section \<open>Pointers to strings\<close>

datatype ptr = Lit string | At u32

fun byte_at :: "memory \<Rightarrow> ptr \<Rightarrow> u32 \<Rightarrow> u8" where
  "byte_at m (Lit cs) i = (if unat i < length cs then of_char (cs ! unat i) else 0)"
| "byte_at m (At a) i = read8 m (a + i)"

primrec str_from :: "memory \<Rightarrow> ptr \<Rightarrow> u32 \<Rightarrow> u8 list \<Rightarrow> bool" where
  "str_from m p i [] \<longleftrightarrow> byte_at m p i = 0"
| "str_from m p i (b # bs) \<longleftrightarrow> b \<noteq> 0 \<and> byte_at m p i = b \<and> str_from m p (i + 1) bs"

definition cstr :: "memory \<Rightarrow> ptr \<Rightarrow> u8 list \<Rightarrow> bool" where
  "cstr m p bs \<longleftrightarrow> str_from m p 0 bs"

section \<open>The functions\<close>

definition strcmp :: "memory \<Rightarrow> ptr \<Rightarrow> ptr \<Rightarrow> kerror + int" where
  "strcmp m s1 s2 =
     bindE (while_res
              (\<lambda>i. byte_at m s1 i \<noteq> 0 \<and> byte_at m s1 i = byte_at m s2 i)
              (\<lambda>i. Inr (i + 1)) 0)
       (\<lambda>i. Inr (uint (byte_at m s1 i) - uint (byte_at m s2 i)))"

definition strlen :: "memory \<Rightarrow> ptr \<Rightarrow> kerror + u32" where
  "strlen m buf = while_res (\<lambda>i. byte_at m buf i \<noteq> 0) (\<lambda>i. Inr (i + 1)) 0"

text \<open>
  The assignment in the guard of \<^verbatim>\<open>while((*dst++ = *src++));\<close> is the loop body here; the
  third component is the value of the guard.
\<close>

definition strcpy :: "memory \<Rightarrow> u32 \<Rightarrow> ptr \<Rightarrow> kerror + memory" where
  "strcpy m dst src =
     bindE (while_res (\<lambda>(i, m, go). go)
              (\<lambda>(i, m, go). let c = byte_at m src i
                 in Inr (i + 1, write8 m (dst + i) c, c \<noteq> 0)) (0, m, True))
       (\<lambda>(i, m, go). Inr m)"

definition memset :: "memory \<Rightarrow> u32 \<Rightarrow> u32 \<Rightarrow> u32 \<Rightarrow> memory" where
  "memset m s c n = fold (\<lambda>i m. put_byte s m i (ucast c)) [0..<unat n] m"

definition memcpy :: "memory \<Rightarrow> u32 \<Rightarrow> ptr \<Rightarrow> u32 \<Rightarrow> memory" where
  "memcpy m dst src n = fold (\<lambda>i m. put_byte dst m i (byte_at m src (of_nat i))) [0..<unat n] m"

definition memmove :: "memory \<Rightarrow> u32 \<Rightarrow> u32 \<Rightarrow> u32 \<Rightarrow> memory" where
  "memmove m dst src len =
     fold (\<lambda>i m. put_byte dst m i (get_byte src m i)) [0..<unat len] m"

definition strcat :: "memory \<Rightarrow> u32 \<Rightarrow> ptr \<Rightarrow> kerror + memory" where
  "strcat m dest src =
     bindE (strlen m (At dest)) (\<lambda>n. let e = dest + n in
     bindE (strlen m src) (\<lambda>k. let m1 = memcpy m e src k in
     bindE (strlen m1 src) (\<lambda>k'. Inr (write8 m1 (e + k') 0))))"

text \<open>The two case functions share their loop, which evaluates \<^verbatim>\<open>strlen(str)\<close> in every round.\<close>

definition map_chars :: "(u8 \<Rightarrow> u8) \<Rightarrow> memory \<Rightarrow> u32 \<Rightarrow> kerror + memory" where
  "map_chars f m str =
     bindE (while_res (\<lambda>(i, m, go). go)
              (\<lambda>(i, m, go). bindE (strlen m (At str)) (\<lambda>n.
                 if i < n then Inr (i + 1, write8 m (str + i) (f (read8 m (str + i))), True)
                 else Inr (i, m, False))) (0 :: u32, m, True))
       (\<lambda>(i, m, go). Inr m)"

definition upper_char :: "u8 \<Rightarrow> u8" where
  "upper_char c = (if c = 0x61 \<and> c < 0x7A then c AND 0x4F else c)"

definition lower_char :: "u8 \<Rightarrow> u8" where
  "lower_char c = (if c = 0x41 \<and> c < 0x5A then c OR 0x60 else c)"

definition strupper :: "memory \<Rightarrow> u32 \<Rightarrow> kerror + memory" where
  "strupper m str = map_chars upper_char m str"

definition strlower :: "memory \<Rightarrow> u32 \<Rightarrow> kerror + memory" where
  "strlower m str = map_chars lower_char m str"

subsection \<open>Numbers to text\<close>

definition digit_char :: "u32 \<Rightarrow> u8" where
  "digit_char a = (if a < 10 then ucast a + 0x30 else ucast a + 0x61 - 10)"

definition sdigit_char :: "u32 \<Rightarrow> u8" where
  "sdigit_char a = (if a <s 10 then ucast a + 0x30 else ucast a + 0x61 - 10)"

text \<open>
  The \<^verbatim>\<open>do \<dots> while(x /= radix)\<close> of \<^verbatim>\<open>uitoa\<close>; \<^verbatim>\<open>itoa\<close> has the same one,
  since its \<^verbatim>\<open>int x\<close> is converted to \<^verbatim>\<open>uint32_t\<close> by the division, but compares
  the digit as an \<^verbatim>\<open>int\<close>.
\<close>

definition emit_digits ::
    "(u32 \<Rightarrow> u8) \<Rightarrow> u32 \<Rightarrow> memory \<Rightarrow> u32 \<Rightarrow> u32 \<Rightarrow> u32 \<Rightarrow> kerror + u32 \<times> memory" where
  "emit_digits digit radix m buf x i =
     (if radix = 0 then Inl Division_by_zero
      else bindE (while_res (\<lambda>(x, i, m, go). go)
             (\<lambda>(x, i, m, go). let a = x mod radix; x' = x div radix
                in Inr (x', i + 1, write8 m (buf + i) (digit a), x' \<noteq> 0))
             (x, i, m, True))
        (\<lambda>(x, i, m, go). Inr (i, m)))"

definition swap_bytes :: "memory \<Rightarrow> u32 \<Rightarrow> u32 \<Rightarrow> memory" where
  "swap_bytes m s e = write8 (write8 m s (read8 m e)) e (read8 m s)"

text \<open>The loop of \<^verbatim>\<open>uitoa\<close> that exchanges the ends of the digits.\<close>

definition reverse_bytes :: "memory \<Rightarrow> u32 \<Rightarrow> u32 \<Rightarrow> kerror + memory" where
  "reverse_bytes m s e =
     bindE (while_res (\<lambda>(s, e, m). s < e)
              (\<lambda>(s, e, m). Inr (s + 1, e - 1, swap_bytes m s e)) (s, e, m))
       (\<lambda>(s, e, m). Inr m)"

definition finish_digits :: "u32 \<Rightarrow> u32 \<Rightarrow> u32 \<times> memory \<Rightarrow> kerror + memory" where
  "finish_digits buf start = (\<lambda>(i, m).
     bindE (reverse_bytes m (buf + start) (buf + (i - 1))) (\<lambda>m'. Inr (write8 m' (buf + i) 0)))"

definition uitoa :: "memory \<Rightarrow> u32 \<Rightarrow> u32 \<Rightarrow> u32 \<Rightarrow> kerror + memory" where
  "uitoa m val buf radix =
     (let (m0, start) = (if radix = 16
        then (write8 (write8 m buf 0x30) (buf + 1) 0x78, 2) else (m, 0))
      in bindE (emit_digits digit_char radix m0 buf val start) (finish_digits buf start))"

definition itoa :: "memory \<Rightarrow> u32 \<Rightarrow> u32 \<Rightarrow> u32 \<Rightarrow> kerror + memory" where
  "itoa m val buf radix =
     (let (m0, i0) = (if val <s 0 \<and> radix = 10 then (write8 m buf 0x2D, 1) else (m, 0));
          (m1, start) = (if radix = 10
            then (write8 (write8 m0 (buf + i0) 0x30) (buf + i0 + 1) 0x78, i0 + 2) else (m0, i0))
      in bindE (emit_digits sdigit_char radix m1 buf val start) (\<lambda>(i, m2).
         bindE (while_res (\<lambda>(s, e, i, m). s < e)
                 (\<lambda>(s, e, i, m). Inr (s, e - 1, i + 1, swap_bytes m s e))
                 (buf + start, buf + (i - 1), i, m2))
           (\<lambda>(s, e, i, m3). Inr (write8 m3 (buf + i) 0))))"

section \<open>Searching for the terminator\<close>

lemma strlen_from:
  "str_from m p i bs \<Longrightarrow>
   while_res (\<lambda>i. byte_at m p i \<noteq> 0) (\<lambda>i. Inr (i + 1)) i = Inr (i + of_nat (length bs))"
proof (induction bs arbitrary: i)
  case Nil
  then show ?case by simp
next
  case (Cons b bs)
  then show ?case by (subst while_res_step) (auto simp: algebra_simps)
qed

lemma strlen_cstr: "cstr m p bs \<Longrightarrow> strlen m p = Inr (of_nat (length bs))"
  using strlen_from [of m p 0 bs] by (simp add: strlen_def cstr_def)

lemma str_from_nth:
  "str_from m p i bs \<Longrightarrow> j < length bs \<Longrightarrow> byte_at m p (i + of_nat j) = bs ! j \<and> bs ! j \<noteq> 0"
proof (induction bs arbitrary: i j)
  case Nil
  then show ?case by simp
next
  case (Cons b bs)
  then show ?case
  proof (cases j)
    case (Suc k)
    with Cons.IH [of "i + 1" k] Cons.prems show ?thesis by (simp add: algebra_simps)
  qed simp
qed

lemma str_from_end: "str_from m p i bs \<Longrightarrow> byte_at m p (i + of_nat (length bs)) = 0"
proof (induction bs arbitrary: i)
  case (Cons b bs)
  from Cons.IH [of "i + 1"] Cons.prems show ?case by (simp add: algebra_simps)
qed simp

lemma cstr_nth: "cstr m p bs \<Longrightarrow> j < length bs \<Longrightarrow> byte_at m p (of_nat j) = bs ! j \<and> bs ! j \<noteq> 0"
  using str_from_nth [of m p 0 bs j] by (simp add: cstr_def)

lemma cstr_end: "cstr m p bs \<Longrightarrow> byte_at m p (of_nat (length bs)) = 0"
  using str_from_end [of m p 0 bs] by (simp add: cstr_def)

text \<open>No string is as long as the address space: the terminator would not have been reached.\<close>

lemma cstr_length: "cstr m p bs \<Longrightarrow> length bs < 2 ^ 32"
proof (rule ccontr)
  assume c: "cstr m p bs" and "\<not> length bs < 2 ^ 32"
  then have "length bs mod 2 ^ 32 < length bs"
    by (meson less_le_trans linorder_not_less mod_less_divisor zero_less_numeral zero_less_power)
  moreover have "(of_nat (length bs mod 2 ^ 32) :: u32) = of_nat (length bs)"
    by (simp add: word_unat_eq_iff unat_of_nat)
  ultimately show False using cstr_nth [OF c] cstr_end [OF c] by metis
qed

lemma str_fromI:
  "(\<And>j. j < length bs \<Longrightarrow> byte_at m p (i + of_nat j) = bs ! j) \<Longrightarrow> 0 \<notin> set bs \<Longrightarrow>
   byte_at m p (i + of_nat (length bs)) = 0 \<Longrightarrow> str_from m p i bs"
proof (induction bs arbitrary: i)
  case (Cons b bs)
  have "str_from m p (i + 1) bs"
  proof (rule Cons.IH)
    show "byte_at m p (i + 1 + of_nat j) = bs ! j" if "j < length bs" for j
      using Cons.prems(1) [of "Suc j"] that by (simp add: algebra_simps)
  qed (use Cons.prems in \<open>auto simp: algebra_simps\<close>)
  with Cons.prems(1) [of 0] Cons.prems(2) show ?case by auto
qed simp

lemma cstrI:
  "(\<And>j. j < length bs \<Longrightarrow> byte_at m p (of_nat j) = bs ! j) \<Longrightarrow> 0 \<notin> set bs \<Longrightarrow>
   byte_at m p (of_nat (length bs)) = 0 \<Longrightarrow> cstr m p bs"
  using str_fromI [of bs m p 0] by (simp add: cstr_def)

lemma cstr_nonzero: "cstr m p bs \<Longrightarrow> 0 \<notin> set bs"
  by (metis cstr_nth in_set_conv_nth)

lemma cstr_unique: "cstr m p xs \<Longrightarrow> cstr m p ys \<Longrightarrow> xs = ys"
proof -
  have "str_from m p i xs \<Longrightarrow> str_from m p i ys \<Longrightarrow> xs = ys" for i
  proof (induction xs arbitrary: ys i)
    case Nil
    then show ?case by (cases ys) auto
  next
    case (Cons x xs)
    then show ?case by (cases ys) auto
  qed
  then show "cstr m p xs \<Longrightarrow> cstr m p ys \<Longrightarrow> xs = ys" by (simp add: cstr_def)
qed

section \<open>Comparison\<close>

text \<open>The specification: the sign of the first difference, the terminator counting as 0.\<close>

fun compare_bytes :: "u8 list \<Rightarrow> u8 list \<Rightarrow> int" where
  "compare_bytes [] [] = 0"
| "compare_bytes [] (y # ys) = - uint y"
| "compare_bytes (x # xs) [] = uint x"
| "compare_bytes (x # xs) (y # ys) =
     (if x = y then compare_bytes xs ys else uint x - uint y)"

lemma compare_bytes_eq_0: "0 \<notin> set xs \<Longrightarrow> 0 \<notin> set ys \<Longrightarrow> compare_bytes xs ys = 0 \<longleftrightarrow> xs = ys"
  by (induction xs ys rule: compare_bytes.induct) (auto simp: word_uint_eq_iff)

lemma strcmp_from:
  "str_from m p i xs \<Longrightarrow> str_from m q i ys \<Longrightarrow>
   bindE (while_res (\<lambda>i. byte_at m p i \<noteq> 0 \<and> byte_at m p i = byte_at m q i) (\<lambda>i. Inr (i + 1)) i)
     (\<lambda>i. Inr (uint (byte_at m p i) - uint (byte_at m q i))) = Inr (compare_bytes xs ys)"
proof (induction xs ys arbitrary: i rule: compare_bytes.induct)
  case (4 x xs y ys)
  show ?case
  proof (cases "x = y")
    case True
    with 4 show ?thesis by (subst while_res_step) auto
  qed (use 4 in auto)
qed auto

lemma strcmp_cstr: "cstr m p xs \<Longrightarrow> cstr m q ys \<Longrightarrow> strcmp m p q = Inr (compare_bytes xs ys)"
  using strcmp_from [of m p 0 xs q ys] by (simp add: strcmp_def cstr_def)

lemma strcmp_zero:
  assumes "cstr m p xs" "cstr m q ys"
  shows "\<exists>d. strcmp m p q = Inr d \<and> (d = 0 \<longleftrightarrow> xs = ys)"
  using strcmp_cstr [OF assms] compare_bytes_eq_0 [of xs ys] cstr_nonzero [OF assms(1)] cstr_nonzero [OF assms(2)]
  by blast

section \<open>Copying and filling\<close>

text \<open>A pointer whose first \<open>n\<close> bytes a write to the \<open>k\<close> bytes at \<open>a\<close> leaves alone.\<close>

fun ptr_apart :: "u32 \<Rightarrow> ptr \<Rightarrow> u32 \<Rightarrow> u32 \<Rightarrow> bool" where
  "ptr_apart n (Lit cs) k a \<longleftrightarrow> True"
| "ptr_apart n (At p) k a \<longleftrightarrow> apart n p k a"

lemma ptr_apart_byte_at:
  "ptr_apart n p k a \<Longrightarrow> same_outside (span a k) m m' \<Longrightarrow> i < n \<Longrightarrow>
   byte_at m' p i = byte_at m p i"
  by (cases p) (auto simp: same_outside_def read8_def dest: span_disjoint in_span)

lemma put_byte_same_outside: "a + of_nat i \<in> R \<Longrightarrow> same_outside R m (put_byte a m i v)"
  by (simp add: put_byte_def same_outside_write8)

lemma fold_same_outside:
  "(\<And>i m. i \<in> set is \<Longrightarrow> same_outside R m (f i m)) \<Longrightarrow> same_outside R m (fold f is m)"
  by (induction "is" arbitrary: m) (auto intro: same_outside_trans)

lemma fill_same_outside:
  assumes "n < 2 ^ 32" "k \<le> n"
  shows "same_outside (span a (of_nat n)) m (fold (\<lambda>i m. put_byte a m i (f i m)) [0..<k] m)"
proof (rule fold_same_outside)
  fix i and m :: memory
  assume "i \<in> set [0..<k]"
  with assms have "a + of_nat i \<in> span a (of_nat n)" by (intro in_span_of_nat) auto
  then show "same_outside (span a (of_nat n)) m (put_byte a m i (f i m))"
    by (rule put_byte_same_outside)
qed

lemma fill_read:
  assumes "k \<le> 2 ^ 32"
  shows "fold (\<lambda>i m. put_byte a m i (f i)) [0..<k] m x =
    (if unat (x - a) < k then f (unat (x - a)) else m x)"
proof -
  have "get_byte a (fold (\<lambda>i m. put_byte a m i (f i)) [0..<k] m) (unat (x - a)) =
      (if unat (x - a) < k then f (unat (x - a)) else get_byte a m (unat (x - a)))"
    using assms unat32_bound [of "x - a"] by (simp add: bytes.get_fold_put)
  then show ?thesis by (simp add: get_byte_def read8_def)
qed

lemma memset_read: "memset m s c n x = (if x - s < n then ucast c else m x)"
  using unat32_bound [of n] by (simp add: memset_def fill_read word_less_nat_alt)

text \<open>A copy whose reads do not see its own writes.\<close>

lemma fill_eq:
  assumes "\<And>i. i < k \<Longrightarrow> F i (fold (\<lambda>i m. put_byte a m i (f i)) [0..<i] m) = f i"
  shows "fold (\<lambda>i m. put_byte a m i (F i m)) [0..<k] m = fold (\<lambda>i m. put_byte a m i (f i)) [0..<k] m"
  using assms by (induction k) simp_all

lemma memcpy_read:
  assumes "ptr_apart n src n dst"
  shows "memcpy m dst src n x = (if x - dst < n then byte_at m src (x - dst) else m x)"
proof -
  have "memcpy m dst src n =
      fold (\<lambda>i m'. put_byte dst m' i (byte_at m src (of_nat i))) [0..<unat n] m"
    unfolding memcpy_def
  proof (rule fill_eq)
    fix i assume i: "i < unat n"
    have "same_outside (span dst n) m
        (fold (\<lambda>i m'. put_byte dst m' i (byte_at m src (of_nat i))) [0..<i] m)"
      using fill_same_outside [of "unat n" i] i unat32_bound [of n] by simp
    with assms show "byte_at (fold (\<lambda>i m'. put_byte dst m' i (byte_at m src (of_nat i))) [0..<i] m)
        src (of_nat i) = byte_at m src (of_nat i)"
      by (rule ptr_apart_byte_at) (use i unat32_bound [of n] in \<open>simp add: word_less_nat_alt\<close>)
  qed
  then show ?thesis using unat32_bound [of n] by (simp add: fill_read word_less_nat_alt)
qed

lemma memmove_read:
  assumes "dst = src \<or> n \<le> dst - src"
  shows "memmove m dst src n x = (if x - dst < n then m (src + (x - dst)) else m x)"
proof -
  have "memmove m dst src n = fold (\<lambda>i m'. put_byte dst m' i (m (src + of_nat i))) [0..<unat n] m"
    unfolding memmove_def
  proof (rule fill_eq)
    fix i assume i: "i < unat n"
    then have "\<not> unat (src + of_nat i - dst) < i"
    proof (cases "dst = src")
      case False
      define e where "e = dst - src"
      with assms False have "unat n \<le> unat e" by (simp add: word_le_nat_alt)
      then have "\<not> unat (of_nat i - e) < i" using i unat32_bound [of n] unat32_bound [of e]
        by (simp add: unat_sub_if_size word_size)
      moreover have "src + of_nat i - dst = of_nat i - e" by (simp add: e_def)
      ultimately show ?thesis by (simp only: not_False_eq_True)
    qed (use i unat32_bound [of n] in simp)
    then show "get_byte src (fold (\<lambda>i m'. put_byte dst m' i (m (src + of_nat i))) [0..<i] m) i =
        m (src + of_nat i)"
      using i unat32_bound [of n] by (simp add: get_byte_def read8_def fill_read)
  qed
  then show ?thesis using unat32_bound [of n] by (simp add: fill_read word_less_nat_alt)
qed

lemma memset_same_outside: "same_outside (span s n) m (memset m s c n)"
  by (simp add: same_outside_def memset_read span_def)

lemma memmove_same_outside: "same_outside (span dst n) m (memmove m dst src n)"
  unfolding memmove_def
  using fill_same_outside [of "unat n" "unat n" dst m "\<lambda>i m. get_byte src m i"] unat32_bound [of n]
  by simp

lemma memcpy_same_outside: "same_outside (span dst n) m (memcpy m dst src n)"
  unfolding memcpy_def
  using fill_same_outside [of "unat n" "unat n" dst m "\<lambda>i m. byte_at m src (of_nat i)"]
    unat32_bound [of n]
  by simp

subsection \<open>strcpy and strcat\<close>

lemma strcpy_fill:
  assumes src: "cstr m src bs"
    and apart: "ptr_apart (of_nat (Suc (length bs))) src (of_nat (Suc (length bs))) dst"
    and len: "Suc (length bs) < 2 ^ 32"
  shows "strcpy m dst src =
    Inr (fold (\<lambda>i m'. put_byte dst m' i (byte_at m src (of_nat i))) [0..<Suc (length bs)] m)"
proof -
  let ?n = "length bs"
  let ?M = "\<lambda>k. fold (\<lambda>i m'. put_byte dst m' i (byte_at m src (of_nat i))) [0..<k] m"
  let ?g = "\<lambda>k. (of_nat k :: u32, ?M k, k \<le> ?n)"
  have same: "byte_at (?M k) src (of_nat k) = byte_at m src (of_nat k)" if "k \<le> ?n" for k
    using apart
  proof (rule ptr_apart_byte_at)
    show "same_outside (span dst (of_nat (Suc ?n))) m (?M k)"
      by (rule fill_same_outside) (use that len in auto)
    show "(of_nat k :: u32) < of_nat (Suc ?n)"
      using that len by (simp add: of_nat_less32 del: of_nat_Suc)
  qed
  have nz: "byte_at m src (of_nat k) \<noteq> 0 \<longleftrightarrow> Suc k \<le> ?n" if "k \<le> ?n" for k
    using cstr_nth [OF src, of k] cstr_end [OF src] that by (cases "k = ?n") auto
  have "while_res (\<lambda>(i, m, go). go) (\<lambda>(i, m, go). let c = byte_at m src i
      in Inr (i + 1, write8 m (dst + i) c, c \<noteq> 0)) (?g 0) = Inr (?g (Suc ?n))"
    by (rule while_res_iterate) (auto simp: same nz Let_def simp flip: put_byte_def)
  then show ?thesis by (simp add: strcpy_def del: upt_Suc)
qed

lemma strcpy_cstr:
  assumes src: "cstr m src bs"
    and apart: "ptr_apart (of_nat (Suc (length bs))) src (of_nat (Suc (length bs))) dst"
    and len: "Suc (length bs) < 2 ^ 32"
  shows "\<exists>m'. strcpy m dst src = Inr m' \<and> cstr m' (At dst) bs \<and>
    same_outside (span dst (of_nat (Suc (length bs)))) m m'"
proof (intro exI conjI)
  let ?m' = "fold (\<lambda>i m'. put_byte dst m' i (byte_at m src (of_nat i))) [0..<Suc (length bs)] m"
  show "strcpy m dst src = Inr ?m'" by (rule strcpy_fill [OF assms])
  show "same_outside (span dst (of_nat (Suc (length bs)))) m ?m'"
    by (rule fill_same_outside) (use len in auto)
  have "byte_at ?m' (At dst) (of_nat j) = byte_at m src (of_nat j)" if "j \<le> length bs" for j
    using that len by (simp add: read8_def fill_read del: upt_Suc)
  then show "cstr ?m' (At dst) bs"
    using cstr_nth [OF src] cstr_end [OF src] cstr_nonzero [OF src] by (intro cstrI) auto
qed

lemma memcpy_At_cong:
  "same_outside R m m' \<Longrightarrow> (\<And>i. i < n \<Longrightarrow> p + i \<notin> R) \<Longrightarrow> i < n \<Longrightarrow>
   byte_at m' (At p) i = byte_at m (At p) i"
  by (simp add: same_outside_def read8_def)

lemma strcat_cstr:
  assumes dst: "cstr m (At dest) as" and src: "cstr m src bs"
    and apart: "ptr_apart (of_nat (Suc (length bs))) src
      (of_nat (Suc (length as + length bs))) dest"
    and len: "Suc (length as + length bs) < 2 ^ 32"
  shows "\<exists>m'. strcat m dest src = Inr m' \<and> cstr m' (At dest) (as @ bs) \<and>
    same_outside (span dest (of_nat (Suc (length as + length bs)))) m m'"
proof -
  let ?a = "length as" and ?b = "length bs"
  let ?e = "dest + of_nat ?a"
  let ?m1 = "memcpy m ?e src (of_nat ?b)"
  let ?m2 = "write8 ?m1 (?e + of_nat ?b) 0"
  let ?S = "span dest (of_nat (Suc (?a + ?b)))"
  have sub: "span ?e (of_nat ?b) \<subseteq> ?S"
  proof
    fix x assume "x \<in> span ?e (of_nat ?b)"
    then have "unat (x - ?e) < ?b" using len by (simp add: span_def word_less_nat_alt)
    moreover have "x = dest + of_nat (?a + unat (x - ?e))" by simp
    ultimately show "x \<in> ?S" using len by (metis add_less_cancel_left in_span_of_nat less_SucI)
  qed
  have m1: "same_outside ?S m ?m1"
    using memcpy_same_outside sub by (rule same_outside_mono)
  have "?e + of_nat ?b = dest + of_nat (?a + ?b)" by simp
  then have "?e + of_nat ?b \<in> ?S" using len by (metis in_span_of_nat lessI)
  then have frame: "same_outside ?S m ?m2"
    by (rule same_outside_trans [OF m1 same_outside_write8])
  have src': "byte_at ?m1 src (of_nat j) = byte_at m src (of_nat j)" if "j \<le> ?b" for j
    using apart m1
    by (rule ptr_apart_byte_at) (use that len in \<open>simp add: of_nat_less32 del: of_nat_Suc\<close>)
  have "cstr ?m1 src bs"
    using cstr_nth [OF src] cstr_end [OF src] cstr_nonzero [OF src]
    by (intro cstrI) (simp_all add: src')
  then have run: "strcat m dest src = Inr ?m2"
    by (simp add: strcat_def strlen_cstr [OF dst] strlen_cstr [OF src] strlen_cstr Let_def)
  have get: "?m2 (dest + of_nat j) = (if j < ?a then m (dest + of_nat j)
      else if j < ?a + ?b then bs ! (j - ?a) else 0)" if "j \<le> ?a + ?b" for j
  proof -
    have "ptr_apart (of_nat ?b) src (of_nat ?b) ?e"
      using apart len by (cases src) (auto elim!: apart_sub simp: of_nat_less32 of_nat_le32
          simp del: of_nat_Suc of_nat_add)
    note copied = memcpy_read [OF this, of m "dest + of_nat j"]
    have "dest + of_nat j - ?e = of_nat j - of_nat ?a" by simp
    note copied = copied [unfolded this word_less_nat_alt]
    have sz: "unat (of_nat j - of_nat ?a :: u32) = (if ?a \<le> j then j - ?a else j + 2 ^ 32 - ?a)"
      using that len by (intro unat_of_nat_diff32) auto
    have last: "dest + of_nat j = ?e + of_nat ?b \<longleftrightarrow> j = ?a + ?b"
      using that len of_nat_eq32 [of j "?a + ?b"] by (simp add: add.assoc)
    have "?m1 (dest + of_nat j) = (if j < ?a then m (dest + of_nat j) else bs ! (j - ?a))"
      if "j < ?a + ?b"
      unfolding copied sz using that len cstr_nth [OF src, of "j - ?a"] by auto
    with that last show ?thesis by (auto simp: write8_def)
  qed
  have "cstr ?m2 (At dest) (as @ bs)"
  proof (rule cstrI)
    show "byte_at ?m2 (At dest) (of_nat j) = (as @ bs) ! j" if "j < length (as @ bs)" for j
      using that get [of j] cstr_nth [OF dst, of j] by (auto simp: read8_def nth_append)
    show "0 \<notin> set (as @ bs)" using cstr_nonzero [OF dst] cstr_nonzero [OF src] by simp
    show "byte_at ?m2 (At dest) (of_nat (length (as @ bs))) = 0"
      using get [of "?a + ?b"] by (simp add: read8_def)
  qed
  with run frame show ?thesis by blast
qed

subsection \<open>Changing a string in place\<close>

lemma map_chars_cstr:
  assumes s: "cstr m (At str) bs" and f: "\<And>c. c \<in> set bs \<Longrightarrow> f c \<noteq> 0"
  shows "\<exists>m'. map_chars f m str = Inr m' \<and> cstr m' (At str) (map f bs) \<and>
    same_outside (span str (of_nat (length bs))) m m'"
proof -
  let ?n = "length bs"
  let ?M = "\<lambda>k. fold (\<lambda>i m'. put_byte str m' i (f (bs ! i))) [0..<k] m"
  let ?g = "\<lambda>k. if k \<le> ?n then (of_nat k :: u32, ?M k, True) else (of_nat ?n, ?M ?n, False)"
  note len = cstr_length [OF s]
  have read: "?M k (str + of_nat j) = (if j < k then f (bs ! j) else m (str + of_nat j))"
    if "j \<le> ?n" "k \<le> ?n" for j k
    using that len by (simp add: fill_read)
  have cs: "cstr (?M k) (At str) (map f (take k bs) @ drop k bs)" if "k \<le> ?n" for k
    using that f cstr_nth [OF s] cstr_end [OF s] cstr_nonzero [OF s]
    by (intro cstrI) (auto simp: read8_def read nth_append dest: in_set_takeD in_set_dropD)
  have "while_res (\<lambda>(i, m, go). go) (\<lambda>(i, m, go). bindE (strlen m (At str)) (\<lambda>n.
      if i < n then Inr (i + 1, write8 m (str + i) (f (read8 m (str + i))), True)
      else Inr (i, m, False))) (?g 0) = Inr (?g (Suc ?n))"
  proof (rule while_res_iterate)
    fix k assume k: "k < Suc ?n"
    have "strlen (?M k) (At str) = Inr (of_nat ?n)"
      using strlen_cstr [OF cs, of k] k by simp
    moreover have "read8 (?M k) (str + of_nat k) = bs ! k" if "k < ?n"
      using that read [of k k] cstr_nth [OF s that] by (simp add: read8_def)
    ultimately show "(case ?g k of (i, m, go) \<Rightarrow> go) \<and> (case ?g k of (i, m, go) \<Rightarrow>
        bindE (strlen m (At str)) (\<lambda>n. if i < n then Inr (i + 1, write8 m (str + i)
          (f (read8 m (str + i))), True) else Inr (i, m, False))) = Inr (?g (Suc k))"
      by (cases "k = ?n") (use k len in \<open>auto simp: of_nat_less32 simp flip: put_byte_def\<close>)
  qed simp
  then have "map_chars f m str = Inr (?M ?n)" by (simp add: map_chars_def)
  moreover have "cstr (?M ?n) (At str) (map f bs)" using cs [of ?n] by simp
  moreover have "same_outside (span str (of_nat ?n)) m (?M ?n)"
    using len by (intro fill_same_outside) auto
  ultimately show ?thesis by blast
qed

section \<open>Numbers to text\<close>

fun digits :: "nat \<Rightarrow> nat \<Rightarrow> nat list" where
  "digits r n = (if r < 2 \<or> n < r then [n] else digits r (n div r) @ [n mod r])"

declare digits.simps [simp del]

definition value_of :: "nat \<Rightarrow> nat list \<Rightarrow> nat" where
  "value_of r ds = foldl (\<lambda>a d. a * r + d) 0 ds"

lemma value_of_digits: "value_of r (digits r n) = n"
proof (induction r n rule: digits.induct)
  case (1 r n)
  then show ?case by (subst digits.simps) (auto simp: value_of_def)
qed

lemma digits_less: "2 \<le> r \<Longrightarrow> d \<in> set (digits r n) \<Longrightarrow> d < r"
proof (induction r n rule: digits.induct)
  case (1 r n)
  then show ?case by (subst (asm) (2) digits.simps) (auto split: if_splits)
qed

lemma digits_nonempty [simp]: "digits r n \<noteq> []"
  by (subst digits.simps) simp

lemma length_digits_le: "2 \<le> r \<Longrightarrow> n < r ^ k \<Longrightarrow> 0 < k \<Longrightarrow> length (digits r n) \<le> k"
proof (induction r n arbitrary: k rule: digits.induct)
  case (1 r n)
  show ?case
  proof (cases "n < r")
    case False
    with "1.prems" obtain j where j: "k = Suc j" "0 < j" by (cases k; cases "k - 1") auto
    with "1.prems" have "n div r < r ^ j"
      by (simp add: less_mult_imp_div_less mult.commute)
    with "1.IH" [of j] "1.prems" False j show ?thesis by (subst digits.simps) simp
  qed (use "1.prems" in \<open>subst digits.simps, simp\<close>)
qed

lemma length_digits_ge: "2 \<le> r \<Longrightarrow> r ^ k \<le> n \<Longrightarrow> k < length (digits r n)"
proof (induction r n arbitrary: k rule: digits.induct)
  case (1 r n)
  show ?case
  proof (cases k)
    case (Suc j)
    with "1.prems" have le: "r * r ^ j \<le> n" "1 \<le> r ^ j" by simp_all
    then have "r * 1 \<le> n" by (meson le_trans mult_le_mono2)
    moreover have "r ^ j \<le> n div r"
      using le "1.prems" by (simp add: less_eq_div_iff_mult_less_eq mult.commute)
    ultimately show ?thesis using "1.IH" [of j] "1.prems" Suc by (subst digits.simps) simp
  qed simp
qed

text \<open>The digits from the last to the first, as the loop produces them.\<close>

lemma rev_digits_nth:
  "2 \<le> r \<Longrightarrow> j < length (digits r n) \<Longrightarrow> rev (digits r n) ! j = n div r ^ j mod r"
proof (induction r n arbitrary: j rule: digits.induct)
  case (1 r n)
  show ?case
  proof (cases "n < r")
    case True
    with "1.prems" show ?thesis by (subst digits.simps) (simp add: digits.simps [of r n])
  next
    case False
    with "1.prems" have eq: "digits r n = digits r (n div r) @ [n mod r]"
      by (subst digits.simps) simp
    show ?thesis
    proof (cases j)
      case (Suc i)
      with "1.IH" [of i] "1.prems" False eq show ?thesis by (simp add: div_mult2_eq)
    qed (simp add: eq)
  qed
qed

lemma digits_continue:
  "2 \<le> r \<Longrightarrow> j < length (digits r n) \<Longrightarrow> n div r ^ Suc j \<noteq> 0 \<longleftrightarrow> Suc j < length (digits r n)"
proof -
  assume r: "2 \<le> r" and j: "j < length (digits r n)"
  have "n div r ^ Suc j \<noteq> 0 \<longleftrightarrow> r ^ Suc j \<le> n"
    using r by (simp add: div_eq_0_iff not_less)
  moreover have "r ^ Suc j \<le> n \<Longrightarrow> Suc j < length (digits r n)"
    using length_digits_ge [OF r] by blast
  moreover have "n < r ^ Suc j \<Longrightarrow> length (digits r n) \<le> Suc j"
    using length_digits_le [OF r] by blast
  ultimately show ?thesis by (meson linorder_not_less)
qed

lemma length_digits32: "2 \<le> r \<Longrightarrow> n < 2 ^ 32 \<Longrightarrow> length (digits r n) \<le> 32"
proof -
  assume r: "2 \<le> r" and n: "n < 2 ^ 32"
  have "(2 :: nat) ^ 32 \<le> r ^ 32" using r by (rule power_mono) simp
  with n have "n < r ^ 32" by linarith
  from length_digits_le [OF r this] show ?thesis by simp
qed

subsection \<open>The two loops of uitoa\<close>

lemma div_mod_step:
  assumes "n < 2 ^ 32"
  shows "(of_nat n :: u32) mod r = of_nat (n mod unat r)"
    and "(of_nat n :: u32) div r = of_nat (n div unat r)"
proof -
  have "n div unat r < 2 ^ 32" "n mod unat r < 2 ^ 32"
    using assms by (meson div_le_dividend le_less_trans mod_less_eq_dividend)+
  with assms show "(of_nat n :: u32) mod r = of_nat (n mod unat r)"
    "(of_nat n :: u32) div r = of_nat (n div unat r)"
    by (simp_all add: word_unat_eq_iff unat_mod unat_div)
qed

lemma emit_digits_run:
  fixes radix x :: u32
  defines "ds \<equiv> digits (unat radix) (unat x)"
  assumes r: "2 \<le> unat radix"
  shows "emit_digits dc radix m buf x (of_nat i) = Inr (of_nat (i + length ds),
    fold (\<lambda>j m'. put_byte (buf + of_nat i) m' j (dc (of_nat (rev ds ! j)))) [0..<length ds] m)"
proof -
  let ?r = "unat radix" and ?n = "length ds"
  let ?X = "\<lambda>j. unat x div ?r ^ j"
  let ?M = "\<lambda>j. fold (\<lambda>j m'. put_byte (buf + of_nat i) m' j (dc (of_nat (rev ds ! j)))) [0..<j] m"
  let ?g = "\<lambda>j. (of_nat (?X j) :: u32, of_nat (i + j) :: u32, ?M j, j < ?n)"
  have X: "?X j < 2 ^ 32" for j
    using unat32_bound [of x] by (meson div_le_dividend le_less_trans)
  have "while_res (\<lambda>(x, i, m, go). go) (\<lambda>(x, i, m, go). let a = x mod radix; x' = x div radix
      in Inr (x', i + 1, write8 m (buf + i) (dc a), x' \<noteq> 0)) (?g 0) = Inr (?g ?n)"
  proof (rule while_res_iterate)
    fix j assume j: "j < ?n"
    have a: "(of_nat (?X j) :: u32) mod radix = of_nat (rev ds ! j)"
      using j rev_digits_nth [OF r] by (simp add: ds_def div_mod_step [OF X])
    have x': "(of_nat (?X j) :: u32) div radix = of_nat (?X (Suc j))"
      by (simp only: div_mod_step [OF X] power_Suc2 div_mult2_eq)
    have "(of_nat (?X (Suc j)) :: u32) \<noteq> 0 \<longleftrightarrow> ?X (Suc j) \<noteq> 0"
      using of_nat_eq32 [OF X, of 0 "Suc j"] by simp
    with digits_continue [OF r] j have "(of_nat (?X (Suc j)) :: u32) \<noteq> 0 \<longleftrightarrow> Suc j < ?n"
      by (simp add: ds_def)
    with j show "(case ?g j of (x, i, m, go) \<Rightarrow> go) \<and> (case ?g j of (x, i, m, go) \<Rightarrow>
        let a = x mod radix; x' = x div radix
        in Inr (x', i + 1, write8 m (buf + i) (dc a), x' \<noteq> 0)) = Inr (?g (Suc j))"
      by (simp add: a x' Let_def put_byte_def add.assoc del: power_Suc)
  qed simp
  moreover have "radix \<noteq> 0" using r by auto
  moreover have "0 < ?n" by (simp add: ds_def)
  ultimately show ?thesis by (simp add: emit_digits_def)
qed

lemma get_byte_swap:
  "i < 2 ^ 32 \<Longrightarrow> j < 2 ^ 32 \<Longrightarrow> t < 2 ^ 32 \<Longrightarrow>
   get_byte b (swap_bytes m (b + of_nat i) (b + of_nat j)) t =
     get_byte b m (if t = j then i else if t = i then j else t)"
  by (simp add: swap_bytes_def read8_def write8_def get_byte_def of_nat_eq32)

text \<open>The loop that exchanges the ends reverses the bytes \<open>i, \<dots>, j\<close> of the buffer.\<close>

lemma reverse_loop:
  assumes "unat b + Suc j < 2 ^ 32" "i \<le> Suc j"
  shows "\<exists>m'. reverse_bytes m (b + of_nat i) (b + of_nat j) = Inr m' \<and>
    (\<forall>t < 2 ^ 32. get_byte b m' t = get_byte b m (if i \<le> t \<and> t \<le> j then i + j - t else t))"
  using assms
proof (induction "j - i" arbitrary: i j m rule: less_induct)
  case less
  have un: "unat (b + of_nat k) = unat b + k" if "k \<le> Suc j" for k
    using that less.prems by (subst unat_add32) auto
  show ?case
  proof (cases "i < j")
    case False
    then have "\<not> b + of_nat i < b + of_nat j"
      using less.prems un [of i] un [of j] by (simp add: word_less_nat_alt)
    moreover have "i + j - t = t" if "i \<le> t" "t \<le> j" for t using that False by simp
    ultimately show ?thesis by (simp add: reverse_bytes_def)
  next
    case True
    let ?m = "swap_bytes m (b + of_nat i) (b + of_nat j)"
    have guard: "b + of_nat i < b + of_nat j" using True un by (simp add: word_less_nat_alt)
    have ends: "b + of_nat i + 1 = b + of_nat (Suc i)" "b + of_nat j - 1 = b + of_nat (j - 1)"
      using of_nat_pred32 [of j] True by (simp_all flip: add_diff_eq)
    have "j - 1 - Suc i < j - i" "unat b + Suc (j - 1) < 2 ^ 32" "Suc i \<le> Suc (j - 1)"
      using True less.prems by auto
    from less.hyps [OF this, of ?m] obtain m' where
      run: "reverse_bytes ?m (b + of_nat (Suc i)) (b + of_nat (j - 1)) = Inr m'"
      and get: "\<forall>t < 2 ^ 32. get_byte b m' t =
        get_byte b ?m (if Suc i \<le> t \<and> t \<le> j - 1 then Suc i + (j - 1) - t else t)" by blast
    have "get_byte b m' t = get_byte b m (if i \<le> t \<and> t \<le> j then i + j - t else t)"
      if "t < 2 ^ 32" for t
      using get [rule_format, OF that] that True less.prems unat32_bound [of b]
      by (auto simp: get_byte_swap)
    moreover have "reverse_bytes m (b + of_nat i) (b + of_nat j) = Inr m'"
      using guard run unfolding reverse_bytes_def ends [symmetric]
      by (subst while_res_step) simp_all
    ultimately show ?thesis by blast
  qed
qed

subsection \<open>uitoa\<close>

definition uitoa_text :: "u32 \<Rightarrow> u32 \<Rightarrow> u8 list" where
  "uitoa_text val radix = (if radix = 16 then [0x30, 0x78] else []) @
     map (\<lambda>d. digit_char (of_nat d)) (digits (unat radix) (unat val))"

lemma digit_char_nonzero: "d < 36 \<Longrightarrow> digit_char (of_nat d) \<noteq> 0"
proof -
  assume "d < 36"
  then have "d \<in> set [0..<36]" by simp
  moreover have "\<forall>d \<in> set [0..<36]. digit_char (of_nat d) \<noteq> 0" by (simp add: upt_rec digit_char_def)
  ultimately show ?thesis by blast
qed

lemma uitoa_text_nonzero: "2 \<le> unat radix \<Longrightarrow> unat radix \<le> 36 \<Longrightarrow> 0 \<notin> set (uitoa_text val radix)"
  using digits_less [of "unat radix" _ "unat val"] digit_char_nonzero
  by (force simp: uitoa_text_def)

lemma uitoa_text_length: "2 \<le> unat radix \<Longrightarrow> length (uitoa_text val radix) \<le> 34"
  using length_digits32 [of "unat radix" "unat val"] unat32_bound [of val]
  by (auto simp: uitoa_text_def)

lemma string_written:
  assumes "\<And>t. t < 2 ^ 32 \<Longrightarrow> get_byte a m' t =
      (if t < length bs then bs ! t else if t = length bs then 0 else get_byte a m t)"
    and "0 \<notin> set bs" "Suc (length bs) < 2 ^ 32"
  shows "cstr m' (At a) bs" and "same_outside (span a (of_nat (Suc (length bs)))) m m'"
proof -
  show "cstr m' (At a) bs"
    using assms by (intro cstrI) (auto simp flip: get_byte_def)
  show "same_outside (span a (of_nat (Suc (length bs)))) m m'"
    unfolding same_outside_def
  proof (intro allI impI)
    fix x assume "x \<notin> span a (of_nat (Suc (length bs)))"
    then have "\<not> unat (x - a) < Suc (length bs)"
      using assms(3) by (simp add: span_def word_less_nat_alt del: of_nat_Suc)
    with assms(1) [of "unat (x - a)"] unat32_bound [of "x - a"] show "m' x = m x"
      by (simp add: get_byte_def read8_def)
  qed
qed

lemma uitoa_tail:
  fixes radix val :: u32
  defines "ds \<equiv> digits (unat radix) (unat val)"
  assumes r: "2 \<le> unat radix" and p: "p \<le> 2" and buf: "unat buf + 36 \<le> 2 ^ 32"
  shows "\<exists>m'. bindE (emit_digits dc radix m buf val (of_nat p)) (finish_digits buf (of_nat p)) =
      Inr m' \<and>
    (\<forall>t < 2 ^ 32. get_byte buf m' t = (if p \<le> t \<and> t < p + length ds then dc (of_nat (ds ! (t - p)))
       else if t = p + length ds then 0 else get_byte buf m t))"
proof -
  let ?n = "length ds"
  let ?F = "\<lambda>j. dc (of_nat (rev ds ! j))"
  let ?m1 = "fold (\<lambda>j m'. put_byte (buf + of_nat p) m' j (?F j)) [0..<?n] m"
  have n: "0 < ?n" "?n \<le> 32"
    using length_digits32 [OF r unat32_bound] by (simp_all add: ds_def)
  have m1: "get_byte buf ?m1 t = (if p \<le> t \<and> t < p + ?n then ?F (t - p) else get_byte buf m t)"
    if "t < 2 ^ 32" for t
  proof -
    have "unat (buf + of_nat t - (buf + of_nat p)) = (if p \<le> t then t - p else t + 2 ^ 32 - p)"
      using that p unat_of_nat_diff32 [of t p] by (simp only: add_diff_cancel_left) simp
    with n that p show ?thesis
      by (auto simp: get_byte_def read8_def fill_read)
  qed
  have pred: "p + ?n - 1 = p + (?n - 1)" using n(1) by (cases ?n) auto
  have i: "of_nat (p + ?n) - 1 = (of_nat (p + (?n - 1)) :: u32)"
    using n of_nat_pred32 [of "p + ?n", unfolded pred] by simp
  have "unat buf + Suc (p + (?n - 1)) < 2 ^ 32" "p \<le> Suc (p + (?n - 1))" using n p buf by auto
  from reverse_loop [OF this, of ?m1] obtain m2 where
    run: "reverse_bytes ?m1 (buf + of_nat p) (buf + of_nat (p + (?n - 1))) = Inr m2"
    and m2: "\<forall>t < 2 ^ 32. get_byte buf m2 t =
      get_byte buf ?m1 (if p \<le> t \<and> t \<le> p + (?n - 1) then p + (p + (?n - 1)) - t else t)"
    by blast
  let ?m' = "put_byte buf m2 (p + ?n) 0"
  have "get_byte buf ?m' t = (if p \<le> t \<and> t < p + ?n then dc (of_nat (ds ! (t - p)))
       else if t = p + ?n then 0 else get_byte buf m t)" if t: "t < 2 ^ 32" for t
  proof (cases "p \<le> t \<and> t < p + ?n")
    case True
    then have "p + (p + (?n - 1)) - t - p = ?n - Suc (t - p)" "t - p < ?n" by auto
    then have "?F (p + (p + (?n - 1)) - t - p) = dc (of_nat (ds ! (t - p)))"
      by (simp add: rev_nth)
    moreover have "p \<le> p + (p + (?n - 1)) - t" "p + (p + (?n - 1)) - t < p + ?n"
      "t \<le> p + (?n - 1)" using True by auto
    ultimately show ?thesis using True t m2 p n by (simp add: bytes.get_put m1)
  next
    case False
    with t m2 p n show ?thesis by (auto simp: bytes.get_put m1)
  qed
  moreover have "bindE (emit_digits dc radix m buf val (of_nat p)) (finish_digits buf (of_nat p)) =
      Inr ?m'"
    unfolding emit_digits_run [OF r, where x = val and dc = dc and m = m and buf = buf and i = p,
        folded ds_def] finish_digits_def
    by (simp only: bindE_simps prod.case i run put_byte_def [of buf m2])
  ultimately show ?thesis by blast
qed

lemma uitoa_cstr:
  assumes r: "2 \<le> unat radix" "unat radix \<le> 36" and buf: "unat buf + 36 \<le> 2 ^ 32"
  shows "\<exists>m'. uitoa m val buf radix = Inr m' \<and> cstr m' (At buf) (uitoa_text val radix) \<and>
    same_outside (span buf (of_nat (Suc (length (uitoa_text val radix))))) m m'"
proof -
  let ?ds = "digits (unat radix) (unat val)"
  define p :: nat where "p = (if radix = 16 then 2 else 0)"
  define m0 where "m0 = (if radix = 16 then write8 (write8 m buf 0x30) (buf + 1) 0x78 else m)"
  have start: "uitoa m val buf radix =
      bindE (emit_digits digit_char radix m0 buf val (of_nat p)) (finish_digits buf (of_nat p))"
    by (simp add: uitoa_def p_def m0_def)
  have "p \<le> 2" by (simp add: p_def)
  from uitoa_tail [OF r(1) this buf, of digit_char m0 val, folded start]
  obtain m' where run: "uitoa m val buf radix = Inr m'"
    and get: "\<And>t. t < 2 ^ 32 \<Longrightarrow> get_byte buf m' t =
      (if p \<le> t \<and> t < p + length ?ds then digit_char (of_nat (?ds ! (t - p)))
       else if t = p + length ?ds then 0 else get_byte buf m0 t)"
    by blast
  have "write8 (write8 m buf 0x30) (buf + 1) 0x78 = put_byte buf (put_byte buf m 0 0x30) 1 0x78"
    by (simp add: put_byte_def)
  then have two: "get_byte buf m0 t = (if t < p then (if t = 0 then 0x30 else 0x78)
      else get_byte buf m t)" if "t < 2 ^ 32" for t
    using that by (simp add: m0_def p_def bytes.get_put) (simp add: less_2_cases_iff)?
  have "get_byte buf m' t = (if t < length (uitoa_text val radix) then uitoa_text val radix ! t
      else if t = length (uitoa_text val radix) then 0 else get_byte buf m t)" if "t < 2 ^ 32" for t
    unfolding get [OF that] two [OF that]
    by (cases "radix = 16") (simp_all add: uitoa_text_def nth_append nth_Cons' p_def numeral_2_eq_2)
  from string_written [OF this] run uitoa_text_nonzero [OF r] uitoa_text_length [OF r(1), of val]
  show ?thesis by fastforce
qed

lemma digits_leading: "2 \<le> r \<Longrightarrow> hd (digits r n) = 0 \<longrightarrow> digits r n = [0]"
proof (induction r n rule: digits.induct)
  case (1 r n)
  show ?case
  proof (cases "n < r")
    case True
    then show ?thesis by (subst (1 2) digits.simps) simp
  next
    case False
    then have eq: "digits r n = digits r (n div r) @ [n mod r]"
      using "1.prems" by (subst digits.simps) simp
    have "digits r (n div r) \<noteq> [0]"
    proof
      assume "digits r (n div r) = [0]"
      then have "n div r = 0" using value_of_digits [of r "n div r"] by (simp add: value_of_def)
      with False "1.prems" show False by (simp add: div_eq_0_iff)
    qed
    with 1 False show ?thesis by (simp add: eq)
  qed
qed

text \<open>An upward copy by one byte repeats the first byte.\<close>

lemma memmove_smear:
  assumes "i < n" "n < 2 ^ 31"
  shows "memmove m (src + 1) src n (src + 1 + i) = m src"
proof -
  have n: "unat n < 2 ^ 31" using assms(2) by (simp add: word_less_nat_alt)
  have "k \<le> unat n \<Longrightarrow> j < k \<Longrightarrow>
      fold (\<lambda>i m. put_byte (src + 1) m i (get_byte src m i)) [0..<k] m (src + 1 + of_nat j) = m src \<and>
      fold (\<lambda>i m. put_byte (src + 1) m i (get_byte src m i)) [0..<k] m src = m src" for k j
  proof (induction k arbitrary: j)
    case (Suc k)
    let ?m = "fold (\<lambda>i m. put_byte (src + 1) m i (get_byte src m i)) [0..<k] m"
    have small: "k < 2 ^ 31" using Suc.prems n by simp
    have src: "?m src = m src" using Suc.IH [of 0] Suc.prems by (cases k) auto
    have "get_byte src ?m k = m src"
    proof (cases k)
      case (Suc l)
      with Suc.IH [of l] Suc.prems show ?thesis by (simp add: get_byte_def read8_def algebra_simps)
    qed (simp add: get_byte_def read8_def src)
    moreover have "(src + 1 + of_nat j = src + 1 + of_nat k) = (j = k)"
      using Suc.prems small by (simp add: of_nat_eq32)
    moreover have "src + 1 + of_nat k \<noteq> src"
    proof
      assume "src + 1 + of_nat k = src"
      then have "(of_nat (Suc k) :: u32) = of_nat 0" by (simp add: algebra_simps)
      with small show False using of_nat_eq32 [of "Suc k" 0] by simp
    qed
    ultimately show ?case
      using Suc.IH [of j] Suc.prems src
      by (auto simp: put_byte_def [of "src + 1" ?m k] write8_def less_Suc_eq)
  qed simp
  from this [of "unat n" "unat i"] assms(1) show ?thesis
    by (simp add: memmove_def word_less_nat_alt)
qed

section \<open>Properties\<close>

text \<open>
  C26: \<^verbatim>\<open>uitoa\<close> returns for every value and every radix from 2 to 36, and leaves in
  the buffer a terminated string: after the prefix \<^verbatim>\<open>0x\<close> for radix 16, the digits of
  the value, most significant first, without leading zeros. Nothing behind the terminator and
  nothing before the buffer is written.
\<close>

theorem uitoa_correct:
  assumes "2 \<le> unat radix" "unat radix \<le> 36" "unat buf + 36 \<le> 2 ^ 32"
  shows "\<exists>m' ds. uitoa m val buf radix = Inr m' \<and>
    cstr m' (At buf) ((if radix = 16 then [0x30, 0x78] else []) @ map (\<lambda>d. digit_char (of_nat d)) ds) \<and>
    value_of (unat radix) ds = unat val \<and> (\<forall>d \<in> set ds. d < unat radix) \<and>
    ds \<noteq> [] \<and> (hd ds = 0 \<longrightarrow> ds = [0]) \<and> length ds \<le> 32 \<and>
    same_outside (span buf (of_nat (length ds + 3))) m m'"
proof -
  let ?ds = "digits (unat radix) (unat val)"
  obtain m' where m': "uitoa m val buf radix = Inr m'" "cstr m' (At buf) (uitoa_text val radix)"
    "same_outside (span buf (of_nat (Suc (length (uitoa_text val radix))))) m m'"
    using uitoa_cstr [OF assms] by blast
  have len: "length ?ds \<le> 32" using assms(1) unat32_bound [of val] by (rule length_digits32)
  have "span buf (of_nat (Suc (length (uitoa_text val radix)))) \<subseteq> span buf (of_nat (length ?ds + 3))"
    using len by (intro span_mono of_nat_le32 [THEN iffD2]) (auto simp: uitoa_text_def)
  with m' show ?thesis
    using len digits_less [OF assms(1)] digits_leading [OF assms(1)]
    by (intro exI [of _ m'] exI [of _ ?ds])
      (auto simp: uitoa_text_def value_of_digits intro: same_outside_mono)
qed

theorem uitoa_correct_witness:
  "\<exists>m' ds. uitoa (\<lambda>_. 0) 255 0x1000 16 = Inr m' \<and>
    cstr m' (At 0x1000) ([0x30, 0x78] @ map (\<lambda>d. digit_char (of_nat d)) ds) \<and> value_of 16 ds = 255"
  using uitoa_correct [where radix = 16 and buf = "0x1000" and m = "\<lambda>_. 0" and val = 255] by auto

text \<open>
  \<^verbatim>\<open>strcat\<close> returns and appends: the destination holds the concatenation of the
  two strings, terminated, and no byte behind it changes. The source must not overlap the
  result.
\<close>

theorem strcat_correct:
  assumes "cstr m (At dest) as" "cstr m src bs"
    and "ptr_apart (of_nat (length bs + 1)) src (of_nat (length as + length bs + 1)) dest"
    and "length as + length bs + 1 < 2 ^ 32"
  shows "\<exists>m'. strcat m dest src = Inr m' \<and> cstr m' (At dest) (as @ bs) \<and>
    same_outside (span dest (of_nat (length as + length bs + 1))) m m'"
  using strcat_cstr [of m dest as src bs] assms by simp

theorem strcat_correct_witness:
  "\<exists>m'. strcat (\<lambda>_. 0) 0x1000 (Lit ''ab'') = Inr m' \<and> cstr m' (At 0x1000) [0x61, 0x62]"
proof -
  have "cstr (\<lambda>_. 0) (At 0x1000) []" "cstr (\<lambda>_. 0) (Lit ''ab'') [0x61, 0x62]"
    by (simp_all add: cstr_def read8_def)
  from strcat_correct [OF this] show ?thesis by auto
qed

text \<open>
  C27: on terminated strings \<^verbatim>\<open>strcmp\<close> returns, with a result that is 0 exactly if
  the strings are equal, and otherwise the difference of the first bytes that differ
  (with 0 behind the end of the shorter string).
\<close>

theorem strcmp_correct:
  assumes "cstr m p xs" "cstr m q ys"
  shows "\<exists>d. strcmp m p q = Inr d \<and> (d = 0 \<longleftrightarrow> xs = ys) \<and>
    (\<forall>zs x xs' y ys'. xs @ [0] = zs @ x # xs' \<longrightarrow> ys @ [0] = zs @ y # ys' \<longrightarrow> x \<noteq> y \<longrightarrow>
       d = uint x - uint y)"
proof -
  have "compare_bytes xs ys = uint x - uint y"
    if "xs @ [0] = zs @ x # xs'" "ys @ [0] = zs @ y # ys'" "x \<noteq> y" "0 \<notin> set xs" "0 \<notin> set ys"
    for zs x xs' y ys' xs ys
    using that
  proof (induction zs arbitrary: xs ys)
    case Nil
    then show ?case by (cases xs; cases ys) auto
  next
    case (Cons z zs)
    then show ?case by (cases xs; cases ys) auto
  qed
  with strcmp_cstr [OF assms] compare_bytes_eq_0 [of xs ys] cstr_nonzero [OF assms(1)]
    cstr_nonzero [OF assms(2)]
  show ?thesis by blast
qed

theorem strcmp_correct_witness:
  "\<exists>d. strcmp (\<lambda>_. 0) (Lit ''ab'') (Lit ''ac'') = Inr d \<and> d \<noteq> 0"
proof -
  have "cstr (\<lambda>_. 0) (Lit ''ab'') [0x61, 0x62]" "cstr (\<lambda>_. 0) (Lit ''ac'') [0x61, 0x63]"
    by (simp_all add: cstr_def)
  from strcmp_correct [OF this] show ?thesis by auto
qed

text \<open>
  \<^verbatim>\<open>memmove\<close> copies upwards byte by byte. The destination receives the old
  contents of the source if the areas do not overlap or the destination lies before the
  source (as in the scrolling of the screen); if the destination starts one byte behind the
  source, the first byte is smeared over the whole destination.
\<close>

theorem memmove_overlap:
  "(dst = src \<or> n \<le> dst - src \<longrightarrow>
      memmove m dst src n x = (if x - dst < n then m (src + (x - dst)) else m x)) \<and>
   (0 < n \<longrightarrow> n < 2 ^ 31 \<longrightarrow> i < n \<longrightarrow> memmove m (src + 1) src n (src + 1 + i) = m src)"
  by (intro conjI impI memmove_read memmove_smear)

theorem memmove_overlap_witness:
  "memmove (\<lambda>a. ucast a) 0xB8000 0xB80A0 7840 0xB8000 = 0xA0 \<and>
   memmove (\<lambda>a. ucast a) 0x101 0x100 8 0x107 = 0"
  using memmove_overlap [where dst = "0xB8000" and src = "0xB80A0" and n = 7840 and
      m = "\<lambda>a. ucast a" and x = "0xB8000"]
    memmove_overlap [where src = "0x100" and n = 8 and m = "\<lambda>a. ucast a" and i = 6] by simp

end
