(* ===== verification/Machine.thy ===== *)
theory Machine
  imports CString
begin

text \<open>
  What every driver shares: the memory, the I/O ports and the interrupt flag
  (\<^verbatim>\<open>kernel/drivers/ports.h\<close>). The hardware behind the ports is not part of the source:
  the bytes it delivers are the field \<open>port_in\<close>, an arbitrary function from the number of
  the read (the kernel's first port read is number 0) and the port to the byte read. The
  bytes the kernel sends are the log \<open>port_out\<close>, oldest first.

  The states of the components extend this record; the operations here are polymorphic in
  the extension.
\<close>

record machine =
  mem :: memory
  port_out :: "(u16 \<times> u8) list"
  port_in :: "nat \<Rightarrow> u16 \<Rightarrow> u8"
  port_reads :: nat
  interrupts_on :: bool

text \<open>\<^verbatim>\<open>outb\<close> takes 16 bits of data and sends the low byte (register \<^verbatim>\<open>al\<close>).\<close>

definition outb :: "u16 \<Rightarrow> u16 \<Rightarrow> 'a machine_scheme \<Rightarrow> 'a machine_scheme" where
  "outb port data s = s\<lparr>port_out := port_out s @ [(port, ucast data)]\<rparr>"

definition inb :: "u16 \<Rightarrow> 'a machine_scheme \<Rightarrow> u8 \<times> 'a machine_scheme" where
  "inb port s = (port_in s (port_reads s) port, s\<lparr>port_reads := Suc (port_reads s)\<rparr>)"

definition cli :: "'a machine_scheme \<Rightarrow> 'a machine_scheme" where
  "cli s = s\<lparr>interrupts_on := False\<rparr>"

definition sti :: "'a machine_scheme \<Rightarrow> 'a machine_scheme" where
  "sti s = s\<lparr>interrupts_on := True\<rparr>"

lemma outb_simps [simp]:
  "mem (outb p d s) = mem s" "port_out (outb p d s) = port_out s @ [(p, ucast d)]"
  "port_reads (outb p d s) = port_reads s" "port_in (outb p d s) = port_in s"
  "interrupts_on (outb p d s) = interrupts_on s" "machine.more (outb p d s) = machine.more s"
  by (simp_all add: outb_def)

lemma inb_simps [simp]:
  "fst (inb p s) = port_in s (port_reads s) p" "mem (snd (inb p s)) = mem s"
  "port_out (snd (inb p s)) = port_out s" "port_in (snd (inb p s)) = port_in s"
  "port_reads (snd (inb p s)) = Suc (port_reads s)" "machine.more (snd (inb p s)) = machine.more s"
  by (simp_all add: inb_def)

text \<open>What the ports will deliver.\<close>

type_synonym inputs = "nat \<Rightarrow> u16 \<Rightarrow> u8"

definition inputs :: "'a machine_scheme \<Rightarrow> inputs" where
  "inputs s i p = port_in s (port_reads s + i) p"

text \<open>
  The registers that were selected in the real time clock: what was sent to its address port
  \<^verbatim>\<open>0x70\<close>, in order.
\<close>

definition clock_log :: "(u16 \<times> u8) list \<Rightarrow> u8 list" where
  "clock_log ps = List.map snd (List.filter (\<lambda>(p, v). p = 0x70) ps)"

lemma clock_log_simps [simp]:
  "clock_log [] = []" "clock_log ((p, v) # ps) = (if p = 0x70 then v # clock_log ps else clock_log ps)"
  "clock_log (ps @ qs) = clock_log ps @ clock_log qs"
  by (simp_all add: clock_log_def)

lemma clock_log_map [simp]:
  "clock_log (List.map (Pair 0x70) vs) = vs" "clock_log (replicate n (0x70, v)) = replicate n v"
  by (induction vs) (simp_all add: clock_log_def)

end
