(* ===== verification/Tty.thy ===== *)
theory Tty
  imports Machine
begin

text \<open>
  The VGA text console, \<^verbatim>\<open>kernel/drivers/tty.c\<close>. The frame buffer is the memory at
  \<open>0xB8000\<close>, two bytes per cell; the static variables \<^verbatim>\<open>fb_col\<close> and \<^verbatim>\<open>fb_row\<close>
  are the fields this record adds to the machine.

  After the operations come the abstract terminal (\<open>term\<close>: a grid of cells with a
  cursor) and the refinement: printing on the frame buffer is printing on the grid. The
  locale \<open>console\<close> is what clients use: one character at a time, an invariant, a frame.
\<close>

record tty = machine +
  fb_col :: u32
  fb_row :: u32

section \<open>Colours and constants\<close>

datatype color = BLACK | BLUE | GREEN | CYAN | RED | MAGENTA | BROWN | LIGHT_GREY | DARK_GREY
  | LIGHT_BLUE | LIGHT_GREEN | LIGHT_CYAN | LIGHT_RED | LIGHT_MAGENTA | LIGHT_BROWN | WHITE

primrec color_code :: "color \<Rightarrow> u8" where
  "color_code BLACK = 0"
| "color_code BLUE = 1"
| "color_code GREEN = 2"
| "color_code CYAN = 3"
| "color_code RED = 4"
| "color_code MAGENTA = 5"
| "color_code BROWN = 6"
| "color_code LIGHT_GREY = 7"
| "color_code DARK_GREY = 8"
| "color_code LIGHT_BLUE = 9"
| "color_code LIGHT_GREEN = 10"
| "color_code LIGHT_CYAN = 11"
| "color_code LIGHT_RED = 12"
| "color_code LIGHT_MAGENTA = 13"
| "color_code LIGHT_BROWN = 14"
| "color_code WHITE = 15"

abbreviation VIDEO_MEM_ADDR :: u32 where "VIDEO_MEM_ADDR \<equiv> 0x000B8000"
abbreviation VGA_WIDTH :: u32 where "VGA_WIDTH \<equiv> 80"
abbreviation VGA_HEIGHT :: u32 where "VGA_HEIGHT \<equiv> 25"
abbreviation VGA_CMD_PORT :: u16 where "VGA_CMD_PORT \<equiv> 0x3D4"
abbreviation VGA_DATA_PORT :: u16 where "VGA_DATA_PORT \<equiv> 0x3D5"
abbreviation VGA_HIGH_BYTE :: u16 where "VGA_HIGH_BYTE \<equiv> 14"
abbreviation VGA_LOW_BYTE :: u16 where "VGA_LOW_BYTE \<equiv> 15"

section \<open>The operations\<close>

definition cell_attr :: "color \<Rightarrow> color \<Rightarrow> u8" where
  "cell_attr fg bg = push_bit 4 (color_code bg AND 0x0F) OR (color_code fg AND 0x0F)"

text \<open>The index is an \<^verbatim>\<open>int16_t\<close>: it is sign-extended before it is doubled.\<close>

definition write_cell ::
    "u16 \<Rightarrow> u8 \<Rightarrow> color \<Rightarrow> color \<Rightarrow> 'a tty_scheme \<Rightarrow> 'a tty_scheme" where
  "write_cell i c fg bg s = (let at = VIDEO_MEM_ADDR + (scast i :: u32) * 2
     in s\<lparr>mem := write8 (write8 (mem s) at c) (at + 1) (cell_attr fg bg)\<rparr>)"

definition move_cursor :: "u16 \<Rightarrow> 'a tty_scheme \<Rightarrow> 'a tty_scheme" where
  "move_cursor pos s =
     outb VGA_DATA_PORT (pos AND 0x00FF) (outb VGA_CMD_PORT VGA_LOW_BYTE
       (outb VGA_DATA_PORT (drop_bit 8 pos AND 0x00FF) (outb VGA_CMD_PORT VGA_HIGH_BYTE s)))"

definition cursor_pos :: "'a tty_scheme \<Rightarrow> u16" where
  "cursor_pos s = ucast (fb_col s + fb_row s * VGA_WIDTH)"

definition clear_row :: "u8 \<Rightarrow> 'a tty_scheme \<Rightarrow> 'a tty_scheme" where
  "clear_row row s =
     fold (\<lambda>i. write_cell (ucast ((ucast row :: u32) * VGA_WIDTH + of_nat i)) 0x20 WHITE BLACK)
       [0..<80] s"

definition scroll :: "'a tty_scheme \<Rightarrow> 'a tty_scheme" where
  "scroll s = clear_row 24
     (s\<lparr>mem := memmove (mem s) VIDEO_MEM_ADDR (VIDEO_MEM_ADDR + 2 * VGA_WIDTH)
               (VGA_WIDTH * 2 * (VGA_HEIGHT * 2 - 1))\<rparr>)"

definition newline :: "'a tty_scheme \<Rightarrow> 'a tty_scheme" where
  "newline s = (let s1 = (if fb_row s < VGA_HEIGHT - 1 then s\<lparr>fb_row := fb_row s + 1\<rparr>
                          else scroll s);
                    s2 = s1\<lparr>fb_col := 1\<rparr>
                in move_cursor (cursor_pos s2) s2)"

definition cursor_adv :: "'a tty_scheme \<Rightarrow> 'a tty_scheme" where
  "cursor_adv s = (let s1 = (if fb_col s < VGA_WIDTH - 1 then s\<lparr>fb_col := fb_col s + 1\<rparr>
                             else newline s)
                   in move_cursor (cursor_pos s1) s1)"

definition cursor_prev :: "'a tty_scheme \<Rightarrow> 'a tty_scheme" where
  "cursor_prev s =
     (if fb_col s = 0 then
        (if fb_row s = 0 then s
         else let s1 = s\<lparr>fb_col := VGA_WIDTH - 1, fb_row := fb_row s - 1\<rparr>
              in move_cursor (cursor_pos s1) s1)
      else let s1 = s\<lparr>fb_col := fb_col s - 1\<rparr> in move_cursor (cursor_pos s1) s1)"

definition backspace :: "'a tty_scheme \<Rightarrow> 'a tty_scheme" where
  "backspace s = (let s1 = s\<lparr>fb_col := fb_col s - 1\<rparr>
     in write_cell (cursor_pos s1) 0x20 WHITE BLACK s1)"

definition tab :: "'a tty_scheme \<Rightarrow> 'a tty_scheme" where
  "tab s = fold (\<lambda>i. cursor_adv) [0..<4] s"

text \<open>The body of the loop of \<^verbatim>\<open>kprint_c\<close>.\<close>

definition put_char :: "color \<Rightarrow> color \<Rightarrow> u8 \<Rightarrow> 'a tty_scheme \<Rightarrow> 'a tty_scheme" where
  "put_char fg bg c s =
     (if c = 0x0A \<or> c = 0x0D then newline s
      else if c = 0x09 then tab s
      else cursor_adv (write_cell (cursor_pos s) c fg bg s))"

definition kprint_c :: "ptr \<Rightarrow> u32 \<Rightarrow> color \<Rightarrow> color \<Rightarrow> 'a tty_scheme \<Rightarrow> 'a tty_scheme" where
  "kprint_c buf len fg bg s =
     fold (\<lambda>i s. put_char fg bg (byte_at (mem s) buf (of_nat i)) s) [0..<unat len] s"

definition kprint :: "ptr \<Rightarrow> 'a tty_scheme \<Rightarrow> kerror + 'a tty_scheme" where
  "kprint buf s = bindE (strlen (mem s) buf) (\<lambda>n. Inr (kprint_c buf n WHITE BLACK s))"

text \<open>
  \<^verbatim>\<open>kprint_dec\<close> collects the digits of an \<^verbatim>\<open>int32_t\<close> in one local array and reverses
  them into another. For 0 the source prints the string at address \<^verbatim>\<open>'0'\<close>, which is
  \<open>0x30\<close>, and not the string \<^verbatim>\<open>"0"\<close>.
\<close>

function dec_loop :: "int \<Rightarrow> string \<Rightarrow> string" where
  "dec_loop acc c =
     (if acc > 0 then dec_loop (acc div 10) (c @ [char_of (48 + nat (acc mod 10))]) else c)"
  by pat_completeness auto
termination
  by (relation "measure (\<lambda>(acc, c). nat acc)") auto

declare dec_loop.simps [simp del]

definition kprint_dec :: "u32 \<Rightarrow> 'a tty_scheme \<Rightarrow> kerror + 'a tty_scheme" where
  "kprint_dec num s =
     (if num = 0 then bindE (strlen (mem s) (At 0x30))
        (\<lambda>n. Inr (kprint_c (At 0x30) n WHITE BLACK s))
      else kprint (Lit (rev (dec_loop (sint num) []))) s)"

text \<open>
  The user and the host name are the build flags of \<^verbatim>\<open>kernel/drivers/Makefile\<close>, which
  \<^verbatim>\<open>init_prompt\<close> copies into local buffers.
\<close>

abbreviation DEFAULT_USER :: string where "DEFAULT_USER \<equiv> ''root''"
abbreviation DEFAULT_HOSTNAME :: string where "DEFAULT_HOSTNAME \<equiv> ''vulcan''"

definition init_prompt :: "'a tty_scheme \<Rightarrow> 'a tty_scheme" where
  "init_prompt s =
     kprint_c (Lit '' #> '') 4 LIGHT_BLUE BLACK
       (kprint_c (Lit DEFAULT_HOSTNAME) (of_nat (length DEFAULT_HOSTNAME)) LIGHT_MAGENTA BLACK
         (kprint_c (Lit ''@'') 1 LIGHT_RED BLACK
           (kprint_c (Lit DEFAULT_USER) (of_nat (length DEFAULT_USER)) LIGHT_CYAN BLACK
             (newline s))))"

definition clear_prompt :: "'a tty_scheme \<Rightarrow> 'a tty_scheme" where
  "clear_prompt s = move_cursor 0
     (fold (\<lambda>i. write_cell (of_nat i) 0x20 WHITE BLACK) [0..<80 * 25] (s\<lparr>fb_col := 1, fb_row := 0\<rparr>))"

section \<open>The abstract terminal\<close>

text \<open>
  A terminal is a grid of cells (character and attribute, 25 rows of 80) with a cursor.
  Outside the grid the cells are a fixed value, so that equal terminals are equal records.
\<close>

record "term" =
  cells :: "nat \<Rightarrow> nat \<Rightarrow> u8 \<times> u8"
  col :: nat
  row :: nat

definition in_grid :: "nat \<Rightarrow> nat \<Rightarrow> bool" where
  "in_grid r c \<longleftrightarrow> r < 25 \<and> c < 80"

definition blank :: "u8 \<times> u8" where
  "blank = (0x20, cell_attr WHITE BLACK)"

definition set_cell :: "nat \<Rightarrow> nat \<Rightarrow> u8 \<times> u8 \<Rightarrow> term \<Rightarrow> term" where
  "set_cell r c v t = t\<lparr>cells := (cells t)(r := (cells t r)(c := v))\<rparr>"

definition term_scroll :: "term \<Rightarrow> term" where
  "term_scroll t = t\<lparr>cells := (\<lambda>r c. if r < 24 \<and> c < 80 then cells t (Suc r) c
     else if r = 24 \<and> c < 80 then blank else cells t r c)\<rparr>"

definition term_newline :: "term \<Rightarrow> term" where
  "term_newline t =
     (if row t < 24 then t\<lparr>row := Suc (row t)\<rparr> else term_scroll t)\<lparr>col := 1\<rparr>"

definition term_adv :: "term \<Rightarrow> term" where
  "term_adv t = (if col t < 79 then t\<lparr>col := Suc (col t)\<rparr> else term_newline t)"

definition term_put :: "color \<times> color \<times> u8 \<Rightarrow> term \<Rightarrow> term" where
  "term_put = (\<lambda>(fg, bg, c) t.
     if c = 0x0A \<or> c = 0x0D then term_newline t
     else if c = 0x09 then (term_adv ^^ 4) t
     else term_adv (set_cell (row t) (col t) (c, cell_attr fg bg) t))"

text \<open>The terminal that a state of the driver stands for.\<close>

definition cell_at :: "memory \<Rightarrow> nat \<Rightarrow> u8 \<times> u8" where
  "cell_at m p = (get_byte VIDEO_MEM_ADDR m (2 * p), get_byte VIDEO_MEM_ADDR m (2 * p + 1))"

definition screen :: "'a tty_scheme \<Rightarrow> term" where
  "screen s = \<lparr>cells = (\<lambda>r c. if in_grid r c then cell_at (mem s) (80 * r + c) else (0, 0)),
     col = unat (fb_col s), row = unat (fb_row s)\<rparr>"

definition tty_ok :: "'a tty_scheme \<Rightarrow> bool" where
  "tty_ok s \<longleftrightarrow> fb_col s < VGA_WIDTH \<and> fb_row s < VGA_HEIGHT"

text \<open>The memory the driver may write while its cursor is on the screen.\<close>

abbreviation vga :: "u32 set" where
  "vga \<equiv> span VIDEO_MEM_ADDR 7840"

definition tty_frame :: "'a tty_scheme \<Rightarrow> 'a tty_scheme \<Rightarrow> bool" where
  "tty_frame s s' \<longleftrightarrow> same_outside vga (mem s) (mem s') \<and> port_in s' = port_in s \<and>
     clock_log (port_out s') = clock_log (port_out s) \<and>
     port_reads s' = port_reads s \<and> interrupts_on s' = interrupts_on s \<and>
     tty.more s' = tty.more s"

lemma tty_frame_refl [simp, intro]: "tty_frame s s"
  by (simp add: tty_frame_def)

lemma tty_frame_trans [trans]: "tty_frame s s' \<Longrightarrow> tty_frame s' s'' \<Longrightarrow> tty_frame s s''"
  by (auto simp: tty_frame_def intro: same_outside_trans)

section \<open>Writing cells\<close>

lemma move_cursor_simps [simp]:
  "mem (move_cursor p s) = mem s" "fb_col (move_cursor p s) = fb_col s"
  "fb_row (move_cursor p s) = fb_row s" "tty_ok (move_cursor p s) = tty_ok s"
  "screen (move_cursor p s) = screen s" "tty_frame t (move_cursor p s) = tty_frame t s"
  by (simp_all add: move_cursor_def outb_def tty_ok_def screen_def tty_frame_def cong: if_cong)

lemma write_cell_of_nat:
  assumes "p < 2 ^ 15"
  shows "write_cell (of_nat p) c fg bg s = s\<lparr>mem := put_byte VIDEO_MEM_ADDR
    (put_byte VIDEO_MEM_ADDR (mem s) (2 * p) c) (2 * p + 1) (cell_attr fg bg)\<rparr>"
proof -
  have "sint (of_nat p :: u16) = int p"
    using assms by (simp add: sint_uint signed_take_bit_int_eq_self take_bit_int_eq_self
        unsigned_of_nat take_bit_nat_eq_self)
  then have "(scast (of_nat p :: u16) :: u32) = of_nat p"
    by (metis of_int_of_nat_eq of_int_sint)
  then show ?thesis
    by (simp add: write_cell_def put_byte_def algebra_simps)
qed

lemma write_cell_fields [simp]:
  "fb_col (write_cell i c fg bg s) = fb_col s" "fb_row (write_cell i c fg bg s) = fb_row s"
  "tty_ok (write_cell i c fg bg s) = tty_ok s"
  by (simp_all add: write_cell_def Let_def tty_ok_def)

lemma cell_at_write_cell:
  "p < 2 ^ 15 \<Longrightarrow> q < 2 ^ 15 \<Longrightarrow> cell_at (mem (write_cell (of_nat p) c fg bg s)) q =
     (if q = p then (c, cell_attr fg bg) else cell_at (mem s) q)"
  by (auto simp: write_cell_of_nat cell_at_def bytes.get_put)

lemma write_cell_frame:
  assumes "p < 2000"
  shows "tty_frame s (write_cell (of_nat p) c fg bg s)"
proof -
  have "VIDEO_MEM_ADDR + of_nat (2 * p) \<in> span VIDEO_MEM_ADDR (of_nat 7840)"
    "VIDEO_MEM_ADDR + of_nat (2 * p + 1) \<in> span VIDEO_MEM_ADDR (of_nat 7840)"
    using assms by (intro in_span_of_nat; simp)+
  then have "same_outside vga (mem s) (put_byte VIDEO_MEM_ADDR
    (put_byte VIDEO_MEM_ADDR (mem s) (2 * p) c) (2 * p + 1) (cell_attr fg bg))"
    by (intro same_outside_trans [OF put_byte_same_outside put_byte_same_outside]) simp_all
  with assms show ?thesis by (simp add: write_cell_of_nat tty_frame_def)
qed

lemma cursor_pos_of_nat:
  assumes "tty_ok s"
  shows "cursor_pos s = of_nat (80 * unat (fb_row s) + unat (fb_col s))"
    and "80 * unat (fb_row s) + unat (fb_col s) < 2000"
proof -
  have bounds: "unat (fb_col s) < 80" "unat (fb_row s) < 25"
    using assms by (simp_all add: tty_ok_def word_less_nat_alt)
  then show "80 * unat (fb_row s) + unat (fb_col s) < 2000" by simp
  from bounds have "fb_col s + fb_row s * VGA_WIDTH =
      of_nat (80 * unat (fb_row s) + unat (fb_col s))"
    by (simp add: mult.commute add.commute)
  then show "cursor_pos s = of_nat (80 * unat (fb_row s) + unat (fb_col s))"
    unfolding cursor_pos_def by (simp only: ucast_u32_u16)
qed

section \<open>Refinement\<close>

lemma grid_eq:
  assumes "c < 80" "c' < 80"
  shows "80 * r' + c' = 80 * r + c \<longleftrightarrow> r' = r \<and> c' = (c :: nat)"
proof -
  have "(80 * r' + c') div 80 = r'" "(80 * r + c) div 80 = r"
    "(80 * r' + c') mod 80 = c'" "(80 * r + c) mod 80 = c" using assms by simp_all
  then show ?thesis by metis
qed

lemma screen_write_cell:
  assumes "in_grid r c"
  shows "screen (write_cell (of_nat (80 * r + c)) ch fg bg s) =
    set_cell r c (ch, cell_attr fg bg) (screen s)"
proof -
  have "80 * r + c < 2 ^ 15" using assms by (simp add: in_grid_def)
  moreover have "80 * r' + c' < 2 ^ 15 \<and> (80 * r' + c' = 80 * r + c \<longleftrightarrow> r' = r \<and> c' = c)"
    if "in_grid r' c'" for r' c'
    using assms that by (simp add: in_grid_def grid_eq)
  ultimately show ?thesis
    using assms by (auto simp: screen_def set_cell_def fun_eq_iff cell_at_write_cell
        simp del: of_nat_add of_nat_mult)
qed

lemma clear_row_cells:
  "k \<le> 80 \<Longrightarrow> q < 2000 \<Longrightarrow>
   cell_at (mem (fold (\<lambda>i. write_cell (ucast (24 * VGA_WIDTH + of_nat i)) 0x20 WHITE BLACK)
     [0..<k] s)) q = (if 1920 \<le> q \<and> q < 1920 + k then blank else cell_at (mem s) q)"
proof (induction k)
  case (Suc k)
  have "(24 * VGA_WIDTH + of_nat k :: u32) = of_nat (1920 + k)" by simp
  then have "(ucast (24 * VGA_WIDTH + of_nat k :: u32) :: u16) = of_nat (1920 + k)"
    by (simp only: ucast_u32_u16)
  with Suc show ?case by (auto simp: cell_at_write_cell blank_def simp del: of_nat_add)
qed auto

lemma clear_row_fields [simp]:
  "fb_col (clear_row r s) = fb_col s" "fb_row (clear_row r s) = fb_row s"
proof -
  have "fb_col (fold (\<lambda>i. write_cell (f i) c fg bg) is s) = fb_col s \<and>
      fb_row (fold (\<lambda>i. write_cell (f i) c fg bg) is s) = fb_row s"
    for f c fg bg and "is" :: "nat list"
    by (induction "is" arbitrary: s) simp_all
  then show "fb_col (clear_row r s) = fb_col s" "fb_row (clear_row r s) = fb_row s"
    by (simp_all add: clear_row_def)
qed

lemma scroll_fields [simp]:
  "fb_col (scroll s) = fb_col s" "fb_row (scroll s) = fb_row s" "tty_ok (scroll s) = tty_ok s"
  by (simp_all add: scroll_def tty_ok_def)

lemma scroll_cells:
  assumes "q < 2000"
  shows "cell_at (mem (scroll s)) q = (if q < 1920 then cell_at (mem s) (q + 80) else blank)"
proof -
  let ?m = "memmove (mem s) VIDEO_MEM_ADDR (VIDEO_MEM_ADDR + 2 * VGA_WIDTH)
               (VGA_WIDTH * 2 * (VGA_HEIGHT * 2 - 1))"
  have "get_byte VIDEO_MEM_ADDR ?m t = get_byte VIDEO_MEM_ADDR (mem s) (t + 160)" if "t < 4000" for t
  proof -
    have "?m x = (if x - VIDEO_MEM_ADDR < 7840 then mem s (0xB80A0 + (x - VIDEO_MEM_ADDR)) else mem s x)"
      for x by (subst memmove_read) simp_all
    moreover have "(of_nat t :: u32) < 7840" using that by (simp add: word_less_nat_alt)
    ultimately show ?thesis by (simp add: get_byte_def read8_def add.commute)
  qed
  then have "cell_at ?m q = cell_at (mem s) (q + 80)"
    using assms by (simp add: cell_at_def add.commute)
  then show ?thesis
    using assms clear_row_cells [of 80 q "s\<lparr>mem := ?m\<rparr>"]
    by (auto simp: scroll_def clear_row_def)
qed

lemma screen_scroll: "screen (scroll s) = term_scroll (screen s)"
  by (auto simp: screen_def term_scroll_def fun_eq_iff in_grid_def scroll_cells algebra_simps)

lemma fold_frame:
  "(\<And>i s. i \<in> set is \<Longrightarrow> tty_frame s (f i s)) \<Longrightarrow> tty_frame s (fold f is s)"
  by (induction "is" arbitrary: s) (auto intro: tty_frame_trans)

lemma clear_row_frame: "tty_frame s (clear_row 24 s)"
  unfolding clear_row_def
proof (rule fold_frame)
  fix i and s :: "'a tty_scheme" assume "i \<in> set [0..<80 :: nat]"
  then have "tty_frame s (write_cell (of_nat (1920 + i)) 0x20 WHITE BLACK s)"
    by (intro write_cell_frame) simp
  moreover have "(ucast (1920 + of_nat i :: u32) :: u16) = of_nat (1920 + i)"
    using ucast_u32_u16 [of "1920 + i"] by simp
  ultimately show "tty_frame s (write_cell (ucast (ucast (24 :: u8) * VGA_WIDTH + of_nat i :: u32))
      0x20 WHITE BLACK s)" by simp
qed

lemma scroll_frame: "tty_frame s (scroll s)"
proof -
  have "tty_frame s (s\<lparr>mem := memmove (mem s) VIDEO_MEM_ADDR (VIDEO_MEM_ADDR + 2 * VGA_WIDTH)
      (VGA_WIDTH * 2 * (VGA_HEIGHT * 2 - 1))\<rparr>)"
    using memmove_same_outside [of VIDEO_MEM_ADDR 7840 "mem s"] by (simp add: tty_frame_def)
  then show ?thesis unfolding scroll_def using clear_row_frame by (rule tty_frame_trans)
qed

lemma tty_ok_bounds: "tty_ok s \<longleftrightarrow> unat (fb_col s) < 80 \<and> unat (fb_row s) < 25"
  by (simp add: tty_ok_def word_less_nat_alt)

lemma screen_set_col: "screen (s\<lparr>fb_col := x\<rparr>) = (screen s)\<lparr>col := unat x\<rparr>"
  and screen_set_row: "screen (s\<lparr>fb_row := x\<rparr>) = (screen s)\<lparr>row := unat x\<rparr>"
  by (simp_all add: screen_def cong: if_cong)

lemma screen_sel [simp]: "col (screen s) = unat (fb_col s)" "row (screen s) = unat (fb_row s)"
  by (simp_all add: screen_def)

lemma newline_refines:
  assumes "tty_ok s"
  shows "tty_ok (newline s)" and "screen (newline s) = term_newline (screen s)"
    and "tty_frame s (newline s)"
proof -
  have row: "unat (fb_row s + 1) = Suc (unat (fb_row s))"
    using assms by (intro unat_less_Suc [of _ VGA_HEIGHT]) (simp add: tty_ok_def)
  show "tty_ok (newline s)"
    using assms row by (auto simp: newline_def tty_ok_bounds Let_def word_less_nat_alt)
  show "screen (newline s) = term_newline (screen s)"
    using row by (simp add: newline_def term_newline_def Let_def screen_set_col screen_set_row
        screen_scroll word_less_nat_alt)
  have "tty_frame s (scroll s)" by (rule scroll_frame)
  then show "tty_frame s (newline s)"
    by (simp add: newline_def Let_def) (simp add: tty_frame_def)
qed

lemma cursor_adv_refines:
  assumes "tty_ok s"
  shows "tty_ok (cursor_adv s)" and "screen (cursor_adv s) = term_adv (screen s)"
    and "tty_frame s (cursor_adv s)"
proof -
  have col: "unat (fb_col s + 1) = Suc (unat (fb_col s))"
    using assms by (intro unat_less_Suc [of _ VGA_WIDTH]) (simp add: tty_ok_def)
  note nl = newline_refines [OF assms]
  show "tty_ok (cursor_adv s)"
    using assms col nl(1) by (auto simp: cursor_adv_def tty_ok_bounds Let_def word_less_nat_alt)
  show "screen (cursor_adv s) = term_adv (screen s)"
    using col nl(2) by (simp add: cursor_adv_def term_adv_def Let_def screen_set_col word_less_nat_alt)
  show "tty_frame s (cursor_adv s)"
    using nl(3) by (simp add: cursor_adv_def Let_def) (simp add: tty_frame_def)
qed

lemma tab_eq: "tab s = cursor_adv (cursor_adv (cursor_adv (cursor_adv s)))"
  by (simp add: tab_def upt_rec)

lemma put_char_refines:
  assumes ok: "tty_ok s"
  shows "tty_ok (put_char fg bg c s)"
    and "screen (put_char fg bg c s) = term_put (fg, bg, c) (screen s)"
    and "tty_frame s (put_char fg bg c s)"
proof -
  let ?w = "write_cell (cursor_pos s) c fg bg s"
  note pos = cursor_pos_of_nat [OF ok]
  have "in_grid (unat (fb_row s)) (unat (fb_col s))"
    using ok by (simp add: tty_ok_bounds in_grid_def)
  then have w: "tty_ok ?w"
    "screen ?w = set_cell (unat (fb_row s)) (unat (fb_col s)) (c, cell_attr fg bg) (screen s)"
    "tty_frame s ?w"
    using ok pos by (simp_all add: screen_write_cell write_cell_frame del: of_nat_add of_nat_mult)
  note adv = cursor_adv_refines
  note step = adv(1) [OF ok] adv(1) [OF adv(1) [OF ok]] adv(1) [OF adv(1) [OF adv(1) [OF ok]]]
  show "tty_ok (put_char fg bg c s)"
    using ok w(1) step by (simp add: put_char_def newline_refines tab_eq adv)
  show "screen (put_char fg bg c s) = term_put (fg, bg, c) (screen s)"
    using ok w(1,2) step
    by (simp add: put_char_def term_put_def newline_refines tab_eq adv numeral_eq_Suc)
  have "tty_frame s (tab s)"
    unfolding tab_eq using ok step by (meson adv(3) tty_frame_trans)
  moreover have "tty_frame s (cursor_adv ?w)" using w adv(3) tty_frame_trans by blast
  ultimately show "tty_frame s (put_char fg bg c s)"
    using newline_refines(3) [OF ok] by (simp add: put_char_def)
qed

section \<open>The console as an interface\<close>

text \<open>
  A console takes items one at a time; it keeps its invariant and stays in its frame. What
  follows for any sequence of items is proved here once.
\<close>

locale console =
  fixes emit :: "'c \<Rightarrow> 's \<Rightarrow> 's" and ok :: "'s \<Rightarrow> bool" and keeps :: "'s \<Rightarrow> 's \<Rightarrow> bool"
  assumes ok_emit: "ok s \<Longrightarrow> ok (emit c s)"
    and keeps_emit: "ok s \<Longrightarrow> keeps s (emit c s)"
    and keeps_refl: "keeps s s"
    and keeps_trans: "keeps s t \<Longrightarrow> keeps t u \<Longrightarrow> keeps s u"
begin

lemma ok_emits: "ok s \<Longrightarrow> ok (fold emit cs s)"
  by (induction cs arbitrary: s) (simp_all add: ok_emit)

lemma keeps_emits: "ok s \<Longrightarrow> keeps s (fold emit cs s)"
  by (induction cs arbitrary: s) (auto intro: keeps_refl keeps_trans keeps_emit ok_emit)

end

text \<open>A console with a view: an abstract display on which each item has its effect.\<close>

locale console_view = console +
  fixes view :: "'s \<Rightarrow> 'v" and put :: "'c \<Rightarrow> 'v \<Rightarrow> 'v"
  assumes view_emit: "ok s \<Longrightarrow> view (emit c s) = put c (view s)"
begin

lemma view_emits: "ok s \<Longrightarrow> view (fold emit cs s) = fold put cs (view s)"
  by (induction cs arbitrary: s) (simp_all add: view_emit ok_emit)

end

definition emit :: "color \<times> color \<times> u8 \<Rightarrow> 'a tty_scheme \<Rightarrow> 'a tty_scheme" where
  "emit = (\<lambda>(fg, bg, c). put_char fg bg c)"

interpretation vga: console_view emit tty_ok tty_frame screen term_put
  by unfold_locales
    (auto simp: emit_def put_char_refines split: prod.splits intro: tty_frame_trans)

text \<open>The bytes a call of \<^verbatim>\<open>kprint_c\<close> sends, when they are not on the screen themselves.\<close>

definition items :: "color \<Rightarrow> color \<Rightarrow> u8 list \<Rightarrow> (color \<times> color \<times> u8) list" where
  "items fg bg = map (\<lambda>c. (fg, bg, c))"

abbreviation off_screen :: "u32 \<Rightarrow> ptr \<Rightarrow> bool" where
  "off_screen n p \<equiv> ptr_apart n p 7840 VIDEO_MEM_ADDR"

definition bytes_at :: "memory \<Rightarrow> ptr \<Rightarrow> nat \<Rightarrow> u8 list" where
  "bytes_at m p n = map (\<lambda>i. byte_at m p (of_nat i)) [0..<n]"

lemma kprint_c_emits:
  assumes ok: "tty_ok s" and off: "off_screen n p"
  shows "kprint_c p n fg bg s = fold emit (items fg bg (bytes_at (mem s) p (unat n))) s"
proof -
  have "k \<le> unat n \<Longrightarrow> fold (\<lambda>i s. put_char fg bg (byte_at (mem s) p (of_nat i)) s) [0..<k] s =
      fold emit (items fg bg (bytes_at (mem s) p k)) s" for k
  proof (induction k)
    case (Suc k)
    let ?s = "fold emit (items fg bg (bytes_at (mem s) p k)) s"
    have "same_outside vga (mem s) (mem ?s)"
      using vga.keeps_emits [OF ok] by (simp add: tty_frame_def)
    with off have "byte_at (mem ?s) p (of_nat k) = byte_at (mem s) p (of_nat k)"
      using Suc.prems unat32_bound [of n] by (intro ptr_apart_byte_at) (auto simp: word_less_nat_alt)
    with Suc show ?case by (simp add: emit_def items_def bytes_at_def)
  qed (simp add: items_def bytes_at_def)
  then show ?thesis by (simp add: kprint_c_def)
qed

lemma kprint_c_ok:
  assumes "tty_ok s"
  shows "tty_ok (kprint_c p n fg bg s)" and "tty_frame s (kprint_c p n fg bg s)"
proof -
  have "tty_ok s' \<Longrightarrow> tty_frame s s' \<Longrightarrow>
      tty_ok (fold (\<lambda>i s. put_char fg bg (byte_at (mem s) p (of_nat i)) s) is s') \<and>
      tty_frame s (fold (\<lambda>i s. put_char fg bg (byte_at (mem s) p (of_nat i)) s) is s')"
    for "is" :: "nat list" and s'
  proof (induction "is" arbitrary: s')
    case (Cons i "is")
    let ?s = "put_char fg bg (byte_at (mem s') p (of_nat i)) s'"
    have "tty_ok ?s" "tty_frame s ?s"
      using Cons.prems put_char_refines tty_frame_trans by blast+
    from Cons.IH [OF this] show ?case by simp
  qed simp
  with assms show "tty_ok (kprint_c p n fg bg s)" "tty_frame s (kprint_c p n fg bg s)"
    by (auto simp: kprint_c_def)
qed

lemma bytes_at_cstr: "cstr m p bs \<Longrightarrow> bytes_at m p (length bs) = bs"
  by (intro nth_equalityI) (simp_all add: bytes_at_def cstr_nth)

definition lit_bytes :: "string \<Rightarrow> u8 list" where
  "lit_bytes = map of_char"

definition proper_lit :: "string \<Rightarrow> bool" where
  "proper_lit cs \<longleftrightarrow> CHR 0x00 \<notin> set cs \<and> length cs < 2 ^ 32"

lemma bytes_at_Lit: "n \<le> length cs \<Longrightarrow> n < 2 ^ 32 \<Longrightarrow> bytes_at m (Lit cs) n = lit_bytes (take n cs)"
  by (intro nth_equalityI) (simp_all add: bytes_at_def lit_bytes_def)

lemma unat_of_char: "unat (of_char c :: u8) = of_char c"
proof -
  have "unat (of_nat (of_char c) :: u8) = of_char c mod 256"
    by (simp add: unat_of_nat)
  then show ?thesis by (simp only: of_nat_of_char of_char_mod_256)
qed

lemma of_char_eq: "(of_char c :: u8) = of_char d \<longleftrightarrow> c = d"
  by (simp add: word_unat_eq_iff unat_of_char)

lemma of_char_zero: "(of_char c :: u8) = 0 \<longleftrightarrow> c = CHR 0x00"
  using of_char_eq [of c "CHR 0x00"] by simp

lemma cstr_Lit: "proper_lit cs \<Longrightarrow> cstr m (Lit cs) (lit_bytes cs)"
  by (intro cstrI) (auto simp: proper_lit_def lit_bytes_def of_char_zero)

lemma kprint_emits:
  "tty_ok s \<Longrightarrow> cstr (mem s) p bs \<Longrightarrow> off_screen (of_nat (length bs)) p \<Longrightarrow>
   kprint p s = Inr (fold emit (items WHITE BLACK bs) s)"
  using kprint_c_emits [of s "of_nat (length bs)" p] bytes_at_cstr [of "mem s" p bs]
    cstr_length [of "mem s" p bs]
  by (simp add: kprint_def strlen_cstr unat_of_nat32)

text \<open>Printing a literal sends its characters.\<close>

lemma kprint_Lit:
  assumes "proper_lit cs" "tty_ok s"
  shows "kprint (Lit cs) s = Inr (fold emit (items WHITE BLACK (lit_bytes cs)) s)"
proof -
  note c = cstr_Lit [OF assms(1), of "mem s"]
  have len: "length (lit_bytes cs) < 2 ^ 32" using cstr_length [OF c] .
  show ?thesis
    using kprint_c_emits [OF assms(2), of "of_nat (length (lit_bytes cs))" "Lit cs"]
      bytes_at_cstr [OF c] len
    by (simp add: kprint_def strlen_cstr [OF c])
qed

lemma kprint_c_Lit:
  assumes "tty_ok s" "n = of_nat (length cs)" "length cs < 2 ^ 32"
  shows "kprint_c (Lit cs) n fg bg s = fold emit (items fg bg (lit_bytes cs)) s"
  using kprint_c_emits [OF assms(1), of n "Lit cs"] assms by (simp add: bytes_at_Lit)

section \<open>The other operations\<close>

lemma init_prompt_ok: "tty_ok s \<Longrightarrow> tty_ok (init_prompt s) \<and> tty_frame s (init_prompt s)"
  unfolding init_prompt_def
  by (meson newline_refines kprint_c_ok tty_frame_trans)

text \<open>What the prompt puts on the terminal.\<close>

definition prompt_items :: "(color \<times> color \<times> u8) list" where
  "prompt_items = (WHITE, BLACK, 0x0A) # items LIGHT_CYAN BLACK (lit_bytes DEFAULT_USER) @
     items LIGHT_RED BLACK (lit_bytes ''@'') @
     items LIGHT_MAGENTA BLACK (lit_bytes DEFAULT_HOSTNAME) @
     items LIGHT_BLUE BLACK (lit_bytes '' #> '')"

lemma init_prompt_emits: "tty_ok s \<Longrightarrow> init_prompt s = fold emit prompt_items s"
proof -
  assume ok: "tty_ok s"
  have nl: "newline s = emit (WHITE, BLACK, 0x0A) s" by (simp add: emit_def put_char_def)
  show ?thesis
    unfolding init_prompt_def prompt_items_def nl
    using ok by (simp add: kprint_c_Lit vga.ok_emit vga.ok_emits)
qed

section \<open>Properties\<close>

text \<open>
  C11: printing a terminated string that is not itself in the frame buffer returns; the
  cursor stays on the screen, the terminal that the driver's state stands for changes exactly
  as the abstract terminal does when it is sent the bytes of the string one by one (line
  feeds, tabs, the wrap at column 79 and scrolling included), and no memory outside the frame
  buffer changes.
\<close>

theorem kprint_refines:
  assumes "tty_ok s" "cstr (mem s) p bs" "off_screen (of_nat (length bs)) p"
  shows "\<exists>s'. kprint p s = Inr s' \<and> tty_ok s' \<and>
    screen s' = fold term_put (map (\<lambda>b. (WHITE, BLACK, b)) bs) (screen s) \<and>
    same_outside vga (mem s) (mem s')"
  using kprint_emits [OF assms] vga.ok_emits [OF assms(1)] vga.keeps_emits [OF assms(1)] vga.view_emits [OF assms(1)]
  by (auto simp: items_def tty_frame_def)

definition power_on :: tty where
  "power_on = \<lparr>mem = (\<lambda>_. 0), port_out = [], port_in = (\<lambda>n p. 0), port_reads = 0,
     interrupts_on = False, fb_col = 0, fb_row = 0\<rparr>"

theorem kprint_refines_witness:
  "\<exists>s'. kprint (Lit ''a'') power_on = Inr s' \<and> tty_ok s' \<and>
    screen s' = term_put (WHITE, BLACK, 0x61) (screen power_on)"
proof -
  have "tty_ok power_on" "cstr (mem power_on) (Lit ''a'') [0x61]"
    by (simp_all add: tty_ok_def power_on_def cstr_def)
  from kprint_refines [OF this] show ?thesis by auto
qed

text \<open>
  scrolling, on the frame buffer: every row receives the cells of the row below it, the
  last row becomes blank, the cursor does not move, and nothing outside the frame buffer
  changes.
\<close>

theorem scroll_correct:
  "screen (scroll s) = (screen s)\<lparr>cells := \<lambda>r c.
     if r < 24 \<and> c < 80 then cells (screen s) (r + 1) c
     else if r = 24 \<and> c < 80 then (0x20, 0x0F) else (0, 0)\<rparr> \<and>
   same_outside vga (mem s) (mem (scroll s))"
proof -
  have "blank = (0x20, 0x0F)" by (simp add: blank_def cell_attr_def)
  moreover have "cells (screen s) r c = (0, 0)" if "\<not> (r < 25 \<and> c < 80)" for r c
    using that by (auto simp: screen_def in_grid_def)
  ultimately have "term_scroll (screen s) = (screen s)\<lparr>cells := \<lambda>r c.
     if r < 24 \<and> c < 80 then cells (screen s) (r + 1) c
     else if r = 24 \<and> c < 80 then (0x20, 0x0F) else (0, 0)\<rparr>"
    unfolding term_scroll_def
    by (intro arg_cong [where f = "\<lambda>c. (screen s)\<lparr>cells := c\<rparr>"] ext) auto
  then show ?thesis using scroll_frame [of s] by (simp add: screen_scroll tty_frame_def)
qed

end
