(* ===== verification/Ordered_Array.thy ===== *)
theory Ordered_Array
  imports CString "HOL-Library.Multiset"
begin

text \<open>
  The ordered array, \<^verbatim>\<open>kernel/mem/ordered_array.c\<close>: an array of pointers in memory, kept
  in the order of a comparison function that is stored with it. \<open>entries\<close> reads the array
  as a list; the locale \<open>ordered_index\<close> is what the heap needs of it, stated on that list.
  \<^verbatim>\<open>create_ordered_array\<close> and \<^verbatim>\<open>destroy_ordered_array\<close> allocate memory: they are with
  the heap, in the theory \<open>Kheap\<close>.
\<close>

section \<open>The operations\<close>

record ordered_array =
  oa_array :: u32
  oa_size :: u32
  oa_max_size :: u32
  oa_less_than :: "memory \<Rightarrow> u32 \<Rightarrow> u32 \<Rightarrow> u8"

definition standard_lessthan_predicate :: "memory \<Rightarrow> u32 \<Rightarrow> u32 \<Rightarrow> u8" where
  "standard_lessthan_predicate m a b = (if a < b then 1 else 0)"

definition place_ordered_array ::
    "u32 \<Rightarrow> u32 \<Rightarrow> (memory \<Rightarrow> u32 \<Rightarrow> u32 \<Rightarrow> u8) \<Rightarrow> memory \<Rightarrow> ordered_array \<times> memory" where
  "place_ordered_array addr max_size lt m =
     (\<lparr>oa_array = addr, oa_size = 0, oa_max_size = max_size, oa_less_than = lt\<rparr>,
      memset m addr 0 (max_size * 4))"

definition lookup_ordered_array :: "u32 \<Rightarrow> ordered_array \<Rightarrow> memory \<Rightarrow> u32" where
  "lookup_ordered_array i a m = read32 m (oa_array a + 4 * i)"

definition insert_ordered_array ::
    "u32 \<Rightarrow> ordered_array \<Rightarrow> memory \<Rightarrow> kerror + ordered_array \<times> memory" where
  "insert_ordered_array item a m =
     bindE (while_res
       (\<lambda>it. it < oa_size a \<and> oa_less_than a m (read32 m (oa_array a + 4 * it)) item \<noteq> 0)
       (\<lambda>it. Inr (it + 1)) 0) (\<lambda>it.
     if it = oa_size a then
       Inr (a\<lparr>oa_size := oa_size a + 1\<rparr>, write32 m (oa_array a + 4 * oa_size a) item)
     else
       let tmp = read32 m (oa_array a + 4 * it); m1 = write32 m (oa_array a + 4 * it) item
       in bindE (while_res (\<lambda>(it, tmp, m). it < oa_size a)
                   (\<lambda>(it, tmp, m). let it = it + 1; tmp2 = read32 m (oa_array a + 4 * it)
                      in Inr (it, tmp2, write32 m (oa_array a + 4 * it) tmp))
                   (it, tmp, m1))
            (\<lambda>(it, tmp, m2). Inr (a\<lparr>oa_size := oa_size a + 1\<rparr>, m2)))"

definition remove_ordered_array ::
    "u32 \<Rightarrow> ordered_array \<Rightarrow> memory \<Rightarrow> kerror + ordered_array \<times> memory" where
  "remove_ordered_array i a m =
     bindE (while_res (\<lambda>(i, m). i < oa_size a)
              (\<lambda>(i, m). Inr (i + 1, write32 m (oa_array a + 4 * i) (read32 m (oa_array a + 4 * (i + 1)))))
              (i, m))
       (\<lambda>(i, m). Inr (a\<lparr>oa_size := oa_size a - 1\<rparr>, m))"

section \<open>The array as a list\<close>

definition entries :: "ordered_array \<Rightarrow> memory \<Rightarrow> u32 list" where
  "entries a m = map (get_slot (oa_array a) m) [0..<unat (oa_size a)]"

definition less_in :: "ordered_array \<Rightarrow> memory \<Rightarrow> u32 \<Rightarrow> u32 \<Rightarrow> bool" where
  "less_in a m x y \<longleftrightarrow> oa_less_than a m x y \<noteq> 0"

text \<open>The slots an operation may write, and the bound under which their addresses differ.\<close>

definition slots_of :: "ordered_array \<Rightarrow> u32 set" where
  "slots_of a = span (oa_array a) (4 * (oa_size a + 1))"

definition oa_room :: "ordered_array \<Rightarrow> bool" where
  "oa_room a \<longleftrightarrow> unat (oa_size a) + 1 < 2 ^ 30"

lemma length_entries [simp]: "length (entries a m) = unat (oa_size a)"
  by (simp add: entries_def)

lemma slot_at: "read32 m (oa_array a + 4 * i) = get_slot (oa_array a) m (unat i)"
  "write32 m (oa_array a + 4 * i) v = put_slot (oa_array a) m (unat i) v"
  by (simp_all add: get_slot_def put_slot_def)

lemma lookup_entries: "i < oa_size a \<Longrightarrow> lookup_ordered_array i a m = entries a m ! unat i"
  by (simp add: lookup_ordered_array_def slot_at entries_def word_less_nat_alt)

lemma entries_cong:
  "(\<And>i. i < unat (oa_size a) \<Longrightarrow> get_slot (oa_array a) m' i = get_slot (oa_array a) m i) \<Longrightarrow>
   entries a m' = entries a m"
  by (simp add: entries_def)

lemma put_slot_same_outside:
  assumes "i < k" "k < 2 ^ 30"
  shows "same_outside (span b (4 * of_nat k)) m (put_slot b m i v)"
proof -
  have "x - b < 4 * of_nat k" if "x - (b + 4 * of_nat i) < 4" for x
  proof -
    define y where "y = x - (b + 4 * of_nat i)"
    have eq: "x - b = 4 * of_nat i + y" by (simp add: y_def)
    have "unat (4 * of_nat i :: u32) = 4 * i" "unat (4 * of_nat k :: u32) = 4 * k" "unat y < 4"
      using assms that by (simp_all add: unat_word_ariths y_def word_less_nat_alt)
    with assms unat_add32 [of "4 * of_nat i" y] show ?thesis
      by (simp add: eq word_less_nat_alt)
  qed
  then show ?thesis
    by (auto simp: same_outside_def put_slot_def span_def intro: write32_outside)
qed

lemma fold_slots_same_outside:
  "(\<And>i. i \<in> set is \<Longrightarrow> h i < k) \<Longrightarrow> k < 2 ^ 30 \<Longrightarrow>
   same_outside (span b (4 * of_nat k)) m (fold (\<lambda>i m. put_slot b m (h i) (f i m)) is m)"
  by (rule fold_same_outside) (rule put_slot_same_outside)

section \<open>Insertion\<close>

lemma search_loop:
  fixes n :: u32 and g :: "u32 \<Rightarrow> 'a" and P :: "'a \<Rightarrow> bool"
  defines "k \<equiv> length (takeWhile P (map (\<lambda>i. g (of_nat i)) [0..<unat n]))"
  shows "while_res (\<lambda>it. it < n \<and> P (g it)) (\<lambda>it. Inr (it + 1)) 0 = Inr (of_nat k)"
    and "k \<le> unat n"
proof -
  let ?xs = "map (\<lambda>i. g (of_nat i)) [0..<unat n]"
  show k: "k \<le> unat n" unfolding k_def using length_takeWhile_le [of P ?xs] by simp
  have "while_res (\<lambda>it. it < n \<and> P (g it)) (\<lambda>it. Inr (it + 1)) (of_nat 0) = Inr (of_nat k :: u32)"
  proof (rule while_res_iterate)
    fix i assume i: "i < k"
    then have "P (?xs ! i)" unfolding k_def by (metis nth_length_takeWhile nth_mem set_takeWhileD
          takeWhile_nth)
    with i k show "(of_nat i < n \<and> P (g (of_nat i))) \<and> (Inr (of_nat i + 1) :: kerror + u32) =
        Inr (of_nat (Suc i))"
      using unat32_bound [of n] by (simp add: word_less_nat_alt)
  next
    show "\<not> (of_nat k < n \<and> P (g (of_nat k)))"
    proof
      assume *: "of_nat k < n \<and> P (g (of_nat k))"
      then have "k < length ?xs" using k unat32_bound [of n] by (simp add: word_less_nat_alt)
      with * nth_length_takeWhile [of P ?xs] show False by (simp add: k_def)
    qed
  qed
  then show "while_res (\<lambda>it. it < n \<and> P (g it)) (\<lambda>it. Inr (it + 1)) 0 = Inr (of_nat k)" by simp
qed

lemma shift_up_loop:
  assumes i: "i \<le> unat n" and n: "unat n + 1 < 2 ^ 30"
  shows "while_res (\<lambda>(it, tmp, m). it < n)
      (\<lambda>(it, tmp, m). let it = it + 1; tmp2 = read32 m (b + 4 * it)
         in Inr (it, tmp2, write32 m (b + 4 * it) tmp))
      (of_nat i, get_slot b m i, put_slot b m i v) =
    Inr (n, get_slot b m (unat n),
      fold (\<lambda>i m'. put_slot b m' (Suc i) (get_slot b m i)) [i..<unat n] (put_slot b m i v))"
proof -
  let ?M = "\<lambda>k. fold (\<lambda>i m'. put_slot b m' (Suc i) (get_slot b m i)) [i..<i + k] (put_slot b m i v)"
  let ?g = "\<lambda>k. (of_nat (i + k) :: u32, get_slot b m (i + k), ?M k)"
  have "while_res (\<lambda>(it, tmp, m). it < n)
      (\<lambda>(it, tmp, m). let it = it + 1; tmp2 = read32 m (b + 4 * it)
         in Inr (it, tmp2, write32 m (b + 4 * it) tmp)) (?g 0) = Inr (?g (unat n - i))"
  proof (rule while_res_iterate)
    fix k assume k: "k < unat n - i"
    have "get_slot b (?M k) (Suc (i + k)) = get_slot b m (Suc (i + k))"
      using k n by (simp add: slots.get_shift_up slots.get_put)
    moreover have "(of_nat (i + k) :: u32) + 1 = of_nat (i + Suc k)" by simp
    moreover have "read32 m' (b + 4 * of_nat (i + Suc k)) = get_slot b m' (Suc (i + k))"
      "write32 m' (b + 4 * of_nat (i + Suc k)) v = put_slot b m' (Suc (i + k)) v" for m' v
      by (simp_all add: get_slot_def put_slot_def)
    ultimately show "(case ?g k of (it, tmp, m) \<Rightarrow> it < n) \<and>
        (case ?g k of (it, tmp, m) \<Rightarrow> let it = it + 1; tmp2 = read32 m (b + 4 * it)
         in Inr (it, tmp2, write32 m (b + 4 * it) tmp)) = Inr (?g (Suc k))"
      using k n by (simp add: Let_def word_less_nat_alt del: of_nat_add of_nat_Suc distrib_left_numeral)
  qed (use i in simp)
  then show ?thesis using i by simp
qed

lemma insert_entries:
  assumes room: "oa_room a"
  shows "\<exists>m'. insert_ordered_array item a m = Inr (a\<lparr>oa_size := oa_size a + 1\<rparr>, m') \<and>
    entries (a\<lparr>oa_size := oa_size a + 1\<rparr>) m' =
      takeWhile (\<lambda>x. less_in a m x item) (entries a m) @ item #
      dropWhile (\<lambda>x. less_in a m x item) (entries a m) \<and>
    same_outside (slots_of a) m m'"
proof -
  let ?n = "unat (oa_size a)" and ?b = "oa_array a"
  let ?P = "\<lambda>x. less_in a m x item"
  let ?k = "length (takeWhile ?P (entries a m))"
  have n: "?n + 1 < 2 ^ 30" using room by (simp add: oa_room_def)
  have size: "unat (oa_size a + 1) = Suc ?n" using n by (simp add: unat_add32)
  have span: "slots_of a = span ?b (4 * of_nat (Suc ?n))" by (simp add: slots_of_def add.commute)
  have xs: "entries a m = map (\<lambda>i. read32 m (?b + 4 * of_nat i)) [0..<?n]"
    by (simp add: entries_def get_slot_def)
  have search: "while_res (\<lambda>it. it < oa_size a \<and> oa_less_than a m (read32 m (?b + 4 * it)) item \<noteq> 0)
       (\<lambda>it. Inr (it + 1)) 0 = Inr (of_nat ?k)" and k: "?k \<le> ?n"
    using search_loop [where g = "\<lambda>it. read32 m (?b + 4 * it)" and n = "oa_size a"
        and P = "\<lambda>x. oa_less_than a m x item \<noteq> 0"] unfolding xs less_in_def by blast+
  have split: "takeWhile ?P (entries a m) = take ?k (entries a m)"
    "dropWhile ?P (entries a m) = drop ?k (entries a m)"
    by (rule takeWhile_eq_take, rule dropWhile_eq_drop)
  show ?thesis
  proof (cases "?k = ?n")
    case True
    let ?m' = "put_slot ?b m ?n item"
    have "insert_ordered_array item a m = Inr (a\<lparr>oa_size := oa_size a + 1\<rparr>, ?m')"
      by (simp add: insert_ordered_array_def search True) (simp add: slot_at)
    moreover have "entries (a\<lparr>oa_size := oa_size a + 1\<rparr>) ?m' = entries a m @ [item]"
      using n slots.contents_append [of ?n ?b m item] by (simp add: entries_def size del: upt_Suc)
    moreover have "same_outside (slots_of a) m ?m'"
      unfolding span using n by (intro put_slot_same_outside) auto
    moreover have "takeWhile ?P (entries a m) = entries a m" "dropWhile ?P (entries a m) = []"
      using split [unfolded True] by simp_all
    ultimately show ?thesis by (simp only: append.simps) blast
  next
    case False
    with k have less: "?k < ?n" by simp
    let ?m' = "fold (\<lambda>i m'. put_slot ?b m' (Suc i) (get_slot ?b m i)) [?k..<?n]
        (put_slot ?b m ?k item)"
    have "unat (of_nat ?k :: u32) = ?k" using k n by (intro unat_of_nat32) simp
    moreover from this False have "(of_nat ?k :: u32) \<noteq> oa_size a" by auto
    ultimately have "insert_ordered_array item a m = Inr (a\<lparr>oa_size := oa_size a + 1\<rparr>, ?m')"
      using shift_up_loop [OF k n, of ?b m item]
      by (simp add: insert_ordered_array_def search get_slot_def put_slot_def Let_def)
    moreover have "entries (a\<lparr>oa_size := oa_size a + 1\<rparr>) ?m' =
        take ?k (entries a m) @ item # drop ?k (entries a m)"
      using n slots.contents_shift_up [OF less, of ?b m item]
      by (simp add: entries_def size del: upt_Suc)
    moreover have "same_outside (slots_of a) m ?m'"
      unfolding span using n less
      by (intro same_outside_trans [OF put_slot_same_outside fold_slots_same_outside]) auto
    ultimately show ?thesis unfolding split [symmetric] by blast
  qed
qed

section \<open>Removal\<close>

lemma shift_down_loop:
  assumes i: "i \<le> unat n" and n: "unat n + 1 < 2 ^ 30"
  shows "while_res (\<lambda>(i, m). i < n)
      (\<lambda>(i, m). Inr (i + 1, write32 m (b + 4 * i) (read32 m (b + 4 * (i + 1)))))
      (of_nat i, m) =
    Inr (n, fold (\<lambda>i m. put_slot b m i (get_slot b m (Suc i))) [i..<unat n] m)"
proof -
  let ?M = "\<lambda>k. fold (\<lambda>i m. put_slot b m i (get_slot b m (Suc i))) [i..<i + k] m"
  let ?g = "\<lambda>k. (of_nat (i + k) :: u32, ?M k)"
  have "while_res (\<lambda>(i, m). i < n)
      (\<lambda>(i, m). Inr (i + 1, write32 m (b + 4 * i) (read32 m (b + 4 * (i + 1))))) (?g 0) =
      Inr (?g (unat n - i))"
  proof (rule while_res_iterate)
    fix k assume k: "k < unat n - i"
    have "(of_nat (i + k) :: u32) + 1 = of_nat (i + Suc k)" by simp
    moreover have "read32 m' (b + 4 * of_nat j) = get_slot b m' j"
      "write32 m' (b + 4 * of_nat j) v = put_slot b m' j v" for m' v j
      by (simp_all add: get_slot_def put_slot_def)
    ultimately show "(case ?g k of (i, m) \<Rightarrow> i < n) \<and> (case ?g k of (i, m) \<Rightarrow>
        Inr (i + 1, write32 m (b + 4 * i) (read32 m (b + 4 * (i + 1))))) = Inr (?g (Suc k))"
      using k n by (simp add: word_less_nat_alt del: of_nat_add of_nat_Suc distrib_left_numeral)
  qed (use i in simp)
  then show ?thesis using i by simp
qed

lemma remove_entries:
  assumes room: "oa_room a" and i: "i < unat (oa_size a)"
  shows "\<exists>m'. remove_ordered_array (of_nat i) a m = Inr (a\<lparr>oa_size := oa_size a - 1\<rparr>, m') \<and>
    entries (a\<lparr>oa_size := oa_size a - 1\<rparr>) m' =
      take i (entries a m) @ drop (Suc i) (entries a m) \<and>
    same_outside (slots_of a) m m'"
proof -
  let ?n = "unat (oa_size a)" and ?b = "oa_array a"
  let ?m' = "fold (\<lambda>i m. put_slot ?b m i (get_slot ?b m (Suc i))) [i..<?n] m"
  have n: "?n + 1 < 2 ^ 30" using room by (simp add: oa_room_def)
  have size: "unat (oa_size a - 1) = ?n - 1" using i by (subst unat_sub32) simp_all
  have span: "slots_of a = span ?b (4 * of_nat (Suc ?n))" by (simp add: slots_of_def add.commute)
  have "remove_ordered_array (of_nat i) a m = Inr (a\<lparr>oa_size := oa_size a - 1\<rparr>, ?m')"
    using shift_down_loop [of i "oa_size a" ?b m] i n by (simp add: remove_ordered_array_def)
  moreover have "entries (a\<lparr>oa_size := oa_size a - 1\<rparr>) ?m' =
      take i (entries a m) @ drop (Suc i) (entries a m)"
    using slots.contents_shift_down [OF i, of ?b m] n by (simp add: entries_def size)
  moreover have "same_outside (slots_of a) m ?m'"
    unfolding span using n by (intro fold_slots_same_outside) auto
  ultimately show ?thesis by blast
qed

section \<open>What a client relies on\<close>

lemma sorted_insertion:
  fixes key :: "'a \<Rightarrow> 'k :: linorder"
  shows "sorted (map key xs) \<Longrightarrow>
    sorted (map key (takeWhile (\<lambda>y. key y < key x) xs @ x # dropWhile (\<lambda>y. key y < key x) xs))"
proof (induction xs)
  case (Cons y ys)
  then show ?case
    by (auto dest: set_takeWhileD set_dropWhileD intro: less_imp_le)
qed simp

lemma sorted_deletion: "sorted (map key xs) \<Longrightarrow> sorted (map key (take i xs @ drop (Suc i) xs))"
proof (induction xs arbitrary: i)
  case (Cons y ys)
  then show ?case by (cases i) (auto dest: in_set_takeD in_set_dropD)
qed simp

lemma mset_insertion:
  "mset (takeWhile P xs @ x # dropWhile P xs) = add_mset x (mset xs)"
proof -
  have "mset xs = mset (takeWhile P xs) + mset (dropWhile P xs)"
    by (metis mset_append takeWhile_dropWhile_id)
  then show ?thesis by simp
qed

lemma mset_deletion:
  "i < length xs \<Longrightarrow> add_mset (xs ! i) (mset (take i xs @ drop (Suc i) xs)) = mset xs"
  by (metis Cons_nth_drop_Suc append_take_drop_id mset.simps(2) mset_append union_mset_add_mset_right)

locale ordered_index =
  fixes contents :: "'i \<Rightarrow> 'm \<Rightarrow> 'x list" and below :: "'i \<Rightarrow> 'm \<Rightarrow> 'x \<Rightarrow> 'x \<Rightarrow> bool"
    and ready :: "'i \<Rightarrow> bool"
    and ins :: "'x \<Rightarrow> 'i \<Rightarrow> 'm \<Rightarrow> 'e + 'i \<times> 'm" and del :: "nat \<Rightarrow> 'i \<Rightarrow> 'm \<Rightarrow> 'e + 'i \<times> 'm"
  assumes ins_contents: "ready a \<Longrightarrow> \<exists>a' m'. ins x a m = Inr (a', m') \<and> contents a' m' =
      takeWhile (\<lambda>y. below a m y x) (contents a m) @ x # dropWhile (\<lambda>y. below a m y x) (contents a m)"
    and del_contents: "ready a \<Longrightarrow> i < length (contents a m) \<Longrightarrow>
      \<exists>a' m'. del i a m = Inr (a', m') \<and>
        contents a' m' = take i (contents a m) @ drop (Suc i) (contents a m)"
begin

lemma ins_mset:
  "ready a \<Longrightarrow> ins x a m = Inr (a', m') \<Longrightarrow> mset (contents a' m') = add_mset x (mset (contents a m))"
  using ins_contents [of a x m] mset_insertion [of "\<lambda>y. below a m y x" "contents a m" x] by auto

lemma ins_sorted:
  "ready a \<Longrightarrow> ins x a m = Inr (a', m') \<Longrightarrow> (\<And>y. below a m y x \<longleftrightarrow> key y < key x) \<Longrightarrow>
   sorted (map key (contents a m)) \<Longrightarrow> sorted (map key (contents a' m'))"
  for key :: "'x \<Rightarrow> 'k :: linorder"
  using ins_contents [of a x m] sorted_insertion [of key "contents a m" x] by auto

lemma del_mset:
  "ready a \<Longrightarrow> i < length (contents a m) \<Longrightarrow> del i a m = Inr (a', m') \<Longrightarrow>
   add_mset (contents a m ! i) (mset (contents a' m')) = mset (contents a m)"
  using del_contents [of a i m] mset_deletion [of i "contents a m"] by auto

lemma del_sorted:
  "ready a \<Longrightarrow> i < length (contents a m) \<Longrightarrow> del i a m = Inr (a', m') \<Longrightarrow>
   sorted (map key (contents a m)) \<Longrightarrow> sorted (map key (contents a' m'))"
  for key :: "'x \<Rightarrow> 'k :: linorder"
  using del_contents [of a i m] sorted_deletion [of key "contents a m" i] by auto

end

interpretation index: ordered_index entries less_in oa_room insert_ordered_array
    "\<lambda>i. remove_ordered_array (of_nat i)"
  by unfold_locales (metis insert_entries, metis length_entries remove_entries)

section \<open>Properties\<close>

text \<open>
  C15: inserting into an array that is sorted by a key of its items (as the array's comparison
  function sees them) returns and leaves an array that has the same items and the new one, and
  that is sorted by that key; only the slots of the array and the one behind them are written.
\<close>

theorem insert_ordered_array_correct:
  fixes key :: "u32 \<Rightarrow> 'k :: linorder"
  assumes "oa_room a" and "\<And>y. less_in a m y item \<longleftrightarrow> key y < key item"
    and "sorted (map key (entries a m))"
  shows "\<exists>a' m'. insert_ordered_array item a m = Inr (a', m') \<and> oa_size a' = oa_size a + 1 \<and>
    mset (entries a' m') = add_mset item (mset (entries a m)) \<and>
    sorted (map key (entries a' m')) \<and> same_outside (slots_of a) m m'"
  using insert_entries [OF assms(1), of item m] index.ins_mset [OF assms(1), of item m]
    index.ins_sorted [OF assms(1) _ assms(2,3)] by fastforce

theorem insert_ordered_array_correct_witness:
  "\<exists>a' m'. insert_ordered_array 5
      \<lparr>oa_array = 0x1000, oa_size = 2, oa_max_size = 8, oa_less_than = standard_lessthan_predicate\<rparr>
      (write32 (write32 (\<lambda>_. 0) 0x1000 3) 0x1004 7) = Inr (a', m') \<and>
    mset (entries a' m') = {#3, 5, 7#} \<and> sorted (map id (entries a' m'))"
proof -
  let ?a = "\<lparr>oa_array = 0x1000, oa_size = 2, oa_max_size = 8, oa_less_than = standard_lessthan_predicate\<rparr>"
  let ?m = "write32 (write32 (\<lambda>_. 0) 0x1000 3) 0x1004 7"
  have e: "entries ?a ?m = [3, 7]"
    by (simp add: entries_def get_slot_def upt_rec read32_write32_apart apart_def)
  have "oa_room ?a" by (simp add: oa_room_def)
  moreover have "less_in ?a ?m y 5 \<longleftrightarrow> id y < id 5" for y
    by (simp add: less_in_def standard_lessthan_predicate_def)
  ultimately show ?thesis
    using insert_ordered_array_correct [where key = id and a = ?a and m = ?m and item = 5]
    by (auto simp: e add_mset_commute)
qed

text \<open>
  C16: removing the item at an index returns and leaves the other items, in their order; so the
  array stays sorted by any key, and only its own slots and the one behind are written.
\<close>

theorem remove_ordered_array_correct:
  assumes "oa_room a" "i < unat (oa_size a)"
  shows "\<exists>a' m'. remove_ordered_array (of_nat i) a m = Inr (a', m') \<and> oa_size a' = oa_size a - 1 \<and>
    entries a' m' = take i (entries a m) @ drop (i + 1) (entries a m) \<and>
    same_outside (slots_of a) m m'"
  using remove_entries [OF assms, of m] by auto

theorem remove_ordered_array_correct_witness:
  "\<exists>a' m'. remove_ordered_array 0
      \<lparr>oa_array = 0x1000, oa_size = 2, oa_max_size = 8, oa_less_than = standard_lessthan_predicate\<rparr>
      (write32 (write32 (\<lambda>_. 0) 0x1000 3) 0x1004 7) = Inr (a', m') \<and> entries a' m' = [7]"
proof -
  let ?a = "\<lparr>oa_array = 0x1000, oa_size = 2, oa_max_size = 8, oa_less_than = standard_lessthan_predicate\<rparr>"
  let ?m = "write32 (write32 (\<lambda>_. 0) 0x1000 3) 0x1004 7"
  have "entries ?a ?m = [3, 7]"
    by (simp add: entries_def get_slot_def upt_rec read32_write32_apart apart_def)
  then show ?thesis
    using remove_ordered_array_correct [of ?a 0 ?m] by (auto simp: oa_room_def)
qed

end
