(* ===== verification/Paging.thy ===== *)
theory Paging
  imports Tty Ordered_Array
begin

text \<open>
  Physical frames and page tables: \<^verbatim>\<open>kernel/mem/paging.c\<close> without its initialisation,
  which needs the heap and is in the theory \<open>Kheap\<close>. Page tables, the page directory and the
  frame bitmap are in memory; the globals of \<^verbatim>\<open>paging.c\<close> and \<^verbatim>\<open>kheap.c\<close> are the
  fields that \<open>mm\<close> adds to the state.

  \<^verbatim>\<open>get_page\<close> allocates a page table with \<^verbatim>\<open>kmalloc_ap\<close>, which allocates on a heap that
  grows with \<^verbatim>\<open>get_page\<close>: here the allocation function is an argument of \<open>get_page\<close>, and
  the theory \<open>Kheap\<close> closes the recursion.
\<close>

section \<open>State\<close>

record heap_t =
  index :: ordered_array
  start_address :: u32
  end_address :: u32
  max_address :: u32
  supervisor :: u8
  readonly :: u8

record mm = tty +
  placement_addr :: u32
  kheap :: "heap_t option" \<comment> \<open>the heap \<^verbatim>\<open>kheap\<close> points to; \<open>None\<close> is the null pointer\<close>
  frame_allocations :: u32
  nframes :: u32
  kernel_directory :: u32
  current_directory :: u32

abbreviation FRAME_SIZE :: u32 where "FRAME_SIZE \<equiv> 4096"
abbreviation FRAME_ALLOCATIONS_SECTION_SIZE :: u32 where "FRAME_ALLOCATIONS_SECTION_SIZE \<equiv> 32"
abbreviation USED_FRAME_SECTION :: u32 where "USED_FRAME_SECTION \<equiv> 0xFFFFFFFF"
abbreviation PHYSICAL_MEM_SIZE :: u32 where "PHYSICAL_MEM_SIZE \<equiv> 0x10000000"

section \<open>Page table entries\<close>

text \<open>\<^verbatim>\<open>struct page\<close>: 32 bits, the first bit field in the lowest bit.\<close>

record page =
  pr :: "1 word"
  rw :: "1 word"
  us :: "1 word"
  pw :: "1 word"
  pc :: "1 word"
  ac :: "1 word"
  di :: "1 word"
  pa :: "1 word"
  gl :: "1 word"
  ig :: "3 word"
  fr :: "20 word"

definition decode_page :: "u32 \<Rightarrow> page" where
  "decode_page w = \<lparr>pr = ucast w, rw = ucast (drop_bit 1 w), us = ucast (drop_bit 2 w),
     pw = ucast (drop_bit 3 w), pc = ucast (drop_bit 4 w), ac = ucast (drop_bit 5 w),
     di = ucast (drop_bit 6 w), pa = ucast (drop_bit 7 w), gl = ucast (drop_bit 8 w),
     ig = ucast (drop_bit 9 w), fr = ucast (drop_bit 12 w)\<rparr>"

definition encode_page :: "page \<Rightarrow> u32" where
  "encode_page p = ucast (pr p) OR push_bit 1 (ucast (rw p)) OR push_bit 2 (ucast (us p))
     OR push_bit 3 (ucast (pw p)) OR push_bit 4 (ucast (pc p)) OR push_bit 5 (ucast (ac p))
     OR push_bit 6 (ucast (di p)) OR push_bit 7 (ucast (pa p)) OR push_bit 8 (ucast (gl p))
     OR push_bit 9 (ucast (ig p)) OR push_bit 12 (ucast (fr p))"

definition load_page :: "memory \<Rightarrow> u32 \<Rightarrow> page" where
  "load_page m p = decode_page (read32 m p)"

definition store_page :: "memory \<Rightarrow> u32 \<Rightarrow> page \<Rightarrow> memory" where
  "store_page m p e = write32 m p (encode_page e)"

abbreviation PAGE_PRESENT :: "1 word" where "PAGE_PRESENT \<equiv> 1"
abbreviation PAGE_READ_ONLY :: "1 word" where "PAGE_READ_ONLY \<equiv> 0"
abbreviation PAGE_READ_WRITE :: "1 word" where "PAGE_READ_WRITE \<equiv> 1"
abbreviation PAGE_USER :: "1 word" where "PAGE_USER \<equiv> 0"
abbreviation PAGE_SUPERVISOR :: "1 word" where "PAGE_SUPERVISOR \<equiv> 0"

section \<open>The frame bitmap\<close>

definition set_frame :: "u32 \<Rightarrow> 'a mm_scheme \<Rightarrow> 'a mm_scheme" where
  "set_frame addr s =
     (let frame = addr div FRAME_SIZE;
          sec = frame div FRAME_ALLOCATIONS_SECTION_SIZE;
          off = frame mod FRAME_ALLOCATIONS_SECTION_SIZE;
          at = frame_allocations s + 4 * sec
      in s\<lparr>mem := write32 (mem s) at (read32 (mem s) at OR push_bit (unat off) 1)\<rparr>)"

definition clear_frame :: "u32 \<Rightarrow> 'a mm_scheme \<Rightarrow> 'a mm_scheme" where
  "clear_frame addr s =
     (let frame = addr div FRAME_SIZE;
          sec = frame div FRAME_ALLOCATIONS_SECTION_SIZE;
          off = frame mod FRAME_ALLOCATIONS_SECTION_SIZE;
          at = frame_allocations s + 4 * sec
      in s\<lparr>mem := write32 (mem s) at (read32 (mem s) at AND NOT (push_bit (unat off) 1))\<rparr>)"

text \<open>The two nested loops of \<^verbatim>\<open>first_frame\<close>, with its early return as the result.\<close>

function find_free_bit :: "u32 \<Rightarrow> u32 \<Rightarrow> u32 option" where
  "find_free_bit w idx =
     (if idx < FRAME_ALLOCATIONS_SECTION_SIZE then
        (if w AND push_bit (unat idx) 1 = 0 then Some idx else find_free_bit w (idx + 1))
      else None)"
  by pat_completeness auto
termination
proof (relation "measure (\<lambda>(w, idx). 32 - unat idx)")
  fix w idx :: u32
  assume "idx < 32"
  with unat_less_Suc [OF this] show "((w, idx + 1), w, idx) \<in> measure (\<lambda>(w, idx). 32 - unat idx)"
    by (simp add: word_less_nat_alt)
qed simp

function first_frame_from :: "memory \<Rightarrow> u32 \<Rightarrow> u32 \<Rightarrow> u32 \<Rightarrow> u32" where
  "first_frame_from m base nsections sec =
     (if sec < nsections then
        (if read32 m (base + 4 * sec) \<noteq> USED_FRAME_SECTION then
           (case find_free_bit (read32 m (base + 4 * sec)) 0 of
              Some idx \<Rightarrow> sec * FRAME_ALLOCATIONS_SECTION_SIZE + idx
            | None \<Rightarrow> first_frame_from m base nsections (sec + 1))
         else first_frame_from m base nsections (sec + 1))
      else nsections * FRAME_ALLOCATIONS_SECTION_SIZE)"
  by pat_completeness auto
termination
proof (relation "measure (\<lambda>(m, base, n, sec). unat n - unat sec)")
  fix m :: memory and base n sec :: u32
  assume "sec < n"
  with unat_less_Suc [OF this] show "((m, base, n, sec + 1), m, base, n, sec) \<in>
      measure (\<lambda>(m, base, n, sec). unat n - unat sec)"
    by (simp add: word_less_nat_alt)
  then show "((m, base, n, sec + 1), m, base, n, sec) \<in>
      measure (\<lambda>(m, base, n, sec). unat n - unat sec)" .
qed simp

declare find_free_bit.simps [simp del] first_frame_from.simps [simp del]

definition first_frame :: "'a mm_scheme \<Rightarrow> u32" where
  "first_frame s = first_frame_from (mem s) (frame_allocations s)
     (nframes s div FRAME_ALLOCATIONS_SECTION_SIZE) 0"

section \<open>Mapping and unmapping\<close>

definition alloc_frame ::
    "u32 \<Rightarrow> int \<Rightarrow> int \<Rightarrow> 'a mm_scheme \<Rightarrow> kerror + 'a mm_scheme" where
  "alloc_frame page is_super is_write s =
     (let p = load_page (mem s) page in
      if fr p \<noteq> 0 then Inr s
      else let fframe = first_frame s in
        if fframe = -1 then Inl (Panic ''No free frames availables!'')
        else let p' = p\<lparr>pr := PAGE_PRESENT,
                        rw := if is_write \<noteq> 0 then PAGE_READ_WRITE else PAGE_READ_ONLY,
                        us := if is_super \<noteq> 0 then PAGE_SUPERVISOR else PAGE_USER,
                        fr := ucast fframe\<rparr>
             in Inr (set_frame (fframe * FRAME_SIZE) (s\<lparr>mem := store_page (mem s) page p'\<rparr>)))"

definition free_frame :: "u32 \<Rightarrow> 'a mm_scheme \<Rightarrow> 'a mm_scheme" where
  "free_frame page s =
     (let frame = fr (load_page (mem s) page) in
      if frame = 0 then s
      else let s1 = clear_frame (ucast frame) s
           in s1\<lparr>mem := store_page (mem s1) page ((load_page (mem s1) page)\<lparr>fr := 0\<rparr>)\<rparr>)"

text \<open>
  \<^verbatim>\<open>struct page_directory\<close> holds 1024 pointers to page tables and then the 1024 physical
  addresses; \<open>km\<close> is the call \<^verbatim>\<open>kmalloc_ap(sizeof(page_table_t), &tmp)\<close>, which returns
  the address, the value of \<^verbatim>\<open>tmp\<close> and the state.
\<close>

definition page_tables_virtual :: "u32 \<Rightarrow> u32 \<Rightarrow> u32" where
  "page_tables_virtual dir i = dir + 4 * i"

definition page_tables_physical :: "u32 \<Rightarrow> u32 \<Rightarrow> u32" where
  "page_tables_physical dir i = dir + 4096 + 4 * i"

definition get_page ::
    "('a mm_scheme \<Rightarrow> kerror + u32 \<times> u32 \<times> 'a mm_scheme) \<Rightarrow> u32 \<Rightarrow> int \<Rightarrow> u32 \<Rightarrow>
     'a mm_scheme \<Rightarrow> kerror + u32 \<times> 'a mm_scheme" where
  "get_page km address mk dir s =
     (let address = address div 0x1000;
          table_idx = address div 1024;
          virt = page_tables_virtual dir table_idx
      in if read32 (mem s) virt \<noteq> 0 then Inr (read32 (mem s) virt + 4 * (address mod 1024), s)
         else if mk \<noteq> 0 then
           bindE (km s) (\<lambda>(table, tmp, s1).
             let m1 = write32 (mem s1) virt table;
                 m2 = memset m1 (read32 m1 virt) 0 0x1000;
                 m3 = write32 m2 (page_tables_physical dir table_idx) (tmp OR 0x7)
             in Inr (read32 m3 virt + 4 * (address mod 1024), s1\<lparr>mem := m3\<rparr>))
         else Inr (0, s))"

section \<open>Round trip of page table entries\<close>

lemma bit_beyond:
  "n \<noteq> 0 \<Longrightarrow> \<not> bit (x :: 1 word) n" "3 \<le> n \<Longrightarrow> \<not> bit (y :: 3 word) n"
  "20 \<le> n \<Longrightarrow> \<not> bit (z :: 20 word) n"
  by (auto dest!: bit_imp_le_length)

lemma bit_field:
  "n < 32 \<Longrightarrow> bit (push_bit k (ucast (x :: 'a::len word)) :: u32) n \<longleftrightarrow> k \<le> n \<and> bit x (n - k)"
  "n < 32 \<Longrightarrow> bit (ucast (x :: 'a::len word) :: u32) n \<longleftrightarrow> bit x n"
  by (auto simp: bit_push_bit_iff bit_unsigned_iff)

lemma bit_encode_page:
  assumes "n < 32"
  shows "bit (encode_page p) n \<longleftrightarrow> bit (pr p) n \<or> 1 \<le> n \<and> bit (rw p) (n - 1)
    \<or> 2 \<le> n \<and> bit (us p) (n - 2) \<or> 3 \<le> n \<and> bit (pw p) (n - 3) \<or> 4 \<le> n \<and> bit (pc p) (n - 4)
    \<or> 5 \<le> n \<and> bit (ac p) (n - 5) \<or> 6 \<le> n \<and> bit (di p) (n - 6) \<or> 7 \<le> n \<and> bit (pa p) (n - 7)
    \<or> 8 \<le> n \<and> bit (gl p) (n - 8) \<or> 9 \<le> n \<and> bit (ig p) (n - 9) \<or> 12 \<le> n \<and> bit (fr p) (n - 12)"
  by (simp only: encode_page_def bit_or_iff bit_field [OF assms] disj_assoc)

lemma decode_encode_page: "decode_page (encode_page p) = p"
proof -
  have zero: "n = 0" if "n < LENGTH(1)" for n using that by simp
  have "pr (decode_page (encode_page p)) = pr p" "rw (decode_page (encode_page p)) = rw p"
    "us (decode_page (encode_page p)) = us p" "pw (decode_page (encode_page p)) = pw p"
    "pc (decode_page (encode_page p)) = pc p" "ac (decode_page (encode_page p)) = ac p"
    "di (decode_page (encode_page p)) = di p" "pa (decode_page (encode_page p)) = pa p"
    "gl (decode_page (encode_page p)) = gl p"
    by (rule bit_word_eqI, drule zero,
        simp add: decode_page_def bit_unsigned_iff bit_drop_bit_eq bit_encode_page bit_beyond)+
  moreover have "ig (decode_page (encode_page p)) = ig p"
    by (rule bit_word_eqI)
      (simp add: decode_page_def bit_unsigned_iff bit_drop_bit_eq bit_encode_page bit_beyond)
  moreover have "fr (decode_page (encode_page p)) = fr p"
    by (rule bit_word_eqI)
      (simp add: decode_page_def bit_unsigned_iff bit_drop_bit_eq bit_encode_page bit_beyond)
  ultimately show ?thesis by simp
qed

lemma load_store_page [simp]: "load_page (store_page m p e) p = e"
  by (simp add: load_page_def store_page_def decode_encode_page)

lemma encode_decode_page: "encode_page (decode_page w) = w"
proof (rule bit_word_eqI)
  fix n assume "n < LENGTH(32)"
  then have n: "n < 32" by simp
  have one: "k \<le> n \<and> bit (ucast (drop_bit k w) :: 1 word) (n - k) \<longleftrightarrow> n = k \<and> bit w n" for k
    by (auto simp: bit_unsigned_iff bit_drop_bit_eq)
  have zero: "bit (ucast w :: 1 word) n \<longleftrightarrow> n = 0 \<and> bit w n"
    by (auto simp: bit_unsigned_iff)
  have ig: "9 \<le> n \<and> bit (ucast (drop_bit 9 w) :: 3 word) (n - 9) \<longleftrightarrow> 9 \<le> n \<and> n < 12 \<and> bit w n"
    by (auto simp: bit_unsigned_iff bit_drop_bit_eq)
  have fr: "12 \<le> n \<and> bit (ucast (drop_bit 12 w) :: 20 word) (n - 12) \<longleftrightarrow> 12 \<le> n \<and> bit w n"
    using n by (auto simp: bit_unsigned_iff bit_drop_bit_eq)
  have cover: "n = 0 \<or> n = 1 \<or> n = 2 \<or> n = 3 \<or> n = 4 \<or> n = 5 \<or> n = 6 \<or> n = 7 \<or> n = 8
      \<or> 9 \<le> n \<and> n < 12 \<or> 12 \<le> n" by arith
  show "bit (encode_page (decode_page w)) n \<longleftrightarrow> bit w n"
    unfolding bit_encode_page [OF n] decode_page_def page.simps one zero ig fr
    using cover by blast
qed

section \<open>The bitmap as a set of frames\<close>

text \<open>
  Marking and unmarking frames of a numbered collection: what the users of a frame
  allocator rely on.
\<close>

locale frame_set =
  fixes used :: "'s \<Rightarrow> nat \<Rightarrow> bool" and mark :: "nat \<Rightarrow> 's \<Rightarrow> 's" and unmark :: "nat \<Rightarrow> 's \<Rightarrow> 's"
    and limit :: nat
  assumes used_mark: "f < limit \<Longrightarrow> g < limit \<Longrightarrow> used (mark f s) g \<longleftrightarrow> g = f \<or> used s g"
    and used_unmark: "f < limit \<Longrightarrow> g < limit \<Longrightarrow> used (unmark f s) g \<longleftrightarrow> g \<noteq> f \<and> used s g"
begin

lemma used_marks:
  "set fs \<subseteq> {..<limit} \<Longrightarrow> g < limit \<Longrightarrow> used (fold mark fs s) g \<longleftrightarrow> g \<in> set fs \<or> used s g"
  by (induction fs arbitrary: s) (auto simp: used_mark)

lemma unmark_mark:
  "f < limit \<Longrightarrow> g < limit \<Longrightarrow> \<not> used s f \<Longrightarrow> used (unmark f (mark f s)) g = used s g"
  by (auto simp: used_mark used_unmark)

end

definition used :: "'a mm_scheme \<Rightarrow> nat \<Rightarrow> bool" where
  "used s f \<longleftrightarrow> bit (get_slot (frame_allocations s) (mem s) (f div 32)) (f mod 32)"

lemma set_frame_slot:
  assumes "f < 2 ^ 20"
  shows "set_frame (of_nat f * FRAME_SIZE) s = s\<lparr>mem := put_slot (frame_allocations s) (mem s) (f div 32)
      (get_slot (frame_allocations s) (mem s) (f div 32) OR push_bit (f mod 32) 1)\<rparr>"
    and "clear_frame (of_nat f * FRAME_SIZE) s = s\<lparr>mem := put_slot (frame_allocations s) (mem s) (f div 32)
      (get_slot (frame_allocations s) (mem s) (f div 32) AND NOT (push_bit (f mod 32) 1))\<rparr>"
proof -
  have "of_nat f * FRAME_SIZE div FRAME_SIZE = of_nat f"
    using assms by (simp add: word_unat_eq_iff unat_div unat_word_ariths)
  moreover have "(of_nat f :: u32) div 32 = of_nat (f div 32)" "(of_nat f :: u32) mod 32 = of_nat (f mod 32)"
    using div_mod_step [of f 32] assms by simp_all
  moreover have "unat (of_nat (f mod 32) :: u32) = f mod 32"
    by (intro unat_of_nat32 less_trans [OF mod_less_divisor [of 32 f]]) simp_all
  ultimately show "set_frame (of_nat f * FRAME_SIZE) s = s\<lparr>mem := put_slot (frame_allocations s) (mem s) (f div 32)
      (get_slot (frame_allocations s) (mem s) (f div 32) OR push_bit (f mod 32) 1)\<rparr>"
    "clear_frame (of_nat f * FRAME_SIZE) s = s\<lparr>mem := put_slot (frame_allocations s) (mem s) (f div 32)
      (get_slot (frame_allocations s) (mem s) (f div 32) AND NOT (push_bit (f mod 32) 1))\<rparr>"
    by (simp_all only: set_frame_def clear_frame_def Let_def get_slot_def put_slot_def)
qed

lemma section_eq: "f div 32 = g div 32 \<Longrightarrow> f mod 32 = g mod 32 \<longleftrightarrow> f = (g :: nat)"
  by (metis div_mult_mod_eq)

lemma used_put_slot:
  assumes "f < 2 ^ 20" "g < 2 ^ 20"
  shows "used (s\<lparr>mem := put_slot (frame_allocations s) (mem s) (f div 32) w\<rparr>) g \<longleftrightarrow>
    (if g div 32 = f div 32 then bit w (g mod 32) else used s g)"
proof -
  have "f div 32 < 2 ^ 30" "g div 32 < 2 ^ 30"
    using assms div_le_dividend [of f 32] div_le_dividend [of g 32] by simp_all
  then show ?thesis by (auto simp: used_def slots.get_put)
qed

interpretation frames: frame_set used "\<lambda>f. set_frame (of_nat f * FRAME_SIZE)"
    "\<lambda>f. clear_frame (of_nat f * FRAME_SIZE)" "2 ^ 20"
proof unfold_locales
  fix f g :: nat and s :: "'a mm_scheme"
  assume fg: "f < 2 ^ 20" "g < 2 ^ 20"
  have bits: "bit (push_bit (f mod 32) 1 :: u32) (g mod 32) \<longleftrightarrow> g mod 32 = f mod 32"
    by (auto simp: bit_simps)
  show "used (set_frame (of_nat f * FRAME_SIZE) s) g \<longleftrightarrow> g = f \<or> used s g"
    unfolding set_frame_slot [OF fg(1)] used_put_slot [OF fg]
    using section_eq [of g f] bits by (auto simp: used_def bit_or_iff)
  show "used (clear_frame (of_nat f * FRAME_SIZE) s) g \<longleftrightarrow> g \<noteq> f \<and> used s g"
    unfolding set_frame_slot [OF fg(1)] used_put_slot [OF fg]
    using section_eq [of g f] bits by (auto simp: used_def bit_and_iff bit_not_iff)
qed

section \<open>The first free frame\<close>

lemma and_bit_zero: "(w :: u32) AND push_bit n 1 = 0 \<longleftrightarrow> \<not> bit w n"
  by (simp add: push_bit_of_1 and_exp_eq_0_iff_not_bit)

lemma find_free_bit_spec:
  "(\<forall>j. unat idx \<le> j \<and> j < 32 \<longrightarrow> bit w j) \<and> find_free_bit w idx = None \<or>
   (\<exists>i. find_free_bit w idx = Some (of_nat i) \<and> unat idx \<le> i \<and> i < 32 \<and> \<not> bit w i \<and>
     (\<forall>j. unat idx \<le> j \<and> j < i \<longrightarrow> bit w j))"
proof (induction w idx rule: find_free_bit.induct)
  case (1 w idx)
  show ?case
  proof (cases "idx < 32 \<and> bit w (unat idx)")
    case True
    then have eq: "find_free_bit w idx = find_free_bit w (idx + 1)"
      by (subst find_free_bit.simps) (simp add: and_exp_eq_0_iff_not_bit)
    have suc: "unat (idx + 1) = Suc (unat idx)" using True unat_less_Suc [of idx 32] by simp
    have step: "unat idx \<le> j \<longleftrightarrow> j = unat idx \<or> Suc (unat idx) \<le> j" for j by auto
    show ?thesis
      using "1.IH" True unfolding eq and_bit_zero suc step by (metis (full_types))
  next
    case False
    show ?thesis
    proof (cases "idx < 32")
      case True
      with False have "find_free_bit w idx = Some (of_nat (unat idx))"
        by (subst find_free_bit.simps) (simp add: and_exp_eq_0_iff_not_bit)
      moreover have "unat idx < 32" using True by (simp add: word_less_nat_alt)
      ultimately show ?thesis using True False
        by (intro disjI2 exI [of _ "unat idx"]) auto
    next
      case False
      then have "find_free_bit w idx = None" by (subst find_free_bit.simps) simp
      moreover have "32 \<le> unat idx" using False by (simp add: not_less word_le_nat_alt)
      ultimately show ?thesis by auto
    qed
  qed
qed

text \<open>
  \<open>sections\<close> is the number of 32-bit words of the bitmap that \<^verbatim>\<open>first_frame\<close> looks at;
  the frames it can hand out are those below \<open>32 * sections\<close>.
\<close>

definition sections :: "'a mm_scheme \<Rightarrow> nat" where
  "sections s = unat (nframes s div FRAME_ALLOCATIONS_SECTION_SIZE)"

lemma full_section: "(w :: u32) = USED_FRAME_SECTION \<longleftrightarrow> (\<forall>j < 32. bit w j)"
proof -
  have "USED_FRAME_SECTION = - 1" by simp
  then have "bit USED_FRAME_SECTION j" if "j < 32" for j
    using that by (simp only: bit_minus_1_iff) simp
  then show ?thesis by (auto intro: bit_word_eqI)
qed

lemma first_frame_from_spec:
  fixes n sec :: u32
  assumes n: "unat n \<le> 2 ^ 27" and sec: "sec \<le> n"
    and below: "\<And>g. g < 32 * unat sec \<Longrightarrow> bit (get_slot base m (g div 32)) (g mod 32)"
  shows "\<exists>f \<le> 32 * unat n. first_frame_from m base n sec = of_nat f \<and>
    (\<forall>g < f. bit (get_slot base m (g div 32)) (g mod 32)) \<and>
    (f < 32 * unat n \<longrightarrow> \<not> bit (get_slot base m (f div 32)) (f mod 32))"
  using assms
proof (induction m base n sec rule: first_frame_from.induct)
  case (1 m base n sec)
  let ?bit = "\<lambda>g. bit (get_slot base m (g div 32)) (g mod 32)"
  let ?w = "read32 m (base + 4 * sec)"
  have w: "?w = get_slot base m (unat sec)" by (simp add: get_slot_def)
  show ?case
  proof (cases "sec < n")
    case False
    with "1.prems" have "sec = n" by simp
    then have "first_frame_from m base n sec = of_nat (32 * unat n)"
      by (subst first_frame_from.simps) simp
    then show ?thesis using "1.prems" \<open>sec = n\<close> by blast
  next
    case True
    show ?thesis
    proof (cases "find_free_bit ?w 0")
      case None
      have all: "bit ?w j" if "j < 32" for j
        using find_free_bit_spec [of 0 ?w] None that by auto
      then have full: "?w = USED_FRAME_SECTION" by (simp add: full_section)
      have "first_frame_from m base n sec = first_frame_from m base n (sec + 1)"
        using True full by (subst first_frame_from.simps) simp
      moreover have suc: "unat (sec + 1) = Suc (unat sec)" using True by (rule unat_less_Suc)
      moreover have "sec + 1 \<le> n" using True suc by (simp add: word_less_nat_alt word_le_nat_alt)
      moreover have "?bit g" if "g < 32 * unat (sec + 1)" for g
      proof (cases "g < 32 * unat sec")
        case False
        with that have "g div 32 = unat sec" unfolding suc by auto
        then show ?thesis using all [of "g mod 32"] w by simp
      qed (use "1.prems" in blast)
      ultimately show ?thesis
        using "1.IH"(2) [OF True] "1.prems" full by simp
    next
      case (Some idx)
      then obtain i where i: "find_free_bit ?w 0 = Some (of_nat i)" "i < 32" "\<not> bit ?w i"
        "\<forall>j < i. bit ?w j"
        using find_free_bit_spec [of 0 ?w] by auto
      have "?w \<noteq> USED_FRAME_SECTION" using i full_section [of ?w] by blast
      then have "first_frame_from m base n sec = of_nat (32 * unat sec + i)"
        using True i by (subst first_frame_from.simps) (simp add: mult.commute)
      moreover have "32 * unat sec + i < 32 * unat n"
        using True i(2) by (simp add: word_less_nat_alt)
      moreover have "(32 * unat sec + i) div 32 = unat sec" "(32 * unat sec + i) mod 32 = i"
        using i(2) by simp_all
      moreover have "?bit g" if "g < 32 * unat sec + i" for g
      proof (cases "g < 32 * unat sec")
        case False
        then have g: "g = 32 * unat sec + (g - 32 * unat sec)" by simp
        have "g - 32 * unat sec < i" using that False by auto
        then have "g div 32 = unat sec" "g mod 32 < i"
          using i(2) by (subst g, simp)+
        then show ?thesis using i(4) w by simp
      qed (use "1.prems" in blast)
      ultimately show ?thesis using i(3) w by (intro exI [of _ "32 * unat sec + i"]) auto
    qed
  qed
qed

lemma sections_bound: "sections s \<le> 2 ^ 27"
proof -
  have "sections s = unat (nframes s) div 32" by (simp add: sections_def unat_div)
  then show ?thesis using unat32_bound [of "nframes s"] by simp
qed

lemma first_frame_spec:
  "\<exists>f \<le> 32 * sections s. first_frame s = of_nat f \<and> (\<forall>g < f. used s g) \<and>
     (f < 32 * sections s \<longrightarrow> \<not> used s f)"
  using first_frame_from_spec [of "nframes s div 32" 0 "frame_allocations s" "mem s"] sections_bound [of s]
  by (simp add: first_frame_def used_def sections_def)

section \<open>Mapping a page to a frame\<close>

text \<open>A page table entry that is not inside the part of the bitmap that is in use.\<close>

definition page_clear :: "u32 \<Rightarrow> 'a mm_scheme \<Rightarrow> bool" where
  "page_clear page s \<longleftrightarrow> (\<forall>i < sections s. apart 4 page 4 (frame_allocations s + 4 * of_nat i))"

lemma store_page_used:
  assumes "page_clear page s" "g < 32 * sections s"
  shows "used (s\<lparr>mem := store_page (mem s) page p\<rparr>) g = used s g"
proof -
  have "g div 32 < sections s" using assms(2) by (simp add: less_mult_imp_div_less mult.commute)
  with assms(1) show ?thesis
    by (simp add: used_def store_page_def get_slot_def page_clear_def read32_write32_apart)
qed

lemma set_frame_load_page:
  assumes "page_clear page s" "f < 2 ^ 20" "f < 32 * sections s"
  shows "load_page (mem (set_frame (of_nat f * FRAME_SIZE) s)) page = load_page (mem s) page"
    and "load_page (mem (clear_frame (of_nat f * FRAME_SIZE) s)) page = load_page (mem s) page"
proof -
  have "f div 32 < sections s" using assms(3) by (simp add: less_mult_imp_div_less mult.commute)
  with assms(1) have "apart 4 (frame_allocations s + 4 * of_nat (f div 32)) 4 page"
    by (simp add: page_clear_def apart_commute)
  then show "load_page (mem (set_frame (of_nat f * FRAME_SIZE) s)) page = load_page (mem s) page"
    "load_page (mem (clear_frame (of_nat f * FRAME_SIZE) s)) page = load_page (mem s) page"
    by (simp_all add: set_frame_slot [OF assms(2)] load_page_def put_slot_def read32_write32_apart)
qed

lemma store_page_fields [simp]:
  "sections (s\<lparr>mem := m\<rparr>) = sections s" "page_clear page (s\<lparr>mem := m\<rparr>) = page_clear page s"
  by (simp_all add: sections_def page_clear_def)

lemma alloc_frame_run:
  assumes "fr (load_page (mem s) page) = 0"
  obtains f where "f \<le> 32 * sections s" "\<forall>g < f. used s g" "f < 32 * sections s \<longrightarrow> \<not> used s f"
    and "alloc_frame page is_super is_write s = Inr (set_frame (of_nat f * FRAME_SIZE)
      (s\<lparr>mem := store_page (mem s) page ((load_page (mem s) page)\<lparr>pr := 1,
         rw := if is_write \<noteq> 0 then 1 else 0, us := 0, fr := of_nat f\<rparr>)\<rparr>))"
proof -
  obtain f where f: "f \<le> 32 * sections s" "first_frame s = of_nat f"
    "\<forall>g < f. used s g" "f < 32 * sections s \<longrightarrow> \<not> used s f"
    using first_frame_spec [of s] by blast
  have "sections s = unat (nframes s) div 32" by (simp add: sections_def unat_div)
  then have le: "32 * sections s \<le> 2 ^ 32 - 32" using unat32_bound [of "nframes s"] by auto
  have "(of_nat f :: u32) \<noteq> - 1"
  proof
    assume "(of_nat f :: u32) = - 1"
    then have "unat (of_nat f :: u32) = unat (- 1 :: u32)" by (rule arg_cong)
    moreover have "unat (- 1 :: u32) = 2 ^ 32 - 1" using unat_minus32 [of 1] by simp
    ultimately show False using f(1) le by simp
  qed
  moreover have "(ucast (of_nat f :: u32) :: 20 word) = of_nat f"
    by (intro bit_word_eqI) (simp add: bit_simps)
  ultimately show thesis using f assms that by (simp add: alloc_frame_def Let_def)
qed

section \<open>Exhaustion and release\<close>

lemma frames_of_number: "(of_nat f :: u32) div 4096 = of_nat (f div 4096)" if "f < 2 ^ 32"
  using div_mod_step(2) [OF that, of 4096] by simp

text \<open>
  \<^verbatim>\<open>free_frame\<close> passes the frame number where \<^verbatim>\<open>clear_frame\<close> expects an address: the
  bit that is cleared is that of the frame \<open>f div 4096\<close>.
\<close>

lemma clear_frame_number:
  assumes "f < 2 ^ 20"
  shows "clear_frame (of_nat f) s = clear_frame (of_nat (f div 4096) * FRAME_SIZE) s"
proof -
  have "(of_nat (f div 4096) * FRAME_SIZE) div FRAME_SIZE = (of_nat (f div 4096) :: u32)"
    using assms by (simp add: word_unat_eq_iff unat_div unat_word_ariths)
  moreover have "(of_nat f :: u32) div FRAME_SIZE = of_nat (f div 4096)"
    using assms by (intro frames_of_number) simp
  ultimately show ?thesis unfolding clear_frame_def by simp
qed

lemma free_frame_used:
  assumes f: "fr (load_page (mem s) page) = of_nat f" "0 < f" "f < 2 ^ 20"
    and clear: "page_clear page s" and g: "g < 32 * sections s" "g < 2 ^ 20"
  shows "used (free_frame page s) g \<longleftrightarrow> g \<noteq> f div 4096 \<and> used s g"
proof -
  let ?s1 = "clear_frame (of_nat f) s"
  have nz: "(of_nat f :: 20 word) \<noteq> 0"
    using f(2,3) by (simp add: word_unat_eq_iff unat_of_nat)
  have u: "(ucast (of_nat f :: 20 word) :: u32) = of_nat f"
    using f(3) by (simp add: word_unat_eq_iff unat_of_nat unsigned_ucast_eq take_bit_nat_eq_self)
  have "clear_frame (of_nat f) s = clear_frame (of_nat (f div 4096) * FRAME_SIZE) s"
    by (rule clear_frame_number [OF f(3)])
  moreover have lim: "f div 4096 < 2 ^ 20" using f(3) by simp
  ultimately have s1: "used ?s1 g \<longleftrightarrow> g \<noteq> f div 4096 \<and> used s g"
    using frames.used_unmark [OF lim g(2)] by simp
  have clear1: "page_clear page ?s1" "sections ?s1 = sections s"
    using clear by (simp_all add: clear_frame_def Let_def)
  have "free_frame page s =
      ?s1\<lparr>mem := store_page (mem ?s1) page ((load_page (mem ?s1) page)\<lparr>fr := 0\<rparr>)\<rparr>"
    using f(1) nz u by (simp add: free_frame_def Let_def)
  then show ?thesis
    using store_page_used [OF clear1(1), of g] g clear1(2) s1 by simp
qed

lemma write32_read32: "write32 m p (read32 m p) = m"
proof -
  have "bit (ucast (drop_bit k (read32 m p)) :: u8) n = bit (m (p + of_nat (k div 8))) n"
    if "k \<in> {0, 8, 16, 24}" "n < 8" for k n
    using that by (auto simp: read32_def bit_simps dest: bit_imp_le_length)
  then have "ucast (read32 m p) = m p" "ucast (drop_bit 8 (read32 m p)) = m (p + 1)"
    "ucast (drop_bit 16 (read32 m p)) = m (p + 2)" "ucast (drop_bit 24 (read32 m p)) = m (p + 3)"
    by (intro bit_word_eqI; force)+
  then show ?thesis by (simp add: write32_def fun_upd_idem_iff)
qed

lemma store_page_load: "store_page m p (load_page m p) = m"
  by (simp add: store_page_def load_page_def encode_decode_page write32_read32)

lemma free_frame_entry:
  assumes f: "fr (load_page (mem s) page) = of_nat f" "0 < f" "f < 2 ^ 20"
    and clear: "page_clear page s" "f < 32 * sections s"
  shows "load_page (mem (free_frame page s)) page = (load_page (mem s) page)\<lparr>fr := 0\<rparr>"
proof -
  have nz: "(of_nat f :: 20 word) \<noteq> 0"
    using f(2,3) by (simp add: word_unat_eq_iff unat_of_nat)
  have u: "(ucast (of_nat f :: 20 word) :: u32) = of_nat f"
    using f(3) by (simp add: word_unat_eq_iff unat_of_nat unsigned_ucast_eq take_bit_nat_eq_self)
  have "f div 4096 < 32 * sections s" using clear(2) by (rule le_less_trans [OF div_le_dividend])
  then have "load_page (mem (clear_frame (of_nat (f div 4096) * FRAME_SIZE) s)) page = load_page (mem s) page"
    using clear(1) f(3) by (intro set_frame_load_page) (auto intro: le_less_trans [OF div_le_dividend])
  then show ?thesis using f(1) nz u clear_frame_number [OF f(3), of s]
    by (simp add: free_frame_def Let_def)
qed

section \<open>Properties\<close>

text \<open>
  C19: \<^verbatim>\<open>alloc_frame\<close> on an entry without a frame gives it the lowest free frame, marks that
  frame and no other as used, and makes the entry present with the requested access. (That
  the page is outside the bitmap is the premise \<open>page_clear\<close>.)
\<close>

theorem alloc_frame_lowest:
  assumes "fr (load_page (mem s) page) = 0" "page_clear page s" "nframes s \<le> 0x10000"
    and "\<exists>f < 32 * sections s. \<not> used s f"
  shows "\<exists>f s'. alloc_frame page is_super is_write s = Inr s' \<and>
    f < 32 * sections s \<and> \<not> used s f \<and> (\<forall>g < f. used s g) \<and>
    (\<forall>g < 32 * sections s. used s' g \<longleftrightarrow> g = f \<or> used s g) \<and>
    load_page (mem s') page = (load_page (mem s) page)
      \<lparr>pr := 1, rw := (if is_write = 0 then 0 else 1), us := 0, fr := of_nat f\<rparr>"
proof -
  let ?p = "(load_page (mem s) page)\<lparr>pr := 1, rw := if is_write \<noteq> 0 then 1 else 0, us := 0\<rparr>"
  obtain f where f: "f \<le> 32 * sections s" "\<forall>g < f. used s g" "f < 32 * sections s \<longrightarrow> \<not> used s f"
    and run: "alloc_frame page is_super is_write s =
      Inr (set_frame (of_nat f * FRAME_SIZE) (s\<lparr>mem := store_page (mem s) page (?p\<lparr>fr := of_nat f\<rparr>)\<rparr>))"
    using alloc_frame_run [OF assms(1), of is_super is_write] by auto
  have less: "f < 32 * sections s" using f(1,2) assms(4) by (metis linorder_not_less order_le_less)
  have "unat (nframes s) \<le> 0x10000" using assms(3) by (simp add: word_le_nat_alt)
  then have small: "32 * sections s \<le> 2 ^ 16" by (simp add: sections_def unat_div)
  with less have lim: "f < 2 ^ 20" by simp
  let ?s1 = "s\<lparr>mem := store_page (mem s) page (?p\<lparr>fr := of_nat f\<rparr>)\<rparr>"
  let ?s' = "set_frame (of_nat f * FRAME_SIZE) ?s1"
  have "used ?s' g \<longleftrightarrow> g = f \<or> used s g" if "g < 32 * sections s" for g
    using that small frames.used_mark [OF lim, of g ?s1] store_page_used [OF assms(2), of g] by simp
  moreover have "load_page (mem ?s') page = ?p\<lparr>fr := of_nat f\<rparr>"
    using set_frame_load_page(1) [of page ?s1 f] assms(2) lim less by simp
  ultimately show ?thesis using run f less by (auto intro!: exI [of _ f])
qed

definition two_sections :: mm where
  "two_sections = tty.extend power_on \<lparr>placement_addr = 0x200000, kheap = None,
     frame_allocations = 0x1000, nframes = 64, kernel_directory = 0x2000,
     current_directory = 0x2000\<rparr>"

lemma two_sections_facts:
  "sections two_sections = 2" "page_clear 0x8000 two_sections" "mem two_sections = (\<lambda>_. 0)"
  "nframes two_sections = 64"
proof -
  show sec: "sections two_sections = 2"
    by (simp add: two_sections_def sections_def tty.defs power_on_def)
  show "page_clear 0x8000 two_sections"
    unfolding page_clear_def sec
    by (auto simp: less_2_cases_iff two_sections_def tty.defs power_on_def apart_def)
qed (simp_all add: two_sections_def tty.defs power_on_def)

theorem alloc_frame_lowest_witness:
  "\<exists>f s'. alloc_frame 0x8000 0 1 two_sections = Inr s' \<and> f < 64 \<and> used s' f \<and>
    pr (load_page (mem s') 0x8000) = 1"
proof -
  have "fr (load_page (mem two_sections) 0x8000) = 0"
    by (simp add: load_page_def read32_def decode_page_def two_sections_facts)
  moreover have "\<not> used two_sections 0"
    by (simp add: used_def get_slot_def two_sections_facts read32_def)
  then have "\<exists>f < 64. \<not> used two_sections f" by (metis zero_less_numeral)
  ultimately show ?thesis
    using alloc_frame_lowest [of two_sections "0x8000" 0 1] by (fastforce simp: two_sections_facts)
qed

text \<open>
  C37: \<^verbatim>\<open>free_frame\<close> hands the frame number to \<^verbatim>\<open>clear_frame\<close>, which takes an
  address: for a page that has a frame \<open>f\<close> in use other than frame 0 (the page entry outside the bitmap, and the
  bitmap covering \<open>f\<close>), the frame stays marked as used, the only bit
  that is cleared is that of frame \<open>f div 4096\<close>, and the entry stays present. So a freed frame is not available
  again, and another one, which may be in use, is.
\<close>

theorem free_frame_leaks:
  assumes "fr (load_page (mem s) page) = of_nat f" "0 < f" "f < 2 ^ 20"
    and "page_clear page s" "f < 32 * sections s" "used s f"
  shows "used (free_frame page s) f \<and>
    (\<forall>g < 32 * sections s. g < 2 ^ 20 \<longrightarrow> (used (free_frame page s) g \<longleftrightarrow> g \<noteq> f div 4096 \<and> used s g)) \<and>
    pr (load_page (mem (free_frame page s)) page) = pr (load_page (mem s) page)"
proof -
  have "f \<noteq> f div 4096" using assms(2) by simp
  then show ?thesis
    using free_frame_used [OF assms(1-4)] free_frame_entry [OF assms(1-5)] assms by simp
qed

theorem free_frame_leaks_witness:
  "used (free_frame 0x8000 (set_frame 0x5000 (two_sections
     \<lparr>mem := store_page (\<lambda>_. 0) 0x8000 ((decode_page 0)\<lparr>pr := 1, fr := 5\<rparr>)\<rparr>))) 5"
proof -
  let ?m = "store_page (\<lambda>_. 0) 0x8000 ((decode_page 0)\<lparr>pr := 1, fr := 5\<rparr>)"
  let ?t = "two_sections\<lparr>mem := ?m\<rparr>"
  let ?s = "set_frame 0x5000 ?t"
  have clear: "page_clear 0x8000 ?t" and sec: "sections ?t = 2" by (simp_all add: two_sections_facts)
  have "load_page (mem ?s) 0x8000 = load_page ?m 0x8000"
    using set_frame_load_page(1) [OF clear, of 5] sec by simp
  moreover have "sections ?s = 2" "page_clear 0x8000 ?s"
    using sec clear by (simp_all add: set_frame_def Let_def)
  moreover have "used ?s 5" using frames.used_mark [of 5 5 ?t] by simp
  ultimately show ?thesis
    using free_frame_leaks [of ?s "0x8000" 5] by simp
qed

text \<open>
  Exhaustion is not noticed: with every frame in use \<^verbatim>\<open>first_frame\<close> gives the number of
  frames, not the \<^verbatim>\<open>-1\<close> that \<^verbatim>\<open>alloc_frame\<close> compares it with, so there is no panic: the page is
  marked present with a frame behind the physical memory, and a bit is set in the word behind the bitmap.
\<close>

theorem frames_exhausted:
  assumes "fr (load_page (mem s) page) = 0" "nframes s \<le> 0x10000" "\<forall>f < 32 * sections s. used s f"
  shows "alloc_frame page is_super is_write s =
    (let m = store_page (mem s) page ((load_page (mem s) page)
           \<lparr>pr := 1, rw := (if is_write \<noteq> 0 then 1 else 0), us := 0, fr := of_nat (32 * sections s)\<rparr>);
         a = frame_allocations s + 4 * of_nat (sections s)
     in Inr (s\<lparr>mem := write32 m a (read32 m a OR 1)\<rparr>))"
proof -
  obtain f where f: "f \<le> 32 * sections s" "\<forall>g < f. used s g" "f < 32 * sections s \<longrightarrow> \<not> used s f"
    and run: "alloc_frame page is_super is_write s =
      Inr (set_frame (of_nat f * FRAME_SIZE) (s\<lparr>mem := store_page (mem s) page ((load_page (mem s) page)
        \<lparr>pr := 1, rw := if is_write \<noteq> 0 then 1 else 0, us := 0, fr := of_nat f\<rparr>)\<rparr>))"
    using alloc_frame_run [OF assms(1), of is_super is_write] by auto
  have all: "f = 32 * sections s" using f assms(3) by (metis order_le_less)
  have "unat (nframes s) \<le> 0x10000" using assms(2) by (simp add: word_le_nat_alt)
  then have small: "32 * sections s < 2 ^ 20" by (simp add: sections_def unat_div)
  from run [unfolded all set_frame_slot(1) [OF small]] show ?thesis by (simp add: Let_def get_slot_def put_slot_def)
qed

definition full_sections :: mm where
  "full_sections = two_sections\<lparr>mem := \<lambda>a. if 0x1000 \<le> a \<and> a < 0x1008 then 0xFF else 0\<rparr>"

lemma full_sections_facts:
  "sections full_sections = 2" "fr (load_page (mem full_sections) 0x8000) = 0" "\<forall>f < 64. used full_sections f"
proof -
  show "sections full_sections = 2" by (simp add: full_sections_def two_sections_facts)
  show "fr (load_page (mem full_sections) 0x8000) = 0"
    by (simp add: load_page_def read32_def decode_page_def full_sections_def)
  have fa: "frame_allocations full_sections = 0x1000" by (simp add: full_sections_def two_sections_def tty.defs)
  have slot: "get_slot 0x1000 (mem full_sections) i = 0xFFFFFFFF" if "i < 2" for i
    using that by (auto simp: less_2_cases_iff get_slot_def read32_def full_sections_def)
  have "bit (0xFFFFFFFF :: u32) n" if "n < 32" for n
    using full_section [of "0xFFFFFFFF"] that by simp
  then show "\<forall>f < 64. used full_sections f"
    using slot by (simp add: used_def fa less_mult_imp_div_less)
qed

theorem frames_exhausted_witness:
  "\<exists>m. alloc_frame 0x8000 0 0 full_sections = Inr (full_sections\<lparr>mem := m\<rparr>) \<and> bit (read32 m 0x1008) 0"
proof -
  have "nframes full_sections \<le> 0x10000" "frame_allocations full_sections = 0x1000"
    by (simp_all add: full_sections_def two_sections_facts) (simp add: two_sections_def tty.defs)
  then show ?thesis
    using frames_exhausted [of full_sections "0x8000" 0 0] full_sections_facts by (auto simp: Let_def bit_or_iff)
qed

end
