(* ===== verification/Kheap.thy ===== *)
theory Kheap
  imports Paging
begin

text \<open>
  The kernel heap: \<^verbatim>\<open>kernel/mem/kheap.c\<close>, with \<^verbatim>\<open>create_ordered_array\<close> and
  \<^verbatim>\<open>destroy_ordered_array\<close>, which allocate on it. Chunk headers and footers are in
  memory; the structure \<^verbatim>\<open>heap_t\<close> is the field \<open>kheap\<close> of the state (every call in
  the source passes the global \<^verbatim>\<open>kheap\<close>, so the parameter \<^verbatim>\<open>heap\<close> is that field).

  \<^verbatim>\<open>alloc\<close> calls itself after \<^verbatim>\<open>expand\<close>, and \<^verbatim>\<open>expand\<close> calls
  \<^verbatim>\<open>get_page\<close>, which calls \<^verbatim>\<open>kmalloc_ap\<close> and so \<^verbatim>\<open>alloc\<close> for a missing page
  table. The bodies take the inner \<^verbatim>\<open>alloc\<close> as an argument \<open>al\<close>; \<open>alloc n\<close> is
  the body with call depth at most \<open>n\<close>, and \<open>Inl Diverges\<close> if the depth does not
  suffice. A result for some depth is the result for every larger one (\<open>alloc_mono\<close>).
\<close>

section \<open>Chunks in memory\<close>

abbreviation HEAP_MAGIC :: u32 where "HEAP_MAGIC \<equiv> 0x123890AB"
abbreviation HEAP_MIN_SIZE :: u32 where "HEAP_MIN_SIZE \<equiv> 0x70000"
abbreviation HEAP_INDEX_SIZE :: u32 where "HEAP_INDEX_SIZE \<equiv> 0x20000"
abbreviation KHEAP_START :: u32 where "KHEAP_START \<equiv> 0xC0000000"
abbreviation KHEAP_INITIAL_SIZE :: u32 where "KHEAP_INITIAL_SIZE \<equiv> 0x100000"

text \<open>
  \<^verbatim>\<open>header_t\<close>: the magic number, the byte \<^verbatim>\<open>is_hole\<close> with three bytes of padding,
  the size; \<^verbatim>\<open>footer_t\<close>: the magic number and the pointer to the header.
\<close>

abbreviation header_size :: u32 where "header_size \<equiv> 12"
abbreviation footer_size :: u32 where "footer_size \<equiv> 8"

definition head_magic :: "memory \<Rightarrow> u32 \<Rightarrow> u32" where [layout]: "head_magic m h = read32 m h"
definition head_is_hole :: "memory \<Rightarrow> u32 \<Rightarrow> u8" where [layout]: "head_is_hole m h = read8 m (h + 4)"
definition head_bytes :: "memory \<Rightarrow> u32 \<Rightarrow> u32" where [layout]: "head_bytes m h = read32 m (h + 8)"
definition foot_magic :: "memory \<Rightarrow> u32 \<Rightarrow> u32" where [layout]: "foot_magic m f = read32 m f"
definition foot_header :: "memory \<Rightarrow> u32 \<Rightarrow> u32" where [layout]: "foot_header m f = read32 m (f + 4)"

definition set_head_magic :: "u32 \<Rightarrow> u32 \<Rightarrow> memory \<Rightarrow> memory" where
  [layout]: "set_head_magic h v m = write32 m h v"
definition set_head_is_hole :: "u32 \<Rightarrow> u8 \<Rightarrow> memory \<Rightarrow> memory" where
  [layout]: "set_head_is_hole h v m = write8 m (h + 4) v"
definition set_head_bytes :: "u32 \<Rightarrow> u32 \<Rightarrow> memory \<Rightarrow> memory" where
  [layout]: "set_head_bytes h v m = write32 m (h + 8) v"

definition write_header :: "u32 \<Rightarrow> u8 \<Rightarrow> u32 \<Rightarrow> memory \<Rightarrow> memory" where
  [layout]: "write_header h is_hole n m =
     set_head_bytes h n (set_head_is_hole h is_hole (set_head_magic h HEAP_MAGIC m))"

definition write_footer :: "u32 \<Rightarrow> u32 \<Rightarrow> memory \<Rightarrow> memory" where
  [layout]: "write_footer f h m = write32 (write32 m f HEAP_MAGIC) (f + 4) h"

section \<open>Access to the heap structure\<close>

definition the_heap :: "'a mm_scheme \<Rightarrow> kerror + heap_t" where
  "the_heap s = (case kheap s of None \<Rightarrow> Inl (Undefined_behaviour ''null heap'') | Some h \<Rightarrow> Inr h)"

definition heap_insert :: "u32 \<Rightarrow> 'a mm_scheme \<Rightarrow> kerror + 'a mm_scheme" where
  "heap_insert item s =
     bindE (the_heap s) (\<lambda>h.
     bindE (insert_ordered_array item (index h) (mem s)) (\<lambda>(a, m).
     Inr (s\<lparr>mem := m, kheap := Some (h\<lparr>index := a\<rparr>)\<rparr>)))"

definition heap_remove :: "u32 \<Rightarrow> 'a mm_scheme \<Rightarrow> kerror + 'a mm_scheme" where
  "heap_remove i s =
     bindE (the_heap s) (\<lambda>h.
     bindE (remove_ordered_array i (index h) (mem s)) (\<lambda>(a, m).
     Inr (s\<lparr>mem := m, kheap := Some (h\<lparr>index := a\<rparr>)\<rparr>)))"

text \<open>The loop that looks for a header in the index, as \<^verbatim>\<open>free\<close> has it twice.\<close>

definition find_header :: "u32 \<Rightarrow> heap_t \<Rightarrow> memory \<Rightarrow> kerror + u32" where
  "find_header x h m =
     while_res (\<lambda>it. it < oa_size (index h) \<and> lookup_ordered_array it (index h) m \<noteq> x)
       (\<lambda>it. Inr (it + 1)) 0"

definition header_t_less_than :: "memory \<Rightarrow> u32 \<Rightarrow> u32 \<Rightarrow> u8" where
  "header_t_less_than m a b = (if head_bytes m a < head_bytes m b then 1 else 0)"

section \<open>Allocation in pages: kmalloc\<close>

text \<open>
  The third argument is whether the caller passes a pointer for the physical address; the
  second component of the result is what is written through it. \<open>no_alloc\<close> is the
  allocation that \<^verbatim>\<open>get_page\<close> does not make when its argument \<^verbatim>\<open>make\<close> is 0.
\<close>

type_synonym 'a allocator = "u32 \<Rightarrow> u8 \<Rightarrow> 'a mm_scheme \<Rightarrow> kerror + u32 \<times> 'a mm_scheme"

definition no_alloc :: "'a mm_scheme \<Rightarrow> kerror + u32 \<times> u32 \<times> 'a mm_scheme" where
  "no_alloc s = Inl (Undefined_behaviour ''not called'')"

definition kmalloc_int ::
    "'a allocator \<Rightarrow> u32 \<Rightarrow> u32 \<Rightarrow> bool \<Rightarrow> 'a mm_scheme \<Rightarrow> kerror + u32 \<times> u32 \<times> 'a mm_scheme" where
  "kmalloc_int al sz align phys s =
     (if kheap s \<noteq> None then
        bindE (al sz (ucast align) s) (\<lambda>(addr, s1).
          if phys then
            bindE (get_page no_alloc addr 0 (kernel_directory s1) s1) (\<lambda>(page, s2).
              Inr (addr, ucast (fr (load_page (mem s2) page)) * 0x1000 + (addr AND 0xFFF), s2))
          else Inr (addr, 0, s1))
      else
        let s1 = (if align = 1 \<and> placement_addr s AND 0xFFFFF000 \<noteq> 0
                  then s\<lparr>placement_addr := (placement_addr s AND 0xFFFFF000) + 0x1000\<rparr> else s);
            ph = (if phys then placement_addr s1 else 0);
            tmp = placement_addr s1
        in Inr (tmp, ph, s1\<lparr>placement_addr := placement_addr s1 + sz\<rparr>))"

definition kmalloc_ap ::
    "'a allocator \<Rightarrow> u32 \<Rightarrow> 'a mm_scheme \<Rightarrow> kerror + u32 \<times> u32 \<times> 'a mm_scheme" where
  "kmalloc_ap al sz s = kmalloc_int al sz 1 True s"

definition kmalloc_p ::
    "'a allocator \<Rightarrow> u32 \<Rightarrow> 'a mm_scheme \<Rightarrow> kerror + u32 \<times> u32 \<times> 'a mm_scheme" where
  "kmalloc_p al sz s = kmalloc_int al sz 0 True s"

definition kmalloc_a :: "'a allocator \<Rightarrow> u32 \<Rightarrow> 'a mm_scheme \<Rightarrow> kerror + u32 \<times> 'a mm_scheme" where
  "kmalloc_a al sz s = bindE (kmalloc_int al sz 1 False s) (\<lambda>(addr, ph, s1). Inr (addr, s1))"

definition kmalloc :: "'a allocator \<Rightarrow> u32 \<Rightarrow> 'a mm_scheme \<Rightarrow> kerror + u32 \<times> 'a mm_scheme" where
  "kmalloc al sz s = bindE (kmalloc_int al sz 0 False s) (\<lambda>(addr, ph, s1). Inr (addr, s1))"

section \<open>Growing and shrinking\<close>

definition expand :: "'a allocator \<Rightarrow> u32 \<Rightarrow> 'a mm_scheme \<Rightarrow> kerror + 'a mm_scheme" where
  "expand al new_size s =
     bindE (the_heap s) (\<lambda>h.
     bindE (assertE ''new_size > heap->end_address - heap->start_address''
              (new_size > end_address h - start_address h)) (\<lambda>_.
     let new_size = (if new_size AND 0xFFFFF000 \<noteq> 0
                     then (new_size AND 0xFFFFF000) + 0x1000 else new_size)
     in bindE (assertE ''heap->start_address+new_size <= heap->max_address''
              (start_address h + new_size \<le> max_address h)) (\<lambda>_.
     bindE (while_res (\<lambda>(it, s). it < new_size)
         (\<lambda>(it, s). bindE (the_heap s) (\<lambda>h.
            bindE (get_page (kmalloc_ap al 4096) (start_address h + it) 1 (kernel_directory s) s)
              (\<lambda>(page, s1).
            bindE (alloc_frame page (if supervisor h \<noteq> 0 then 1 else 0) (if readonly h \<noteq> 0 then 0 else 1) s1)
              (\<lambda>s2. Inr (it + 0x1000, s2)))))
         (end_address h - start_address h, s)) (\<lambda>(it, s1).
     bindE (the_heap s1) (\<lambda>h1.
     Inr (s1\<lparr>kheap := Some (h1\<lparr>end_address := start_address h1 + new_size\<rparr>)\<rparr>))))))"

definition contract :: "u32 \<Rightarrow> 'a mm_scheme \<Rightarrow> kerror + u32 \<times> 'a mm_scheme" where
  "contract new_size s =
     bindE (the_heap s) (\<lambda>h.
     bindE (assertE ''new_size < heap->end_address-heap->start_address''
              (new_size < end_address h - start_address h)) (\<lambda>_.
     let new_size = (if new_size AND 0x1000 \<noteq> 0 then (new_size AND 0x1000) + 0x1000 else new_size);
         new_size = (if new_size < HEAP_MIN_SIZE then HEAP_MIN_SIZE else new_size);
         old_size = end_address h - start_address h
     in bindE (while_res (\<lambda>(it, s). new_size < it)
         (\<lambda>(it, s). bindE (get_page no_alloc (start_address h + it) 0 (kernel_directory s) s)
            (\<lambda>(page, s1). Inr (it - 0x1000, free_frame page s1)))
         (old_size - 0x1000, s)) (\<lambda>(it, s1).
     Inr (new_size, s1\<lparr>kheap := Some (h\<lparr>end_address := start_address h + new_size\<rparr>)\<rparr>))))"

section \<open>Searching\<close>

text \<open>The condition on which the loop of \<^verbatim>\<open>find_smallest_hole\<close> breaks.\<close>

definition hole_fits :: "u32 \<Rightarrow> u8 \<Rightarrow> memory \<Rightarrow> u32 \<Rightarrow> bool" where
  "hole_fits n page_align m head =
     (if page_align > 0 then
        let offset = (if (head + header_size) AND 0xFFFFF000 \<noteq> 0
                      then 0x1000 - (head + header_size) mod 0x1000 else 0)
        in head_bytes m head - offset \<ge> n
      else head_bytes m head \<ge> n)"

definition find_smallest_hole :: "u32 \<Rightarrow> u8 \<Rightarrow> heap_t \<Rightarrow> memory \<Rightarrow> kerror + u32" where
  "find_smallest_hole n page_align h m =
     bindE (while_res
        (\<lambda>it. it < oa_size (index h) \<and> \<not> hole_fits n page_align m (lookup_ordered_array it (index h) m))
        (\<lambda>it. Inr (it + 1)) 0)
      (\<lambda>it. if it = oa_size (index h) then Inr (-1) else Inr it)"

text \<open>The search of \<^verbatim>\<open>alloc\<close> for the hole at the highest address: index and address.\<close>

definition topmost_hole :: "heap_t \<Rightarrow> memory \<Rightarrow> kerror + u32" where
  "topmost_hole h m =
     bindE (while_res (\<lambda>(it, idx, value). it < oa_size (index h))
        (\<lambda>(it, idx, value). let tmp = lookup_ordered_array it (index h) m
           in Inr (if tmp > value then (it + 1, it, tmp) else (it + 1, idx, value)))
        (0, -1, 0 :: u32))
      (\<lambda>(it, idx, value). Inr idx)"

section \<open>Allocation\<close>

text \<open>
  The branch of \<^verbatim>\<open>alloc\<close> without a suitable hole: the heap grows by \<open>new_size\<close>
  bytes (rounded up to pages), and the new space is added to the hole at the highest address,
  or becomes a hole if there is none.
\<close>

definition alloc_grow :: "'a allocator \<Rightarrow> u32 \<Rightarrow> 'a mm_scheme \<Rightarrow> kerror + 'a mm_scheme" where
  "alloc_grow al new_size s =
     bindE (the_heap s) (\<lambda>h.
     let old_len = end_address h - start_address h; old_end_addr = end_address h
     in bindE (expand al (old_len + new_size) s) (\<lambda>s1.
     bindE (the_heap s1) (\<lambda>h1.
     let new_len = end_address h1 - start_address h1
     in bindE (topmost_hole h1 (mem s1)) (\<lambda>idx.
        if idx = -1 then
          let head = old_end_addr;
              m1 = write_header head 1 (new_len - old_len) (mem s1);
              m2 = write_footer (old_end_addr + head_bytes m1 head - footer_size) head m1
          in heap_insert head (s1\<lparr>mem := m2\<rparr>)
        else
          let head = lookup_ordered_array idx (index h1) (mem s1);
              m1 = set_head_bytes head (head_bytes (mem s1) head + (new_len - old_len)) (mem s1);
              m2 = write_footer (head + head_bytes m1 head - footer_size) head m1
          in Inr (s1\<lparr>mem := m2\<rparr>)))))"

text \<open>
  The rest of \<^verbatim>\<open>alloc\<close>, with the index \<open>it\<close> of a suitable hole. Three parts: how
  much of the hole is taken, the preparation of an aligned block, the headers that are written.
\<close>

definition fit_size :: "u32 \<Rightarrow> u32 \<Rightarrow> u32" where
  "fit_size sz hole_s =
     (let new_size = sz + header_size + footer_size
      in if hole_s - new_size < header_size + footer_size then sz + (hole_s - new_size) else sz)"

definition split_aligned :: "u32 \<Rightarrow> u32 \<Rightarrow> memory \<Rightarrow> u32 \<times> u32 \<times> memory" where
  "split_aligned origin_hole_p origin_hole_s m =
     (let new_loc = origin_hole_p + 0x1000 - (origin_hole_p AND 0xFFF) - header_size;
          m1 = write_header origin_hole_p 1 (0x1000 - (origin_hole_p AND 0xFFF) - header_size) m;
          m2 = write_footer (new_loc - header_size) origin_hole_p m1
      in (new_loc, origin_hole_s - head_bytes m2 origin_hole_p, m2))"

definition write_block :: "u32 \<Rightarrow> u32 \<Rightarrow> u32 \<Rightarrow> 'a mm_scheme \<Rightarrow> kerror + u32 \<times> 'a mm_scheme" where
  "write_block p sz hole_s s =
     (let new_size = sz + header_size + footer_size;
          m1 = write_header p 0 new_size (mem s);
          m2 = write_footer (p + header_size + sz) p m1
      in if hole_s - new_size > 0 then
           let hole_head = p + header_size + sz + footer_size;
               m3 = write_header hole_head 1 (hole_s - new_size) m2;
               hole_foot = hole_head + hole_s - new_size - footer_size
           in bindE (the_heap s) (\<lambda>h.
              let m4 = (if hole_foot < end_address h then write_footer hole_foot hole_head m3 else m3)
              in bindE (heap_insert hole_head (s\<lparr>mem := m4\<rparr>)) (\<lambda>s1. Inr (p + header_size, s1)))
         else Inr (p + header_size, s\<lparr>mem := m2\<rparr>))"

definition alloc_carve :: "u32 \<Rightarrow> u8 \<Rightarrow> u32 \<Rightarrow> 'a mm_scheme \<Rightarrow> kerror + u32 \<times> 'a mm_scheme" where
  "alloc_carve sz page_align it s =
     bindE (the_heap s) (\<lambda>h.
     let origin_hole_p = lookup_ordered_array it (index h) (mem s);
         origin_hole_s = head_bytes (mem s) origin_hole_p;
         sz = fit_size sz origin_hole_s
     in if page_align \<noteq> 0 \<and> origin_hole_p AND 0xFFFFF000 \<noteq> 0 then
          (case split_aligned origin_hole_p origin_hole_s (mem s) of (p, hole_s, m) \<Rightarrow>
             write_block p sz hole_s (s\<lparr>mem := m\<rparr>))
        else bindE (heap_remove it s) (\<lambda>s1. write_block origin_hole_p sz origin_hole_s s1))"

definition alloc_body :: "'a allocator \<Rightarrow> 'a allocator" where
  "alloc_body al sz page_align s =
     (let new_size = sz + header_size + footer_size
      in bindE (the_heap s) (\<lambda>h.
         bindE (find_smallest_hole new_size page_align h (mem s)) (\<lambda>it.
         if it = -1 then bindE (alloc_grow al new_size s) (\<lambda>s1. al sz page_align s1)
         else alloc_carve sz page_align it s)))"

primrec alloc :: "nat \<Rightarrow> 'a allocator" where
  "alloc 0 = (\<lambda>sz page_align s. Inl Diverges)"
| "alloc (Suc n) = alloc_body (alloc n)"

section \<open>Release\<close>

text \<open>
  \<^verbatim>\<open>free\<close> in the order of the source. Left unification gives the new header, the memory
  and whether the header must be added to the index; right unification gives the footer.
\<close>

definition unify_left :: "u32 \<Rightarrow> u32 \<Rightarrow> memory \<Rightarrow> u32 \<times> bool \<times> memory" where
  "unify_left head foot m =
     (let test_foot = head - footer_size
      in if foot_magic m test_foot = HEAP_MAGIC \<and> head_is_hole m (foot_header m test_foot) = 1 then
           let cache_s = head_bytes m head;
               head' = foot_header m test_foot;
               m1 = write32 m (foot + 4) head'
           in (head', False, set_head_bytes head' (head_bytes m1 head' + cache_s) m1)
         else (head, True, m))"

definition unify_right ::
    "u32 \<Rightarrow> u32 \<Rightarrow> u32 \<Rightarrow> 'a mm_scheme \<Rightarrow> kerror + u32 \<times> 'a mm_scheme" where
  "unify_right head foot test_foot s =
     (let test_head = foot + footer_size
      in if head_magic (mem s) test_head = HEAP_MAGIC \<and> head_is_hole (mem s) test_head \<noteq> 0 then
           let m1 = set_head_bytes head (head_bytes (mem s) head + head_bytes (mem s) test_head) (mem s);
               foot' = test_foot + head_bytes m1 test_head - footer_size
           in bindE (the_heap s) (\<lambda>h.
              bindE (find_header test_head h m1) (\<lambda>it.
              bindE (assertE ''it < heap->index.size'' (it < oa_size (index h))) (\<lambda>_.
              bindE (heap_remove it (s\<lparr>mem := m1\<rparr>)) (\<lambda>s1. Inr (foot', s1)))))
         else Inr (foot, s))"

definition contract_heap :: "u32 \<Rightarrow> u32 \<Rightarrow> 'a mm_scheme \<Rightarrow> kerror + 'a mm_scheme" where
  "contract_heap head test_head s =
     bindE (the_heap s) (\<lambda>h.
     let old_len = end_address h - start_address h
     in bindE (contract (head - start_address h) s) (\<lambda>(new_len, s1).
        if head_bytes (mem s1) head - (old_len - new_len) > 0 then
          let m1 = set_head_bytes head (head_bytes (mem s1) head - (old_len - new_len)) (mem s1);
              foot = head + head_bytes m1 head - footer_size
          in Inr (s1\<lparr>mem := write_footer foot head m1\<rparr>)
        else bindE (the_heap s1) (\<lambda>h1.
             bindE (find_header test_head h1 (mem s1)) (\<lambda>it.
             if it < oa_size (index h1) then heap_remove it s1 else Inr s1))))"

definition free :: "u32 \<Rightarrow> 'a mm_scheme \<Rightarrow> kerror + 'a mm_scheme" where
  "free p s =
     (if p = 0 then Inr s
      else
        let head = p - header_size;
            foot = head + head_bytes (mem s) head - footer_size
        in bindE (assertE ''head->magic == HEAP_MAGIC'' (head_magic (mem s) head = HEAP_MAGIC)) (\<lambda>_.
           bindE (assertE ''foot->magic == HEAP_MAGIC'' (foot_magic (mem s) foot = HEAP_MAGIC)) (\<lambda>_.
           let m1 = set_head_is_hole head 1 (mem s)
           in (case unify_left head foot m1 of (head', add, m2) \<Rightarrow>
              bindE (unify_right head' foot (head - footer_size) (s\<lparr>mem := m2\<rparr>)) (\<lambda>(foot', s1).
              bindE (the_heap s1) (\<lambda>h.
              bindE (if foot' + footer_size = end_address h
                     then contract_heap head' (foot + footer_size) s1 else Inr s1) (\<lambda>s2.
              if add then heap_insert head' s2 else Inr s2)))))))"

definition kfree :: "u32 \<Rightarrow> 'a mm_scheme \<Rightarrow> kerror + 'a mm_scheme" where
  "kfree p s = free p s"

section \<open>Creation\<close>

text \<open>
  \<^verbatim>\<open>create_heap\<close> allocates the 32 bytes of \<^verbatim>\<open>heap_t\<close> and returns the structure; it
  is stored in \<^verbatim>\<open>kheap\<close> by the caller. The structure is a record: the stores to its fields are not stores to the 32 bytes.
\<close>

definition create_heap ::
    "'a allocator \<Rightarrow> u32 \<Rightarrow> u32 \<Rightarrow> u32 \<Rightarrow> u8 \<Rightarrow> u8 \<Rightarrow> 'a mm_scheme \<Rightarrow> kerror + heap_t \<times> 'a mm_scheme" where
  "create_heap al start end_addr mx super ro s =
     bindE (kmalloc al 32 s) (\<lambda>(addr, s1).
     bindE (assertE ''start%0x1000 == 0'' (start mod 0x1000 = 0)) (\<lambda>_.
     bindE (assertE ''end_addr%0x1000 == 0'' (end_addr mod 0x1000 = 0)) (\<lambda>_.
     case place_ordered_array start HEAP_INDEX_SIZE header_t_less_than (mem s1) of (a, m1) \<Rightarrow>
     let start = start + 4 * HEAP_INDEX_SIZE;
         start = (if start AND 0xFFFFF000 \<noteq> 0 then (start AND 0xFFFFF000) + 0x1000 else start);
         m2 = write_header start 1 (end_addr - start) m1
     in bindE (insert_ordered_array start a m2) (\<lambda>(a', m3).
        Inr (\<lparr>index = a', start_address = start, end_address = end_addr, max_address = mx,
               supervisor = super, readonly = ro\<rparr>, s1\<lparr>mem := m3\<rparr>)))))"

text \<open>The two functions of \<^verbatim>\<open>ordered_array.c\<close> that allocate.\<close>

definition create_ordered_array ::
    "'a allocator \<Rightarrow> u32 \<Rightarrow> (memory \<Rightarrow> u32 \<Rightarrow> u32 \<Rightarrow> u8) \<Rightarrow> 'a mm_scheme \<Rightarrow>
     kerror + ordered_array \<times> 'a mm_scheme" where
  "create_ordered_array al max_size lt s =
     bindE (kmalloc al (max_size * 4) s) (\<lambda>(addr, s1).
       Inr (\<lparr>oa_array = addr, oa_size = 0, oa_max_size = max_size, oa_less_than = lt\<rparr>,
            s1\<lparr>mem := memset (mem s1) addr 0 (max_size * 4)\<rparr>))"

definition destroy_ordered_array :: "ordered_array \<Rightarrow> 'a mm_scheme \<Rightarrow> kerror + 'a mm_scheme" where
  "destroy_ordered_array a s = kfree (oa_array a) s"

section \<open>Call depth\<close>

definition below :: "'a allocator \<Rightarrow> 'a allocator \<Rightarrow> bool" where
  "below al al' \<longleftrightarrow> (\<forall>sz a s. approx (al sz a s) (al' sz a s))"

lemma approx_kmalloc_int: "below al al' \<Longrightarrow> approx (kmalloc_int al sz a ph s) (kmalloc_int al' sz a ph s)"
  by (auto simp: kmalloc_int_def below_def intro!: approx_bindE)

lemma approx_get_page:
  "(\<And>s. approx (km s) (km' s)) \<Longrightarrow> approx (get_page km addr mk dir s) (get_page km' addr mk dir s)"
  unfolding get_page_def Let_def by (auto intro!: approx_bindE)

lemma approx_expand: "below al al' \<Longrightarrow> approx (expand al n s) (expand al' n s)"
  unfolding expand_def Let_def
  by (auto intro!: approx_bindE approx_while_res approx_get_page approx_kmalloc_int
      simp: kmalloc_ap_def split: prod.split)

lemma approx_alloc_body: "below al al' \<Longrightarrow> below (alloc_body al) (alloc_body al')"
  unfolding below_def [of "alloc_body al"] alloc_body_def alloc_grow_def Let_def
  by (auto intro!: approx_bindE approx_expand simp: below_def [of al])

lemma below_alloc: "below (alloc n) (alloc (n + k))"
proof (induction n)
  case (Suc n)
  then show ?case using approx_alloc_body by simp
qed (simp add: below_def)

lemma alloc_mono:
  assumes "alloc n sz a s = Inr r" "n \<le> k"
  shows "alloc k sz a s = Inr r"
proof -
  obtain d where "k = n + d" using assms(2) by (metis le_add_diff_inverse)
  moreover have "approx (alloc n sz a s) (alloc (n + d) sz a s)"
    using below_alloc [of n d] unfolding below_def by blast
  ultimately show ?thesis using assms(1) by (simp add: approx_def)
qed

end
