(* ===== verification/Heap_Invariant.thy ===== *)
theory Heap_Invariant
  imports Kheap
begin

text \<open>
  The heap as a list of chunks. A chunk is \<open>(hole, n)\<close>: whether it is a hole, and its size in
  bytes with header and footer. \<open>heap_rep h m cs\<close> says that in the memory \<open>m\<close> the heap
  \<open>h\<close> consists of the chunks \<open>cs\<close>, from its start to its end address without gaps, and
  that its index holds exactly the addresses of the holes.

  \<^item> A chunk has at least 20 bytes, a header at its first byte and a footer in its last
    eight; only a hole at the very end may lack its footer (\<^verbatim>\<open>create_heap\<close> writes none).
  \<^item> The word before the first header is no magic number, so nothing is unified to the left
    of the heap.
  \<^item> The index array ends before that word and has room for more items than there can be holes.
\<close>

type_synonym chunk = "bool \<times> nat"

section \<open>Chunk lists\<close>

definition total :: "chunk list \<Rightarrow> nat" where
  "total cs = sum_list (map snd cs)"

lemma total_simps [simp]:
  "total [] = 0" "total (c # cs) = snd c + total cs" "total (xs @ ys) = total xs + total ys"
  by (simp_all add: total_def)

primrec holes :: "nat \<Rightarrow> chunk list \<Rightarrow> nat list" where
  "holes a [] = []"
| "holes a (c # cs) = (if fst c then [a] else []) @ holes (a + snd c) cs"

lemma holes_append [simp]: "holes a (xs @ ys) = holes a xs @ holes (a + total xs) ys"
  by (induction xs arbitrary: a) (simp_all add: add.assoc)

lemma holes_split:
  "x \<in> set (holes a cs) \<Longrightarrow> \<exists>pre k post. cs = pre @ (True, k) # post \<and> x = a + total pre"
proof (induction cs arbitrary: a)
  case (Cons c cs)
  show ?case
  proof (cases "x \<in> set (holes (a + snd c) cs)")
    case True
    from Cons.IH [OF this] obtain pre k post
      where "cs = pre @ (True, k) # post" "x = a + snd c + total pre" by blast
    then show ?thesis by (intro exI [of _ "c # pre"]) simp
  next
    case False
    with Cons.prems have "fst c \<and> x = a" by (auto split: if_splits)
    then show ?thesis by (intro exI [of _ "[]"]) (cases c; simp)
  qed
qed simp

lemma holes_bounds: "x \<in> set (holes a cs) \<Longrightarrow> \<forall>c \<in> set cs. 20 \<le> snd c \<Longrightarrow> a \<le> x \<and> x + 20 \<le> a + total cs"
  using holes_split [of x a cs] by auto

lemma length_holes: "\<forall>c \<in> set cs. 20 \<le> snd c \<Longrightarrow> 20 * length (holes a cs) \<le> total cs"
proof (induction cs arbitrary: a)
  case (Cons c cs)
  then have "20 * length (holes (a + snd c) cs) \<le> total cs" "20 \<le> snd c" by simp_all
  then show ?case by simp
qed simp

lemma holes_distinct: "\<forall>c \<in> set cs. 20 \<le> snd c \<Longrightarrow> distinct (holes a cs)"
proof (induction cs arbitrary: a)
  case (Cons c cs)
  then have "\<forall>x \<in> set (holes (a + snd c) cs). a + snd c \<le> x" using holes_bounds by auto
  with Cons show ?case by fastforce
qed simp

text \<open>The bytes of the blocks that belong to the users of the heap.\<close>

primrec user_bytes :: "nat \<Rightarrow> chunk list \<Rightarrow> u32 set" where
  "user_bytes a [] = {}"
| "user_bytes a (c # cs) =
     (if fst c then {} else region (a + 12) (a + snd c - 8)) \<union> user_bytes (a + snd c) cs"

lemma user_bytes_append [simp]: "user_bytes a (xs @ ys) = user_bytes a xs \<union> user_bytes (a + total xs) ys"
  by (induction xs arbitrary: a) (auto simp: add.assoc)

lemma user_bytes_within: "user_bytes a cs \<subseteq> region a (a + total cs)"
proof (induction cs arbitrary: a)
  case (Cons c cs)
  have "user_bytes (a + snd c) cs \<subseteq> region a (a + total (c # cs))"
    using Cons.IH [of "a + snd c"] by (auto simp: region_def)
  then show ?case by (auto simp: region_def)
qed simp

section \<open>Chunks in memory\<close>

definition head_ok :: "memory \<Rightarrow> nat \<Rightarrow> bool \<Rightarrow> nat \<Rightarrow> bool" where
  "head_ok m a hole n \<longleftrightarrow> head_magic m (of_nat a) = HEAP_MAGIC \<and>
     head_is_hole m (of_nat a) = (if hole then 1 else 0) \<and> head_bytes m (of_nat a) = of_nat n"

definition foot_ok :: "memory \<Rightarrow> nat \<Rightarrow> nat \<Rightarrow> bool" where
  "foot_ok m a n \<longleftrightarrow> foot_magic m (of_nat (a + n) - 8) = HEAP_MAGIC \<and>
     foot_header m (of_nat (a + n) - 8) = of_nat a"

text \<open>In \<open>tiles m a r cs\<close> the flag \<open>r\<close> says that more chunks follow.\<close>

primrec tiles :: "memory \<Rightarrow> nat \<Rightarrow> bool \<Rightarrow> chunk list \<Rightarrow> bool" where
  "tiles m a r [] \<longleftrightarrow> True"
| "tiles m a r (c # cs) \<longleftrightarrow> 20 \<le> snd c \<and> head_ok m a (fst c) (snd c) \<and>
     (foot_ok m a (snd c) \<or> fst c \<and> cs = [] \<and> \<not> r) \<and> tiles m (a + snd c) r cs"

lemma tiles_append [simp]:
  "tiles m a r (xs @ ys) \<longleftrightarrow> tiles m a (r \<or> ys \<noteq> []) xs \<and> tiles m (a + total xs) r ys"
  by (induction xs arbitrary: a) (simp_all add: add.assoc, blast)

lemma tiles_weaken: "tiles m a True cs \<Longrightarrow> tiles m a r cs"
  by (induction cs arbitrary: a) auto

lemma tiles_sizes: "tiles m a r cs \<Longrightarrow> \<forall>c \<in> set cs. 20 \<le> snd c"
  by (induction cs arbitrary: a) auto

lemma unat_of_nat_minus: "k \<le> x \<Longrightarrow> x < 2 ^ 32 \<Longrightarrow> unat (of_nat x - of_nat k :: u32) = x - k"
  using unat_of_nat_diff32 [of x k] by simp

lemma head_ok_cong:
  assumes "same_outside (region lo hi) m m'" "a + 12 \<le> lo \<or> hi \<le> a" "a + 12 < 2 ^ 32"
  shows "head_ok m' a hole n = head_ok m a hole n"
proof -
  have addr: "unat (of_nat a :: u32) = a" "unat (of_nat a + 4 :: u32) = a + 4"
    "unat (of_nat a + 8 :: u32) = a + 8"
    using assms(3) by (simp_all add: unat_add32)
  then have "read32 m' (of_nat a) = read32 m (of_nat a)" "read32 m' (of_nat a + 8) = read32 m (of_nat a + 8)"
    "read8 m' (of_nat a + 4) = read8 m (of_nat a + 4)"
    using assms by (auto intro!: same_outside_read32 same_outside_read8)
  then show ?thesis by (simp add: head_ok_def layout)
qed

lemma foot_ok_cong:
  assumes "same_outside (region lo hi) m m'" "a + n \<le> lo \<or> hi + 8 \<le> a + n" "8 \<le> a + n" "a + n < 2 ^ 32"
  shows "foot_ok m' a n = foot_ok m a n"
proof -
  have addr: "unat (of_nat (a + n) - 8 :: u32) = a + n - 8"
    using unat_of_nat_minus [OF assms(3,4)] by simp
  then have addr4: "unat (of_nat (a + n) - 8 + 4 :: u32) = a + n - 8 + 4"
    using assms(3,4) by (subst unat_add32) auto
  have "read32 m' (of_nat (a + n) - 8) = read32 m (of_nat (a + n) - 8)"
    "read32 m' (of_nat (a + n) - 8 + 4) = read32 m (of_nat (a + n) - 8 + 4)"
    using assms addr addr4 by (auto intro!: same_outside_read32)
  then show ?thesis by (simp add: foot_ok_def layout)
qed

lemma tiles_cong:
  "same_outside (region lo hi) m m' \<Longrightarrow> a + total cs \<le> lo \<or> hi \<le> a \<Longrightarrow> a + total cs < 2 ^ 32 \<Longrightarrow>
   tiles m a r cs \<Longrightarrow> tiles m' a r cs"
proof (induction cs arbitrary: a)
  case (Cons c cs)
  then have n: "20 \<le> snd c" by simp
  have "head_ok m' a (fst c) (snd c) = head_ok m a (fst c) (snd c)"
    using Cons.prems n by (intro head_ok_cong [OF Cons.prems(1)]) auto
  moreover have "foot_ok m' a (snd c) = foot_ok m a (snd c)"
    using Cons.prems n by (intro foot_ok_cong [OF Cons.prems(1)]) auto
  ultimately show ?case using Cons by (auto simp: add.assoc)
qed simp

text \<open>Rewriting one stretch of the heap.\<close>

lemma tiles_replace:
  assumes tiles: "tiles m a r (pre @ old @ post)" and fit: "a + total (pre @ old @ post) < 2 ^ 32"
    and chg: "same_outside (region (a + total pre) (a + total pre + total old)) m m'"
    and new: "tiles m' (a + total pre) (r \<or> post \<noteq> []) new"
    and size: "total new = total old" "new \<noteq> []" "old \<noteq> []"
  shows "tiles m' a r (pre @ new @ post)"
proof -
  have "tiles m a True pre" using tiles size(3) by simp
  moreover have "tiles m' a b pre" if "tiles m a b pre" for b
    using that fit by (intro tiles_cong [OF chg]) auto
  ultimately have "tiles m' a (r \<or> new @ post \<noteq> []) pre"
    using size(2) by simp
  moreover have "tiles m' (a + total pre + total old) r post"
    using tiles fit by (intro tiles_cong [OF chg]) (auto simp: add.assoc)
  ultimately show ?thesis using new size by (simp add: add.assoc)
qed

section \<open>Writing headers and footers\<close>

lemma same_outside_region_mono:
  "same_outside (region lo hi) m m' \<Longrightarrow> lo' \<le> lo \<Longrightarrow> hi \<le> hi' \<Longrightarrow> same_outside (region lo' hi') m m'"
  by (erule same_outside_mono) (auto simp: region_def)

lemma write_header_ok:
  assumes "a + 12 < 2 ^ 32"
  shows "head_ok (write_header (of_nat a) (if hole then 1 else 0) (of_nat n) m) a hole n"
    and "same_outside (region a (a + 12)) m (write_header (of_nat a) i w m)"
proof -
  show "head_ok (write_header (of_nat a) (if hole then 1 else 0) (of_nat n) m) a hole n"
    by (cases hole; simp add: head_ok_def layout read32_write32_apart read8_write32_apart
        read32_write8_apart apart_def one_le_word)
  have addr: "unat (of_nat a :: u32) = a" "unat (of_nat a + 4 :: u32) = a + 4"
    "unat (of_nat a + 8 :: u32) = a + 8"
    using assms by (simp_all add: unat_add32)
  have "of_nat a + 4 \<in> region a (a + 12)" by (simp add: region_def addr)
  moreover have "a + 12 \<le> 2 ^ 32" using assms by simp
  ultimately show "same_outside (region a (a + 12)) m (write_header (of_nat a) i w m)"
    unfolding layout using addr
    by (intro same_outside_trans [OF same_outside_trans [OF same_outside_write32 same_outside_write8]
          same_outside_write32]) simp_all
qed

lemma write_footer_ok:
  assumes "8 \<le> a + n" "a + n < 2 ^ 32"
  shows "foot_ok (write_footer (of_nat (a + n) - 8) (of_nat a) m) a n"
    and "same_outside (region (a + n - 8) (a + n)) m (write_footer (of_nat (a + n) - 8) x m)"
proof -
  show "foot_ok (write_footer (of_nat (a + n) - 8) (of_nat a) m) a n"
    by (simp add: foot_ok_def layout read32_write32_apart apart_def)
  have addr: "unat (of_nat (a + n) - 8 :: u32) = a + n - 8"
    using unat_of_nat_minus [OF assms] by simp
  then have addr4: "unat (of_nat (a + n) - 8 + 4 :: u32) = a + n - 8 + 4"
    using assms by (subst unat_add32) auto
  have "a + n \<le> 2 ^ 32" using assms by simp
  then show "same_outside (region (a + n - 8) (a + n)) m (write_footer (of_nat (a + n) - 8) x m)"
    unfolding layout using addr addr4 assms(1)
    by (intro same_outside_trans [OF same_outside_write32 same_outside_write32]) simp_all
qed

section \<open>The representation\<close>

definition index_ok :: "heap_t \<Rightarrow> nat \<Rightarrow> bool" where
  "index_ok h len \<longleftrightarrow> oa_max_size (index h) < 2 ^ 30 \<and> 8 \<le> unat (start_address h) \<and>
     unat (oa_array (index h)) + 4 * unat (oa_max_size (index h)) + 8 \<le> unat (start_address h) \<and>
     len + 40 \<le> 20 * unat (oa_max_size (index h))"

definition sentinel :: "heap_t \<Rightarrow> memory \<Rightarrow> bool" where
  "sentinel h m \<longleftrightarrow> foot_magic m (start_address h - 8) \<noteq> HEAP_MAGIC"

text \<open>The chunks, and an index that holds the addresses \<open>hs\<close>.\<close>

definition heap_at :: "heap_t \<Rightarrow> memory \<Rightarrow> chunk list \<Rightarrow> nat multiset \<Rightarrow> bool" where
  "heap_at h m cs hs \<longleftrightarrow> unat (start_address h) + total cs = unat (end_address h) \<and>
     tiles m (unat (start_address h)) False cs \<and>
     mset (entries (index h) m) = image_mset of_nat hs \<and> 20 * size hs \<le> total cs \<and>
     index_ok h (total cs) \<and> sentinel h m"

definition heap_rep :: "heap_t \<Rightarrow> memory \<Rightarrow> chunk list \<Rightarrow> bool" where
  "heap_rep h m cs \<longleftrightarrow> cs \<noteq> [] \<and> heap_at h m cs (mset (holes (unat (start_address h)) cs))"

definition index_region :: "heap_t \<Rightarrow> u32 set" where
  "index_region h = region (unat (oa_array (index h)))
     (unat (oa_array (index h)) + 4 * unat (oa_max_size (index h)))"

lemma span_region: "unat a + unat n \<le> 2 ^ 32 \<Longrightarrow> span a n \<subseteq> region (unat a) (unat a + unat n)"
proof
  fix x assume n: "unat a + unat n \<le> 2 ^ 32" and "x \<in> span a n"
  then have lt: "x - a < n" by (simp add: span_def)
  from region_offset [OF n lt] have "unat x = unat a + unat (x - a)" by simp
  with lt show "x \<in> region (unat a) (unat a + unat n)" by (simp add: region_def word_less_nat_alt)
qed

lemma heap_at_size: "heap_at h m cs hs \<Longrightarrow> unat (oa_size (index h)) = size hs"
proof -
  assume "heap_at h m cs hs"
  then have "size (mset (entries (index h) m)) = size hs" by (simp add: heap_at_def)
  then show ?thesis by simp
qed

lemma heap_at_room:
  assumes "heap_at h m cs hs"
  shows "oa_room (index h)" and "slots_of (index h) \<subseteq> index_region h"
    and "unat (oa_size (index h)) + 2 \<le> unat (oa_max_size (index h))"
proof -
  have len: "20 * unat (oa_size (index h)) \<le> total cs" and ok: "index_ok h (total cs)"
    using assms heap_at_size [OF assms] by (simp_all add: heap_at_def)
  then show room: "unat (oa_size (index h)) + 2 \<le> unat (oa_max_size (index h))"
    by (simp add: index_ok_def)
  have max: "unat (oa_max_size (index h)) < 2 ^ 30"
    using ok by (simp add: index_ok_def word_less_nat_alt)
  with room show "oa_room (index h)" by (simp add: oa_room_def)
  have "unat (oa_size (index h) + 1) = unat (oa_size (index h)) + 1"
    using room max by (subst unat_add32) auto
  then have n: "unat (4 * (oa_size (index h) + 1)) = 4 * (unat (oa_size (index h)) + 1)"
    using room max by (simp add: unat_word_ariths)
  have "unat (oa_array (index h)) + 4 * unat (oa_max_size (index h)) \<le> 2 ^ 32"
    using ok unat32_bound [of "start_address h"] by (simp add: index_ok_def)
  with n room have "span (oa_array (index h)) (4 * (oa_size (index h) + 1)) \<subseteq>
      region (unat (oa_array (index h))) (unat (oa_array (index h)) + unat (4 * (oa_size (index h) + 1)))"
    by (intro span_region) simp
  with n room show "slots_of (index h) \<subseteq> index_region h"
    by (force simp: slots_of_def index_region_def region_def)
qed

lemma entries_above:
  assumes at: "heap_at h m cs hs" and chg: "same_outside (region lo hi) m m'"
    and lo: "unat (start_address h) \<le> lo + 8"
  shows "entries (index h) m' = entries (index h) m"
proof (rule entries_cong)
  fix i assume i: "i < unat (oa_size (index h))"
  let ?b = "oa_array (index h)"
  have top: "unat ?b + 4 * unat (oa_max_size (index h)) + 8 \<le> unat (start_address h)"
    using at by (simp add: heap_at_def index_ok_def)
  have le: "i + 2 \<le> unat (oa_max_size (index h))" using i heap_at_room(3) [OF at] by simp
  have max: "unat (oa_max_size (index h)) < 2 ^ 30"
    using at by (simp add: heap_at_def index_ok_def word_less_nat_alt)
  have "unat (4 * of_nat i :: u32) = 4 * i" using le max by (simp add: unat_word_ariths)
  then have a: "unat (?b + 4 * of_nat i) = unat ?b + 4 * i"
    using top le unat32_bound [of "start_address h"] by (subst unat_add32) auto
  show "get_slot ?b m' i = get_slot ?b m i"
    unfolding get_slot_def using a le top lo unat32_bound [of "start_address h"]
    by (intro same_outside_read32 [OF chg]) auto
qed

lemma sentinel_cong:
  assumes "same_outside (region lo hi) m m'" "8 \<le> unat (start_address h)"
    and "unat (start_address h) \<le> lo \<or> hi + 8 \<le> unat (start_address h)"
  shows "sentinel h m' = sentinel h m"
proof -
  have "unat (start_address h - 8) = unat (start_address h) - 8"
    using assms(2) by (subst unat_sub32) auto
  then show ?thesis
    unfolding sentinel_def layout using assms(2,3) unat32_bound [of "start_address h"]
    by (subst same_outside_read32 [OF assms(1)]) auto
qed

lemma heap_at_replace:
  assumes at: "heap_at h m (pre @ old @ post) hs"
    and chg: "same_outside (region (unat (start_address h) + total pre)
      (unat (start_address h) + total pre + total old)) m m'"
    and new: "tiles m' (unat (start_address h) + total pre) (post \<noteq> []) new"
    and size: "total new = total old" "new \<noteq> []" "old \<noteq> []"
  shows "heap_at h m' (pre @ new @ post) hs"
proof -
  have fit: "unat (start_address h) + total (pre @ old @ post) < 2 ^ 32"
    using at unat32_bound [of "end_address h"] by (simp add: heap_at_def)
  have "tiles m (unat (start_address h)) False (pre @ old @ post)"
    using at by (simp only: heap_at_def)
  then have "tiles m' (unat (start_address h)) False (pre @ new @ post)"
    by (rule tiles_replace [OF _ fit chg _ size]) (use new in simp)
  moreover have "entries (index h) m' = entries (index h) m"
    by (rule entries_above [OF at chg]) simp
  moreover have "sentinel h m' = sentinel h m"
    using at by (intro sentinel_cong [OF chg]) (auto simp: heap_at_def index_ok_def)
  ultimately show ?thesis using at size(1) by (simp add: heap_at_def)
qed

section \<open>Operations on the index of the heap\<close>

lemma heap_at_index:
  assumes at: "heap_at h m cs hs" and chg: "same_outside (slots_of (index h)) m m'"
    and mset: "mset (entries (index h\<lparr>oa_size := n\<rparr>) m') = image_mset of_nat hs'"
    and size: "20 * size hs' \<le> total cs"
  shows "heap_at (h\<lparr>index := index h\<lparr>oa_size := n\<rparr>\<rparr>) m' cs hs'" and "same_outside (index_region h) m m'"
proof -
  show idx: "same_outside (index_region h) m m'"
    by (rule same_outside_mono [OF chg heap_at_room(2) [OF at]])
  have ok: "index_ok h (total cs)" using at by (simp add: heap_at_def)
  then have top: "unat (oa_array (index h)) + 4 * unat (oa_max_size (index h)) + 8 \<le> unat (start_address h)"
    by (simp add: index_ok_def)
  have "unat (start_address h) + total cs < 2 ^ 32"
    using at unat32_bound [of "end_address h"] by (simp add: heap_at_def)
  then have "tiles m' (unat (start_address h)) False cs"
    using at top by (intro tiles_cong [OF idx [unfolded index_region_def]]) (auto simp: heap_at_def)
  moreover have "sentinel h m' = sentinel h m"
    using ok top by (intro sentinel_cong [OF idx [unfolded index_region_def]]) (auto simp: index_ok_def)
  ultimately show "heap_at (h\<lparr>index := index h\<lparr>oa_size := n\<rparr>\<rparr>) m' cs hs'"
    using at mset size by (simp add: heap_at_def index_ok_def sentinel_def)
qed

text \<open>What the operations of the heap leave alone: everything but memory and heap structure.\<close>

definition heap_frame :: "u32 set \<Rightarrow> 'a mm_scheme \<Rightarrow> 'a mm_scheme \<Rightarrow> bool" where
  "heap_frame R s s' \<longleftrightarrow> same_outside R (mem s) (mem s') \<and> (\<exists>m k. s' = s\<lparr>mem := m, kheap := k\<rparr>)"

lemma heap_frameI: "same_outside R (mem s) m \<Longrightarrow> heap_frame R s (s\<lparr>mem := m, kheap := k\<rparr>)"
  by (auto simp: heap_frame_def)

lemma heap_frame_mem: "same_outside R (mem s) m \<Longrightarrow> heap_frame R s (s\<lparr>mem := m\<rparr>)"
  using heap_frameI [of R s m "kheap s"] by simp

lemma heap_frame_trans: "heap_frame R s s' \<Longrightarrow> heap_frame R s' s'' \<Longrightarrow> heap_frame R s s''"
  unfolding heap_frame_def by (auto intro: same_outside_trans) blast

lemma heap_frame_mono: "heap_frame R s s' \<Longrightarrow> R \<subseteq> S \<Longrightarrow> heap_frame S s s'"
  by (auto simp: heap_frame_def intro: same_outside_mono)

text \<open>The heap structure up to the number of items in the index.\<close>

definition same_heap :: "heap_t \<Rightarrow> heap_t \<Rightarrow> bool" where
  "same_heap h h' \<longleftrightarrow> (\<exists>n. h' = h\<lparr>index := index h\<lparr>oa_size := n\<rparr>\<rparr>)"

lemma same_heap_refl [simp]: "same_heap h h"
  unfolding same_heap_def by (intro exI [of _ "oa_size (index h)"]) simp

lemma same_heap_trans: "same_heap h h' \<Longrightarrow> same_heap h' h'' \<Longrightarrow> same_heap h h''"
  by (auto simp: same_heap_def) 

lemma same_heapD:
  assumes "same_heap h h'"
  shows "start_address h' = start_address h" "end_address h' = end_address h"
    "max_address h' = max_address h" "index_region h' = index_region h"
    "oa_less_than (index h') = oa_less_than (index h)" "oa_array (index h') = oa_array (index h)"
    "oa_max_size (index h') = oa_max_size (index h)"
  using assms by (auto simp: same_heap_def index_region_def)

lemma heap_at_insert:
  assumes k: "kheap s = Some h" and at: "heap_at h (mem s) cs hs"
    and size: "20 * (size hs + 1) \<le> total cs"
  shows "\<exists>s' h'. heap_insert (of_nat x) s = Inr s' \<and> kheap s' = Some h' \<and>
    same_heap h h' \<and> heap_at h' (mem s') cs (add_mset x hs) \<and>
    heap_frame (index_region h) s s'"
proof -
  let ?a = "index h\<lparr>oa_size := oa_size (index h) + 1\<rparr>"
  from insert_entries [OF heap_at_room(1) [OF at], of "of_nat x" "mem s"] obtain m'
    where ins: "insert_ordered_array (of_nat x) (index h) (mem s) = Inr (?a, m')"
      and out: "same_outside (slots_of (index h)) (mem s) m'" by blast
  from index.ins_mset [OF heap_at_room(1) [OF at] ins]
  have "mset (entries ?a m') = image_mset of_nat (add_mset x hs)" using at by (simp add: heap_at_def)
  from heap_at_index [OF at out this] size
  have "heap_at (h\<lparr>index := ?a\<rparr>) m' cs (add_mset x hs)" "same_outside (index_region h) (mem s) m'"
    by simp_all
  with k ins show ?thesis
    by (intro exI [of _ "s\<lparr>mem := m', kheap := Some (h\<lparr>index := ?a\<rparr>)\<rparr>"] exI [of _ "h\<lparr>index := ?a\<rparr>"])
      (auto simp: heap_insert_def the_heap_def heap_frameI same_heap_def)
qed

lemma heap_at_remove:
  assumes k: "kheap s = Some h" and at: "heap_at h (mem s) cs hs"
    and i: "i < unat (oa_size (index h))" and x: "x \<in># hs" "entries (index h) (mem s) ! i = of_nat x"
  shows "\<exists>s' h'. heap_remove (of_nat i) s = Inr s' \<and> kheap s' = Some h' \<and>
    same_heap h h' \<and> heap_at h' (mem s') cs (hs - {#x#}) \<and>
    heap_frame (index_region h) s s'"
proof -
  let ?a = "index h\<lparr>oa_size := oa_size (index h) - 1\<rparr>"
  from remove_entries [OF heap_at_room(1) [OF at] i, of "mem s"] obtain m'
    where del: "remove_ordered_array (of_nat i) (index h) (mem s) = Inr (?a, m')"
      and out: "same_outside (slots_of (index h)) (mem s) m'" by blast
  have "i < length (entries (index h) (mem s))" using i by simp
  from index.del_mset [OF heap_at_room(1) [OF at] this del]
  have "add_mset (of_nat x) (mset (entries ?a m')) = image_mset of_nat hs"
    using at x(2) by (simp add: heap_at_def)
  moreover have "image_mset of_nat hs = add_mset (of_nat x :: u32) (image_mset of_nat (hs - {#x#}))"
    using x(1) by (metis insert_DiffM image_mset_add_mset)
  ultimately have "mset (entries ?a m') = image_mset of_nat (hs - {#x#})" by simp
  moreover have "20 * size (hs - {#x#}) \<le> total cs"
    using at diff_subset_eq_self [of hs "{#x#}"] size_mset_mono [of "hs - {#x#}" hs]
    by (auto simp: heap_at_def)
  ultimately have "heap_at (h\<lparr>index := ?a\<rparr>) m' cs (hs - {#x#})" "same_outside (index_region h) (mem s) m'"
    using heap_at_index [OF at out] by simp_all
  with k del show ?thesis
    by (intro exI [of _ "s\<lparr>mem := m', kheap := Some (h\<lparr>index := ?a\<rparr>)\<rparr>"] exI [of _ "h\<lparr>index := ?a\<rparr>"])
      (auto simp: heap_remove_def the_heap_def heap_frameI same_heap_def)
qed

end
