(* ===== verification/Heap_Alloc.thy ===== *)
theory Heap_Alloc
  imports Heap_Invariant
begin

text \<open>
  Allocation (\<^verbatim>\<open>alloc\<close> without page alignment) on the list of chunks: the hole that is
  found, its division into a block and a rest, and the whole function.
\<close>

section \<open>The search\<close>

lemma find_smallest_hole_spec:
  assumes room: "oa_room (index h)"
  shows "(\<exists>i < unat (oa_size (index h)). hole_fits n a m (entries (index h) m ! i) \<and>
      (\<forall>j < i. \<not> hole_fits n a m (entries (index h) m ! j)) \<and>
      find_smallest_hole n a h m = Inr (of_nat i) \<and> (of_nat i :: u32) \<noteq> -1) \<or>
    (\<forall>e \<in> set (entries (index h) m). \<not> hole_fits n a m e) \<and> find_smallest_hole n a h m = Inr (-1)"
proof -
  let ?n = "oa_size (index h)" and ?es = "entries (index h) m"
  let ?P = "\<lambda>e. \<not> hole_fits n a m e"
  let ?k = "length (takeWhile ?P ?es)"
  have es: "?es = map (\<lambda>i. lookup_ordered_array (of_nat i) (index h) m) [0..<unat ?n]"
    by (simp add: entries_def lookup_ordered_array_def get_slot_def)
  have k: "?k \<le> unat ?n" using length_takeWhile_le [of ?P ?es] by simp
  have loop: "while_res (\<lambda>it. it < ?n \<and> ?P (lookup_ordered_array it (index h) m))
      (\<lambda>it. Inr (it + 1)) 0 = Inr (of_nat ?k)"
    using search_loop(1) [where g = "\<lambda>it. lookup_ordered_array it (index h) m" and n = ?n and P = ?P]
    unfolding es .
  have small: "unat ?n < 2 ^ 30" using room by (simp add: oa_room_def)
  with k have u: "unat (of_nat ?k :: u32) = ?k" by (intro unat_of_nat32) simp
  show ?thesis
  proof (cases "?k = unat ?n")
    case True
    then have "takeWhile ?P ?es = ?es" by (metis length_entries takeWhile_eq_take take_all order_refl)
    then have "\<forall>e \<in> set ?es. ?P e" by (metis set_takeWhileD)
    moreover have "(of_nat ?k :: u32) = ?n" using True by simp
    ultimately show ?thesis using loop by (simp add: find_smallest_hole_def)
  next
    case False
    with k have less: "?k < unat ?n" by simp
    then have "hole_fits n a m (?es ! ?k)" using nth_length_takeWhile [of ?P ?es] by simp
    moreover have "\<forall>j < ?k. ?P (?es ! j)" by (metis nth_mem set_takeWhileD takeWhile_nth)
    moreover have "(of_nat ?k :: u32) \<noteq> ?n" using less u by (metis less_irrefl)
    moreover have "(of_nat ?k :: u32) \<noteq> - 1"
    proof
      assume "(of_nat ?k :: u32) = - 1"
      then have "?k = 2 ^ 32 - 1" using u unat_minus32 [of 1] by simp
      with less small show False by simp
    qed
    ultimately show ?thesis using loop less by (intro disjI1 exI [of _ ?k]) (simp add: find_smallest_hole_def)
  qed
qed

lemma hole_entry:
  assumes "heap_rep h m cs" "i < unat (oa_size (index h))"
  obtains pre k post where "cs = pre @ (True, k) # post"
    and "entries (index h) m ! i = of_nat (unat (start_address h) + total pre)"
proof -
  let ?b = "unat (start_address h)"
  have "entries (index h) m ! i \<in># mset (entries (index h) m)"
    using assms(2) by (simp add: nth_mem)
  also have "mset (entries (index h) m) = image_mset of_nat (mset (holes ?b cs))"
    using assms(1) by (simp add: heap_rep_def heap_at_def)
  finally obtain x where "x \<in> set (holes ?b cs)" "entries (index h) m ! i = of_nat x" by auto
  with holes_split [of x ?b cs] that show thesis by blast
qed

lemma hole_in_index:
  assumes "heap_rep h m (pre @ (True, k) # post)"
  shows "\<exists>i < unat (oa_size (index h)). entries (index h) m ! i = of_nat (unat (start_address h) + total pre)"
proof -
  let ?x = "unat (start_address h) + total pre"
  have "mset (entries (index h) m) =
      image_mset of_nat (mset (holes (unat (start_address h)) (pre @ (True, k) # post)))"
    using assms by (simp add: heap_rep_def heap_at_def)
  then have "of_nat ?x \<in># mset (entries (index h) m)" by simp
  then show ?thesis by (metis in_set_conv_nth length_entries set_mset_mset)
qed

lemma hole_header:
  assumes "heap_at h m (pre @ (hole, k) # post) hs"
  shows "head_bytes m (of_nat (unat (start_address h) + total pre)) = of_nat k"
    and "k < 2 ^ 32" "unat (start_address h) + total pre + k + total post = unat (end_address h)"
    and "20 \<le> k"
proof -
  show "head_bytes m (of_nat (unat (start_address h) + total pre)) = of_nat k"
    using assms by (simp add: heap_at_def head_ok_def)
  show *: "unat (start_address h) + total pre + k + total post = unat (end_address h)"
    using assms by (simp add: heap_at_def)
  then show "k < 2 ^ 32" using unat32_bound [of "end_address h"] by simp
  show "20 \<le> k" using assms by (simp add: heap_at_def)
qed

section \<open>Dividing a hole\<close>

text \<open>
  The size of the block that is taken from a hole of \<open>k\<close> bytes: the whole hole, if the rest
  were too small for a header and a footer.
\<close>

definition block_size :: "nat \<Rightarrow> nat \<Rightarrow> nat" where
  "block_size n k = (if n + 40 \<le> k then n + 20 else k)"

lemma block_size_bounds:
  "n + 20 \<le> k \<Longrightarrow> n + 20 \<le> block_size n k \<and> block_size n k \<le> k \<and>
   (block_size n k = k \<or> block_size n k + 20 \<le> k)"
  by (simp add: block_size_def)

lemma fit_size_block:
  assumes "unat sz + 20 \<le> k" "k < 2 ^ 32"
  shows "unat (fit_size sz (of_nat k)) + 20 = block_size (unat sz) k"
proof -
  have "sz + 12 + 8 = sz + 20" by simp
  then have n: "unat (sz + 12 + 8) = unat sz + 20" using assms by (simp add: unat_add32)
  then have d: "unat (of_nat k - (sz + 12 + 8)) = k - (unat sz + 20)"
    using assms by (subst unat_sub32) auto
  show ?thesis
  proof (cases "k - (unat sz + 20) < 20")
    case True
    then have "of_nat k - (sz + 12 + 8) < 20" using d by (simp add: word_less_nat_alt)
    then have "fit_size sz (of_nat k) = sz + (of_nat k - (sz + 12 + 8))" by (simp add: fit_size_def)
    moreover have "unat (sz + (of_nat k - (sz + 12 + 8))) = unat sz + (k - (unat sz + 20))"
      using d assms by (subst unat_add32) auto
    ultimately show ?thesis using assms(1) True by (simp add: block_size_def)
  next
    case False
    then have "\<not> of_nat k - (sz + 12 + 8) < 20" using d by (simp add: word_less_nat_alt)
    then have "fit_size sz (of_nat k) = sz" by (simp add: fit_size_def)
    moreover from False have "unat sz + 40 \<le> k" by arith
    ultimately show ?thesis by (simp add: block_size_def)
  qed
qed

definition carved :: "nat \<Rightarrow> nat \<Rightarrow> chunk list" where
  "carved n k = (False, n) # (if n < k then [(True, k - n)] else [])"

lemma total_carved: "n \<le> k \<Longrightarrow> total (carved n k) = k"
  by (auto simp: carved_def)

lemma block_tiles:
  fixes a n :: nat and m :: memory
  defines "m1 \<equiv> write_header (of_nat a) 0 (of_nat n) m"
  defines "m2 \<equiv> write_footer (of_nat (a + n) - 8) (of_nat a) m1"
  assumes "20 \<le> n" "a + n < 2 ^ 32"
  shows "tiles m2 a r [(False, n)]" and "same_outside (region a (a + n)) m m2"
proof -
  have h: "head_ok m1 a False n" and o1: "same_outside (region a (a + 12)) m m1"
    using write_header_ok(1) [where a = a and m = m and hole = False and n = n] write_header_ok(2) [of a] assms by (simp_all add: m1_def)
  have f: "foot_ok m2 a n" and o2: "same_outside (region (a + n - 8) (a + n)) m1 m2"
    using write_footer_ok(1) [of a n] write_footer_ok(2) [of a n] assms by (simp_all add: m2_def)
  have "head_ok m2 a False n"
    using h head_ok_cong [OF o2, of a False n] assms by auto
  with f assms show "tiles m2 a r [(False, n)]" by simp
  show "same_outside (region a (a + n)) m m2"
    using assms by (intro same_outside_trans [OF same_outside_region_mono [OF o1] same_outside_region_mono [OF o2]])
      auto
qed

lemma hole_tiles:
  fixes a n :: nat and m :: memory
  defines "m1 \<equiv> write_header (of_nat a) 1 (of_nat n) m"
  defines "m2 \<equiv> write_footer (of_nat (a + n) - 8) (of_nat a) m1"
  assumes "20 \<le> n" "a + n < 2 ^ 32"
  shows "tiles m2 a r [(True, n)]" and "same_outside (region a (a + n)) m m2"
proof -
  have h: "head_ok m1 a True n" and o1: "same_outside (region a (a + 12)) m m1"
    using write_header_ok(1) [where a = a and m = m and hole = True and n = n] write_header_ok(2) [of a] assms by (simp_all add: m1_def)
  have f: "foot_ok m2 a n" and o2: "same_outside (region (a + n - 8) (a + n)) m1 m2"
    using write_footer_ok(1) [of a n] write_footer_ok(2) [of a n] assms by (simp_all add: m2_def)
  have "head_ok m2 a True n"
    using h head_ok_cong [OF o2, of a True n] assms by auto
  with f assms show "tiles m2 a r [(True, n)]" by simp
  show "same_outside (region a (a + n)) m m2"
    using assms by (intro same_outside_trans [OF same_outside_region_mono [OF o1] same_outside_region_mono [OF o2]])
      auto
qed

lemma write_block_rep:
  fixes s :: "'a mm_scheme" and h :: heap_t
  defines "b \<equiv> unat (start_address h)"
  assumes k: "kheap s = Some h" and at: "heap_at h (mem s) (pre @ (True, k) # post) hs"
    and n: "unat sz + 20 = n" "n = k \<or> n + 20 \<le> k"
    and size: "20 * (size hs + 1) \<le> total (pre @ (True, k) # post)"
  shows "\<exists>s' h'. write_block (of_nat (b + total pre)) sz (of_nat k) s =
      Inr (of_nat (b + total pre + 12), s') \<and> kheap s' = Some h' \<and> same_heap h h' \<and>
    heap_at h' (mem s') (pre @ carved n k @ post)
      (hs + (if n < k then {#b + total pre + n#} else {#})) \<and>
    heap_frame (index_region h \<union> region (b + total pre) (b + total pre + k)) s s'"
proof -
  define a where "a = b + total pre"
  have fit: "a + k < 2 ^ 32" "a + k \<le> unat (end_address h)"
    using hole_header(3) [OF at] unat32_bound [of "end_address h"] by (simp_all add: a_def b_def)
  have nk: "n \<le> k" "20 \<le> n" using n by auto
  have words: "sz + 12 + 8 = of_nat n" "of_nat a + 12 + sz = of_nat (a + n) - 8"
    "of_nat (a + n) - 8 + 8 = (of_nat (a + n) :: u32)"
    unfolding n(1) [symmetric] by (simp_all add: algebra_simps)
  let ?m1 = "write_header (of_nat a) 0 (of_nat n) (mem s)"
  let ?m2 = "write_footer (of_nat (a + n) - 8) (of_nat a) ?m1"
  have blk: "tiles ?m2 a True [(False, n)]" "same_outside (region a (a + n)) (mem s) ?m2"
    using nk fit by (intro block_tiles; simp)+
  show ?thesis
  proof (cases "n = k")
    case True
    have "heap_at h ?m2 (pre @ [(False, n)] @ post) hs"
      using heap_at_replace [where h = h and m = "mem s" and pre = pre and old = "[(True, k)]" and
          post = post and hs = hs and m' = ?m2 and new = "[(False, n)]"] at blk True
      by (auto simp: a_def b_def intro: tiles_weaken)
    moreover have "write_block (of_nat a) sz (of_nat k) s = Inr (of_nat (a + 12), s\<lparr>mem := ?m2\<rparr>)"
      unfolding write_block_def Let_def words using True by (simp add: add.commute)
    moreover have "heap_frame (index_region h \<union> region a (a + k)) s (s\<lparr>mem := ?m2\<rparr>)"
      using blk(2) True by (intro heap_frame_mem) (auto intro: same_outside_mono)
    ultimately show ?thesis
      using k True unfolding a_def [symmetric] by (intro exI [of _ "s\<lparr>mem := ?m2\<rparr>"] exI [of _ h]) (simp add: carved_def)
  next
    case False
    then have less: "n < k" "20 \<le> k - n" using n by auto
    let ?m3 = "write_header (of_nat (a + n)) 1 (of_nat (k - n)) ?m2"
    let ?m4 = "write_footer (of_nat (a + n + (k - n)) - 8) (of_nat (a + n)) ?m3"
    have rest: "tiles ?m4 (a + n) True [(True, k - n)]" "same_outside (region (a + n) (a + k)) ?m2 ?m4"
      using hole_tiles(1) [where n = "k - n" and a = "a + n" and m = ?m2 and r = True]
        hole_tiles(2) [where n = "k - n" and a = "a + n" and m = ?m2] less fit by simp_all
    have "tiles ?m4 a True [(False, n)]"
      using blk(1) less fit by (intro tiles_cong [OF rest(2)]) auto
    then have new: "tiles ?m4 a True (carved n k)"
      using rest(1) less by (simp add: carved_def)
    have out: "same_outside (region a (a + k)) (mem s) ?m4"
      using less by (intro same_outside_trans [OF same_outside_region_mono [OF blk(2)]
            same_outside_region_mono [OF rest(2)]]) auto
    have at4: "heap_at h ?m4 (pre @ carved n k @ post) hs"
      using heap_at_replace [where h = h and m = "mem s" and pre = pre and old = "[(True, k)]" and
          post = post and hs = hs and m' = ?m4 and new = "carved n k"] at new out
        total_carved [OF nk(1)]
      by (auto simp: a_def b_def carved_def intro: tiles_weaken)
    have tot: "total (pre @ carved n k @ post) = total (pre @ (True, k) # post)"
      using total_carved [OF nk(1)] by simp
    obtain s' h' where ins: "heap_insert (of_nat (a + n)) (s\<lparr>mem := ?m4\<rparr>) = Inr s'"
      "kheap s' = Some h'" "same_heap h h'"
      "heap_at h' (mem s') (pre @ carved n k @ post) (add_mset (a + n) hs)"
      "heap_frame (index_region h) (s\<lparr>mem := ?m4\<rparr>) s'"
      using heap_at_insert [of "s\<lparr>mem := ?m4\<rparr>" h "pre @ carved n k @ post" hs "a + n"] k at4 size tot
      by auto
    have diff: "of_nat k - of_nat n = (of_nat (k - n) :: u32)" 
      by (rule of_nat_diff32) (use less in simp)
    have pos: "0 < (of_nat (k - n) :: u32)"
      using of_nat_less32 [of 0 "k - n"] less fit by (simp del: of_nat_diff)
    have foot: "of_nat (a + n) + of_nat k - of_nat n - 8 = (of_nat (a + n + (k - n)) - 8 :: u32)"
      unfolding of_nat_add diff [symmetric] by simp
    have "unat (of_nat (a + n + (k - n)) - 8 :: u32) = a + k - 8"
      using unat_of_nat_minus [of 8 "a + n + (k - n)"] less fit by simp
    then have below: "(of_nat (a + n + (k - n)) - 8 :: u32) < end_address h"
      using fit less by (simp add: word_less_nat_alt)
    have "write_block (of_nat a) sz (of_nat k) s = Inr (of_nat (a + 12), s')"
      unfolding write_block_def Let_def words diff foot
      using pos below k ins(1)
      by (simp add: the_heap_def add.commute del: of_nat_diff of_nat_add) (simp add: add.commute)
    moreover have "heap_frame (index_region h \<union> region a (a + k)) s s'"
      by (rule heap_frame_trans [OF heap_frame_mem [OF same_outside_mono [OF out Un_upper2]]
            heap_frame_mono [OF ins(5) Un_upper1]])
    ultimately show ?thesis
      using ins less unfolding a_def [symmetric] by (intro exI [of _ s'] exI [of _ h']) simp
  qed
qed

section \<open>The whole allocation\<close>

lemma hole_fits_0: "hole_fits n 0 m e \<longleftrightarrow> n \<le> head_bytes m e"
  by (simp add: hole_fits_def)

lemma alloc_carve_rep:
  assumes k: "kheap s = Some h" and rep: "heap_rep h (mem s) (pre @ (True, k) # post)"
    and i: "i < unat (oa_size (index h))"
    and e: "entries (index h) (mem s) ! i = of_nat (unat (start_address h) + total pre)"
    and fit: "unat sz + 20 \<le> k"
  shows "\<exists>s' h'. alloc_carve sz 0 (of_nat i) s =
      Inr (of_nat (unat (start_address h) + total pre + 12), s') \<and>
    kheap s' = Some h' \<and> same_heap h h' \<and>
    heap_rep h' (mem s') (pre @ carved (block_size (unat sz) k) k @ post) \<and>
    heap_frame (index_region h \<union> region (unat (start_address h) + total pre)
      (unat (start_address h) + total pre + k)) s s'"
proof -
  let ?b = "unat (start_address h)"
  let ?x = "?b + total pre" and ?cs = "pre @ (True, k) # post"
  let ?hs = "mset (holes ?b ?cs)"
  have at: "heap_at h (mem s) ?cs ?hs" using rep by (simp add: heap_rep_def)
  have x: "?x \<in># ?hs" by simp
  from heap_at_remove [OF k at i x e] obtain s1 h1 where
    rem: "heap_remove (of_nat i) s = Inr s1" "kheap s1 = Some h1" "same_heap h h1"
      "heap_at h1 (mem s1) ?cs (?hs - {#?x#})" "heap_frame (index_region h) s s1" by blast
  note same1 = same_heapD [OF rem(3)]
  define sz' where "sz' = fit_size sz (of_nat k)"
  define n where "n = block_size (unat sz) k"
  have k32: "k < 2 ^ 32" by (rule hole_header(2) [OF at])
  have n_eq: "unat sz' + 20 = n" using fit_size_block [OF fit k32] by (simp add: n_def sz'_def)
  have n: "n = k \<or> n + 20 \<le> k" using block_size_bounds [OF fit] by (simp add: n_def)
  have "size (?hs - {#?x#}) + 1 = size ?hs" using multi_member_split [OF x] by auto
  then have "20 * (size (?hs - {#?x#}) + 1) \<le> total ?cs" using at by (simp add: heap_at_def)
  from write_block_rep [OF rem(2,4) n_eq n this] obtain s2 h2 where
    w: "write_block (of_nat ?x) sz' (of_nat k) s1 = Inr (of_nat (?x + 12), s2)"
      "kheap s2 = Some h2" "same_heap h1 h2"
      "heap_at h2 (mem s2) (pre @ carved n k @ post)
         (?hs - {#?x#} + (if n < k then {#?x + n#} else {#}))"
      "heap_frame (index_region h \<union> region ?x (?x + k)) s1 s2"
    unfolding same1 by blast
  have hd: "head_bytes (mem s) (of_nat ?x) = of_nat k" by (rule hole_header(1) [OF at])
  have "i < 2 ^ 32" using i unat32_bound [of "oa_size (index h)"] by simp
  then have look: "lookup_ordered_array (of_nat i) (index h) (mem s) = of_nat ?x"
    using lookup_entries [of "of_nat i" "index h" "mem s"] i e by (simp add: word_less_nat_alt)
  have "alloc_carve sz 0 (of_nat i) s = Inr (of_nat (?x + 12), s2)"
    unfolding alloc_carve_def Let_def
    by (simp only: the_heap_def k option.case bindE_simps look hd sz'_def [symmetric] rem(1) w(1))
      simp
  moreover have hs: "?hs - {#?x#} + (if n < k then {#?x + n#} else {#}) =
      mset (holes ?b (pre @ carved n k @ post))"
    using n by (auto simp: carved_def add.assoc)
  have "heap_rep h2 (mem s2) (pre @ carved n k @ post)"
    using w(4) same_heapD [OF w(3)] same1 unfolding hs by (simp add: heap_rep_def) (simp add: carved_def)
  moreover have "heap_frame (index_region h \<union> region ?x (?x + k)) s s2"
    by (rule heap_frame_trans [OF heap_frame_mono [OF rem(5) Un_upper1] w(5)])
  ultimately show ?thesis
    using w(2) same_heap_trans [OF rem(3) w(3)] unfolding n_def by blast
qed

text \<open>
  One call suffices if some hole is large enough. The hole taken is the first in the index that
  is; if the index is sorted by size, no hole that is large enough is smaller.
\<close>

lemma alloc_rep:
  assumes k: "kheap s = Some h" and rep: "heap_rep h (mem s) cs"
    and hole: "(True, k0) \<in> set cs" "unat sz + 20 \<le> k0"
  shows "\<exists>pre k post s' h'. cs = pre @ (True, k) # post \<and> unat sz + 20 \<le> k \<and>
    alloc (Suc d) sz 0 s = Inr (of_nat (unat (start_address h) + total pre + 12), s') \<and>
    kheap s' = Some h' \<and> same_heap h h' \<and>
    heap_rep h' (mem s') (pre @ carved (block_size (unat sz) k) k @ post) \<and>
    heap_frame (index_region h \<union> region (unat (start_address h) + total pre)
      (unat (start_address h) + total pre + k)) s s' \<and>
    (sorted (map (head_bytes (mem s)) (entries (index h) (mem s))) \<longrightarrow>
      (\<forall>k'. (True, k') \<in> set cs \<longrightarrow> unat sz + 20 \<le> k' \<longrightarrow> k \<le> k'))"
proof -
  let ?b = "unat (start_address h)" and ?m = "mem s" and ?es = "entries (index h) (mem s)"
  have at: "heap_at h ?m cs (mset (holes ?b cs))" using rep by (simp add: heap_rep_def)
  have sz: "sz + 12 + 8 = sz + 20" by simp
  have k0: "k0 < 2 ^ 32" using hole_header(2) at hole(1) by (metis split_list)
  then have u: "unat (sz + 20) = unat sz + 20" using hole(2) by (subst unat_add32) auto
  have indexed: "\<exists>j < unat (oa_size (index h)). head_bytes ?m (?es ! j) = of_nat k' \<and> k' < 2 ^ 32"
    if mem: "(True, k') \<in> set cs" for k'
  proof -
    obtain pre post where cs: "cs = pre @ (True, k') # post" using split_list [OF mem] by blast
    then show ?thesis
      using hole_in_index [OF rep [unfolded cs]] hole_header(1,2) [OF at [unfolded cs]] by auto
  qed
  from indexed [OF hole(1)] obtain j where "j < unat (oa_size (index h))" "hole_fits (sz + 20) 0 ?m (?es ! j)"
    using hole(2) u by (auto simp: hole_fits_0 word_le_nat_alt)
  then have "\<not> (\<forall>e \<in> set ?es. \<not> hole_fits (sz + 20) 0 ?m e)" by (metis length_entries nth_mem)
  with find_smallest_hole_spec [OF heap_at_room(1) [OF at], of "sz + 20" 0 ?m] obtain i where
    i: "i < unat (oa_size (index h))" "hole_fits (sz + 20) 0 ?m (?es ! i)"
      "\<forall>j < i. \<not> hole_fits (sz + 20) 0 ?m (?es ! j)"
      "find_smallest_hole (sz + 20) 0 h ?m = Inr (of_nat i)" "(of_nat i :: u32) \<noteq> - 1" by blast
  from hole_entry [OF rep i(1)] obtain pre k post where
    cs: "cs = pre @ (True, k) # post" "?es ! i = of_nat (?b + total pre)" by blast
  have size: "head_bytes ?m (?es ! i) = of_nat k" "k < 2 ^ 32"
    using hole_header(1,2) [OF at [unfolded cs(1)]] cs(2) by simp_all
  then have fit: "unat sz + 20 \<le> k"
    using i(2) u by (simp add: hole_fits_0 word_le_nat_alt)
  have best: "k \<le> k'" if "sorted (map (head_bytes ?m) ?es)" "(True, k') \<in> set cs" "unat sz + 20 \<le> k'" for k'
  proof -
    from indexed [OF that(2)] obtain j where
      j: "j < unat (oa_size (index h))" "head_bytes ?m (?es ! j) = of_nat k'" "k' < 2 ^ 32" by blast
    then have "hole_fits (sz + 20) 0 ?m (?es ! j)" using that(3) u by (simp add: hole_fits_0 word_le_nat_alt)
    with i(3) have "i \<le> j" by (metis linorder_not_less)
    from sorted_nth_mono [OF that(1) this] i(1) j(1)
    have "head_bytes ?m (?es ! i) \<le> head_bytes ?m (?es ! j)" by simp
    then show "k \<le> k'" using size j by (simp add: of_nat_le32)
  qed
  have run: "alloc (Suc d) sz 0 s = alloc_carve sz 0 (of_nat i) s"
    using i(5) by (simp only: alloc.simps alloc_body_def Let_def the_heap_def k option.case bindE_simps
        sz i(4) if_False)
  from alloc_carve_rep [OF k rep [unfolded cs(1)] i(1) cs(2) fit] obtain s' h' where
    r: "alloc (Suc d) sz 0 s = Inr (of_nat (?b + total pre + 12), s')"
      "kheap s' = Some h' \<and> same_heap h h' \<and>
       heap_rep h' (mem s') (pre @ carved (block_size (unat sz) k) k @ post) \<and>
       heap_frame (index_region h \<union> region (?b + total pre) (?b + total pre + k)) s s'"
    unfolding run [symmetric] by blast
  have "sorted (map (head_bytes ?m) ?es) \<longrightarrow>
      (\<forall>k'. (True, k') \<in> set cs \<longrightarrow> unat sz + 20 \<le> k' \<longrightarrow> k \<le> k')" using best by blast
  with r cs(1) fit show ?thesis
    by (intro exI [of _ pre] exI [of _ k] exI [of _ post] exI [of _ s'] exI [of _ h']) blast
qed

end
