(* ===== verification/Heap_Free.thy ===== *)
theory Heap_Free
  imports Heap_Alloc
begin

text \<open>
  Release (\<^verbatim>\<open>free\<close>) on the list of chunks: unification with a hole on the left, with the
  last hole on the right, and the whole function for a block that is not the last chunk.
\<close>

section \<open>Changing headers\<close>

lemma set_head_bytes_ok:
  assumes "head_ok m a hole n" "a + 12 < 2 ^ 32"
  shows "head_ok (set_head_bytes (of_nat a) (of_nat k) m) a hole k"
    and "same_outside (region a (a + 12)) m (set_head_bytes (of_nat a) w m)"
proof -
  show "head_ok (set_head_bytes (of_nat a) (of_nat k) m) a hole k"
    using assms(1) by (simp add: head_ok_def layout read32_write32_apart read8_write32_apart apart_def)
  have "unat (of_nat a + 8 :: u32) = a + 8" using assms(2) by (simp add: unat_add32)
  with assms(2) show "same_outside (region a (a + 12)) m (set_head_bytes (of_nat a) w m)"
    unfolding layout by (intro same_outside_write32) auto
qed

lemma set_head_is_hole_ok:
  assumes "head_ok m a hole n" "a + 12 < 2 ^ 32"
  shows "head_ok (set_head_is_hole (of_nat a) 1 m) a True n"
    and "same_outside (region a (a + 12)) m (set_head_is_hole (of_nat a) w m)"
proof -
  show "head_ok (set_head_is_hole (of_nat a) 1 m) a True n"
    using assms(1) by (simp add: head_ok_def layout read32_write8_apart apart_def one_le_word)
  have "unat (of_nat a + 4 :: u32) = a + 4" using assms(2) by (simp add: unat_add32)
  then show "same_outside (region a (a + 12)) m (set_head_is_hole (of_nat a) w m)"
    unfolding layout by (intro same_outside_write8) (simp add: region_def)
qed

text \<open>A footer that is redirected to another header.\<close>

lemma redirect_footer_ok:
  assumes "foot_ok m a n" "8 \<le> a + n" "a + n < 2 ^ 32" "a' + n' = a + n"
  shows "foot_ok (write32 m (of_nat (a + n) - 8 + 4) (of_nat a')) a' n'"
    and "same_outside (region (a + n - 8) (a + n)) m (write32 m (of_nat (a + n) - 8 + 4) w)"
proof -
  show "foot_ok (write32 m (of_nat (a + n) - 8 + 4) (of_nat a')) a' n'"
    using assms(1) unfolding foot_ok_def assms(4) by (simp add: layout read32_write32_apart apart_def)
  have "unat (of_nat (a + n) - 8 :: u32) = a + n - 8"
    using unat_of_nat_minus [OF assms(2,3)] by simp
  then have "unat (of_nat (a + n) - 8 + 4 :: u32) = a + n - 8 + 4"
    using assms(2,3) by (subst unat_add32) auto
  with assms show "same_outside (region (a + n - 8) (a + n)) m (write32 m (of_nat (a + n) - 8 + 4) w)"
    by (intro same_outside_write32) auto
qed

section \<open>The chunks after a release\<close>

definition left_hole :: "chunk list \<Rightarrow> bool" where
  "left_hole pre \<longleftrightarrow> pre \<noteq> [] \<and> fst (last pre)"

definition coalesce :: "chunk list \<Rightarrow> nat \<Rightarrow> chunk list \<times> nat" where
  "coalesce pre n = (if left_hole pre then (butlast pre, snd (last pre) + n) else (pre, n))"

definition released :: "chunk list \<Rightarrow> nat \<Rightarrow> chunk list \<Rightarrow> chunk list" where
  "released pre n post = (case coalesce pre n of (pre', N) \<Rightarrow>
     (case post of [(True, k)] \<Rightarrow> pre' @ [(True, N + k)] | _ \<Rightarrow> pre' @ (True, N) # post))"

lemma left_hole_cases:
  "(\<And>pre' k. pre = pre' @ [(True, k)] \<Longrightarrow> coalesce pre n = (pre', k + n) \<Longrightarrow> left_hole pre \<Longrightarrow> P) \<Longrightarrow>
   (\<not> left_hole pre \<Longrightarrow> coalesce pre n = (pre, n) \<Longrightarrow> P) \<Longrightarrow> P"
  by (cases "left_hole pre"; cases pre rule: rev_cases) (auto simp: left_hole_def coalesce_def)

section \<open>Left unification\<close>

lemma unify_left_none:
  assumes at: "heap_at h m (pre @ c # post) hs" and "\<not> left_hole pre"
  shows "unify_left (of_nat (unat (start_address h) + total pre)) foot m =
    (of_nat (unat (start_address h) + total pre), True, m)"
proof (cases pre rule: rev_cases)
  case Nil
  with at show ?thesis by (simp add: unify_left_def heap_at_def sentinel_def)
next
  case (snoc pre' d)
  let ?a = "unat (start_address h) + total pre'"
  obtain k where d: "d = (False, k)" using assms(2) snoc by (cases d) (auto simp: left_hole_def)
  have "foot_ok m ?a k" "head_ok m ?a False k"
    using at snoc d by (simp_all add: heap_at_def)
  then show ?thesis using snoc d by (simp add: unify_left_def foot_ok_def head_ok_def add.assoc)
qed

lemma unify_left_hole:
  fixes h :: heap_t
  defines "b \<equiv> unat (start_address h)"
  assumes at: "heap_at h m (pre @ (True, k) # (True, n) # post) hs"
    and foot: "foot_ok m (b + total pre + k) n"
  shows "\<exists>m'. unify_left (of_nat (b + total pre + k)) (of_nat (b + total pre + k + n) - 8) m =
      (of_nat (b + total pre), False, m') \<and> heap_at h m' (pre @ (True, k + n) # post) hs \<and>
    foot_ok m' (b + total pre) (k + n) \<and>
    same_outside (region (b + total pre) (b + total pre + k + n)) m m'"
proof -
  let ?a = "b + total pre"
  let ?m1 = "write32 m (of_nat (?a + k + n) - 8 + 4) (of_nat ?a)"
  let ?m2 = "set_head_bytes (of_nat ?a) (of_nat (k + n)) ?m1"
  have kn: "20 \<le> k" "20 \<le> n" and heads: "head_ok m ?a True k" "head_ok m (?a + k) True n"
    and lfoot: "foot_ok m ?a k"
    using at by (simp_all add: heap_at_def b_def)
  have fit: "?a + k + n < 2 ^ 32"
    using at unat32_bound [of "end_address h"] by (simp add: heap_at_def b_def)
  have foot1: "foot_ok ?m1 ?a (k + n)" and out1: "same_outside (region (?a + k + n - 8) (?a + k + n)) m ?m1"
    using redirect_footer_ok(1) [OF foot, of ?a "k + n"] redirect_footer_ok(2) [OF foot] kn fit
    by (simp_all add: add.assoc)
  have head1: "head_ok ?m1 ?a True k"
    using heads(1) head_ok_cong [OF out1, of ?a True k] kn fit by auto
  have bytes: "head_bytes ?m1 (of_nat ?a) + head_bytes m (of_nat (?a + k)) = of_nat (k + n)"
    using head1 heads(2) by (simp add: head_ok_def)
  have head2: "head_ok ?m2 ?a True (k + n)" and out2: "same_outside (region ?a (?a + 12)) ?m1 ?m2"
    using set_head_bytes_ok(1) [OF head1, of "k + n"] set_head_bytes_ok(2) [OF head1] kn fit by simp_all
  have foot2: "foot_ok ?m2 ?a (k + n)"
    using foot1 foot_ok_cong [OF out2, of ?a "k + n"] kn fit by (simp add: add.assoc)
  have out: "same_outside (region ?a (?a + k + n)) m ?m2"
    using kn by (intro same_outside_trans [OF same_outside_region_mono [OF out1]
          same_outside_region_mono [OF out2]]) auto
  have run: "unify_left (of_nat (?a + k)) (of_nat (?a + k + n) - 8) m = (of_nat ?a, False, ?m2)"
    using lfoot heads(1) bytes by (simp add: unify_left_def foot_ok_def head_ok_def Let_def)
  have "heap_at h ?m2 (pre @ [(True, k + n)] @ post) hs"
    using heap_at_replace [where h = h and m = m and pre = pre and old = "[(True, k), (True, n)]" and
        post = post and hs = hs and m' = ?m2 and new = "[(True, k + n)]"] at out head2 foot2 kn
    by (simp add: b_def add.assoc)
  with run foot2 out show ?thesis by (intro exI [of _ ?m2]) simp
qed

lemma unify_left_rep:
  fixes h :: heap_t
  defines "b \<equiv> unat (start_address h)"
  assumes at: "heap_at h m (pre @ (True, n) # post) hs" and foot: "foot_ok m (b + total pre) n"
    and co: "coalesce pre n = (pre', N)"
  shows "\<exists>m'. unify_left (of_nat (b + total pre)) (of_nat (b + total pre + n) - 8) m =
      (of_nat (b + total pre'), \<not> left_hole pre, m') \<and> heap_at h m' (pre' @ (True, N) # post) hs \<and>
    foot_ok m' (b + total pre') N \<and> total pre' + N = total pre + n \<and>
    same_outside (region (b + total pre') (b + total pre' + N)) m m'"
proof (rule left_hole_cases [of pre n])
  fix pre1 k assume pre: "pre = pre1 @ [(True, k)]" "coalesce pre n = (pre1, k + n)" "left_hole pre"
  have "heap_at h m (pre1 @ (True, k) # (True, n) # post) hs" using at pre by simp
  moreover have "pre' = pre1" "N = k + n" using pre co by simp_all
  ultimately show ?thesis
    using unify_left_hole [of h m pre1 k n post hs] foot pre by (simp add: b_def add.assoc del: of_nat_add)
next
  assume pre: "\<not> left_hole pre" "coalesce pre n = (pre, n)"
  with unify_left_none [OF at pre(1)] at foot co show ?thesis by (simp add: b_def)
qed

section \<open>Right unification\<close>

lemma find_header_spec:
  assumes room: "oa_room (index h)" and x: "x \<in> set (entries (index h) m)"
  shows "\<exists>i < unat (oa_size (index h)). find_header x h m = Inr (of_nat i) \<and> entries (index h) m ! i = x"
proof -
  let ?n = "oa_size (index h)" and ?es = "entries (index h) m"
  let ?k = "length (takeWhile (\<lambda>e. e \<noteq> x) ?es)"
  have es: "?es = map (\<lambda>i. lookup_ordered_array (of_nat i) (index h) m) [0..<unat ?n]"
    by (simp add: entries_def lookup_ordered_array_def get_slot_def)
  have "find_header x h m = Inr (of_nat ?k)"
    using search_loop(1) [where g = "\<lambda>it. lookup_ordered_array it (index h) m" and n = ?n and
        P = "\<lambda>e. e \<noteq> x"]
    unfolding es find_header_def .
  moreover have "takeWhile (\<lambda>e. e \<noteq> x) ?es \<noteq> ?es" using x by (auto simp: takeWhile_eq_all_conv)
  then have "?k < length ?es"
    by (metis le_neq_implies_less length_takeWhile_le order_refl takeWhile_eq_take take_all)
  moreover from this have "?es ! ?k = x" using nth_length_takeWhile [of "\<lambda>e. e \<noteq> x" ?es] by blast
  ultimately show ?thesis by auto
qed

lemma unify_right_none:
  assumes "heap_at h (mem s) (pre @ (True, N) # (False, k) # post) hs"
  shows "unify_right hdr (of_nat (unat (start_address h) + total pre + N) - 8) tf s =
    Inr (of_nat (unat (start_address h) + total pre + N) - 8, s)"
proof -
  have "head_ok (mem s) (unat (start_address h) + total pre + N) False k"
    using assms by (simp add: heap_at_def)
  then show ?thesis by (simp add: unify_right_def head_ok_def)
qed

lemma unify_right_last:
  fixes h :: heap_t
  defines "b \<equiv> unat (start_address h)"
  assumes k: "kheap s = Some h" and at: "heap_at h (mem s) (pre @ [(True, N), (True, k)]) hs"
    and x: "b + total pre + N \<in># hs"
  shows "\<exists>s' h'. unify_right (of_nat (b + total pre)) (of_nat (b + total pre + N) - 8) tf s =
      Inr (tf + of_nat k - 8, s') \<and> kheap s' = Some h' \<and> same_heap h h' \<and>
    heap_at h' (mem s') (pre @ [(True, N + k)]) (hs - {#b + total pre + N#}) \<and>
    heap_frame (index_region h \<union> region (b + total pre) (b + total pre + N)) s s'"
proof -
  let ?a = "b + total pre"
  let ?m1 = "set_head_bytes (of_nat ?a) (of_nat (N + k)) (mem s)"
  have Nk: "20 \<le> N" "20 \<le> k" and heads: "head_ok (mem s) ?a True N" "head_ok (mem s) (?a + N) True k"
    using at by (simp_all add: heap_at_def b_def)
  have fit: "?a + N + k < 2 ^ 32"
    using at unat32_bound [of "end_address h"] by (simp add: heap_at_def b_def)
  have head1: "head_ok ?m1 ?a True (N + k)" and out1: "same_outside (region ?a (?a + 12)) (mem s) ?m1"
    using set_head_bytes_ok(1) [OF heads(1), of "N + k"] set_head_bytes_ok(2) [OF heads(1)] Nk fit
    by simp_all
  have "head_ok ?m1 (?a + N) True k"
    using heads(2) head_ok_cong [OF out1, of "?a + N" True k] Nk fit by auto
  then have bytes1: "head_bytes ?m1 (of_nat (?a + N)) = of_nat k" by (simp add: head_ok_def)
  have out: "same_outside (region ?a (?a + N)) (mem s) ?m1"
    "same_outside (region ?a (?a + N + k)) (mem s) ?m1"
    by (rule same_outside_region_mono [OF out1]; use Nk in simp)+
  have at1: "heap_at h ?m1 (pre @ [(True, N + k)]) hs"
    using heap_at_replace [where h = h and m = "mem s" and pre = pre and
        old = "[(True, N), (True, k)]" and post = "[]" and hs = hs and m' = ?m1 and
        new = "[(True, N + k)]"] at out(2) head1 Nk by (simp add: b_def add.assoc)
  have "of_nat (?a + N) \<in> set (entries (index h) ?m1)"
    using at1 x by (metis heap_at_def image_eqI set_image_mset set_mset_mset)
  from find_header_spec [OF heap_at_room(1) [OF at1] this] obtain i where
    i: "i < unat (oa_size (index h))" "find_header (of_nat (?a + N)) h ?m1 = Inr (of_nat i)"
      "entries (index h) ?m1 ! i = of_nat (?a + N)" by blast
  have i32: "(of_nat i :: u32) < oa_size (index h)"
    using i(1) unat32_bound [of "oa_size (index h)"] by (simp add: word_less_nat_alt)
  let ?s1 = "s\<lparr>mem := ?m1\<rparr>"
  have "kheap ?s1 = Some h" "heap_at h (mem ?s1) (pre @ [(True, N + k)]) hs"
    "entries (index h) (mem ?s1) ! i = of_nat (?a + N)" using k at1 i(3) by simp_all
  from heap_at_remove [OF this(1,2) i(1) x this(3)] obtain s' h' where
    r: "heap_remove (of_nat i) ?s1 = Inr s'" "kheap s' = Some h'" "same_heap h h'"
      "heap_at h' (mem s') (pre @ [(True, N + k)]) (hs - {#?a + N#})"
      "heap_frame (index_region h) ?s1 s'" by blast
  have "heap_frame (index_region h \<union> region ?a (?a + N)) s s'"
    by (rule heap_frame_trans [OF heap_frame_mem [OF same_outside_mono [OF out(1) Un_upper2]]
          heap_frame_mono [OF r(5) Un_upper1]])
  moreover have head: "head_magic (mem s) (of_nat (?a + N)) = HEAP_MAGIC"
    "head_is_hole (mem s) (of_nat (?a + N)) = 1" "head_bytes (mem s) (of_nat (?a + N)) = of_nat k"
    "head_bytes (mem s) (of_nat ?a) = of_nat N"
    using heads by (simp_all add: head_ok_def)
  have sum: "of_nat N + of_nat k = (of_nat (N + k) :: u32)" by simp
  have foot: "of_nat (?a + N) - 8 + 8 = (of_nat (?a + N) :: u32)" by simp
  have "unify_right (of_nat ?a) (of_nat (?a + N) - 8) tf s = Inr (tf + of_nat k - 8, s')"
    unfolding unify_right_def Let_def foot head sum the_heap_def k option.case bindE_simps i(2) bytes1
    using r(1) i32 by simp
  ultimately show ?thesis using r by blast
qed

section \<open>The whole release\<close>

lemma user_bytes_apart:
  assumes "a + total (pre @ c # post) < 2 ^ 32" "fst c"
  shows "user_bytes a (pre @ c # post) \<inter> region (a + total pre) (a + total pre + snd c) = {}"
  using user_bytes_within [of a pre] user_bytes_within [of "a + total pre + snd c" post] assms(2)
  by (auto simp: region_def)

lemma released_cases:
  assumes "coalesce pre n = (pre', N)" "post \<noteq> []" "fst (hd post) \<longrightarrow> tl post = []"
  obtains k where "post = [(True, k)]" "released pre n post = pre' @ [(True, N + k)]"
  | k post' where "post = (False, k) # post'" "released pre n post = pre' @ (True, N) # post"
proof (cases post)
  case (Cons c post')
  show thesis
  proof (cases "fst c")
    case True
    then have "post = [(True, snd c)]" using assms(3) Cons by (cases c) simp
    then show thesis using that(1) assms(1) by (simp add: released_def)
  next
    case False
    then have "post = (False, snd c) # post'" using Cons by (cases c) simp
    then show thesis using that(2) assms(1) by (simp add: released_def)
  qed
qed (use assms(2) in simp)

text \<open>
  The right-hand side: either there is a block and nothing happens, or the last hole is
  swallowed. The footer that comes back is not the one at the end of the heap, so the heap is
  not contracted.
\<close>

lemma unify_right_rep:
  fixes h :: heap_t
  defines "b \<equiv> unat (start_address h)"
  assumes k: "kheap s = Some h" and at: "heap_at h (mem s) (pre' @ (True, N) # post) hs"
    and co: "coalesce pre n = (pre', N)" and len: "total pre' + N = total pre + n" "20 \<le> n"
    and post: "post \<noteq> []" "fst (hd post) \<longrightarrow> tl post = []"
    and hs: "set (holes (b + total pre + n) post) \<subseteq> set_mset hs"
  shows "\<exists>foot s' h'. unify_right (of_nat (b + total pre')) (of_nat (b + total pre + n) - 8)
        (of_nat (b + total pre) - 8) s = Inr (foot, s') \<and>
    foot + 8 \<noteq> end_address h \<and> kheap s' = Some h' \<and> same_heap h h' \<and>
    heap_at h' (mem s') (released pre n post)
      (hs - (if fst (hd post) then {#b + total pre + n#} else {#})) \<and>
    heap_frame (index_region h \<union> region (b + total pre') (b + total pre' + N)) s s'"
proof -
  have b8: "8 \<le> b" using at by (simp add: heap_at_def index_ok_def b_def)
  have fit: "b + total pre + n + total post = unat (end_address h)" "b + total pre + n + total post < 2 ^ 32"
    using at len unat32_bound [of "end_address h"] by (simp_all add: heap_at_def b_def)
  then have e: "end_address h = of_nat (b + total pre + n + total post)" by simp
  from co post show ?thesis
  proof (cases rule: released_cases)
    case (1 k')
    have at': "heap_at h (mem s) (pre' @ [(True, N), (True, k')]) hs" using at 1 by simp
    have x: "b + total pre' + N \<in># hs" using hs len 1 by (simp add: add.assoc)
    have sum: "b + (total pre + n) = b + total pre' + N" using len by simp
    from unify_right_last [OF k at', of "of_nat (b + total pre) - 8"] x obtain s' h' where
      r: "unify_right (of_nat (b + total pre')) (of_nat (b + total pre' + N) - 8)
          (of_nat (b + total pre) - 8) s = Inr (of_nat (b + total pre) - 8 + of_nat k' - 8, s')"
        "kheap s' = Some h'" "same_heap h h'"
        "heap_at h' (mem s') (pre' @ [(True, N + k')]) (hs - {#b + total pre' + N#})"
        "heap_frame (index_region h \<union> region (b + total pre') (b + total pre' + N)) s s'"
      unfolding b_def by blast
    have "of_nat (b + total pre) - 8 + of_nat k' - 8 + 8 \<noteq> end_address h"
    proof
      assume "of_nat (b + total pre) - 8 + of_nat k' - 8 + 8 = end_address h"
      then have "(of_nat (n + 8) :: u32) = of_nat 0" using 1 unfolding e by (simp add: algebra_simps)
      moreover have "n + 8 < 2 ^ 32" using fit(2) b8 by simp
      ultimately show False using of_nat_eq32 [of "n + 8" 0] by simp
    qed
    with r 1 show ?thesis
      unfolding add.assoc [of b "total pre" n] sum by (intro exI [of _ "of_nat (b + total pre) - 8 + of_nat k' - 8"]
          exI [of _ s'] exI [of _ h']) simp
  next
    case (2 k' post')
    have at': "heap_at h (mem s) (pre' @ (True, N) # (False, k') # post') hs" using at 2 by simp
    have sum: "b + (total pre + n) = b + total pre' + N" using len by simp
    have "20 \<le> k'" using at' by (simp add: heap_at_def)
    then have "(of_nat (b + total pre + n) :: u32) \<noteq> end_address h"
      unfolding e using 2 fit by (subst of_nat_eq32) auto
    then have "of_nat (b + total pre + n) - 8 + 8 \<noteq> end_address h" by simp
    with 2 k at unify_right_none [OF at'] show ?thesis
      unfolding add.assoc [of b "total pre" n] sum
      by (intro exI [of _ "of_nat (b + total pre' + N) - 8"] exI [of _ s] exI [of _ h])
        (simp add: b_def heap_frame_mem [of _ s "mem s", simplified])
  qed
qed

lemma holes_released:
  assumes "coalesce pre n = (pre', N)" "post \<noteq> []" "fst (hd post) \<longrightarrow> tl post = []"
  shows "mset (holes b (released pre n post)) =
    mset (holes b (pre @ (False, n) # post)) - (if fst (hd post) then {#b + total pre + n#} else {#})
      + (if left_hole pre then {#} else {#b + total pre#})"
proof (rule left_hole_cases [of pre n])
  fix pre1 k assume pre: "pre = pre1 @ [(True, k)]" "coalesce pre n = (pre1, k + n)" "left_hole pre"
  from assms show ?thesis
    by (cases rule: released_cases) (use pre assms(1) in \<open>auto simp: add.assoc\<close>)
next
  assume pre: "\<not> left_hole pre" "coalesce pre n = (pre, n)"
  from assms show ?thesis
    by (cases rule: released_cases) (use pre assms(1) in \<open>auto simp: add.assoc\<close>)
qed

lemma released_sizes:
  assumes "coalesce pre n = (pre', N)" "post \<noteq> []" "fst (hd post) \<longrightarrow> tl post = []"
    and "total pre' + N = total pre + n"
  shows "total (released pre n post) = total (pre @ (False, n) # post)" "released pre n post \<noteq> []"
proof -
  from assms(1-3) show "total (released pre n post) = total (pre @ (False, n) # post)"
    by (cases rule: released_cases) (use assms(4) in auto)
  from assms(1-3) show "released pre n post \<noteq> []" by (cases rule: released_cases) auto
qed

text \<open>
  The premises on \<open>post\<close>: the block is not the last chunk, and if a hole follows, it is the
  last chunk.
\<close>

lemma free_rep:
  fixes h :: heap_t
  defines "b \<equiv> unat (start_address h)"
  assumes k: "kheap s = Some h" and rep: "heap_rep h (mem s) (pre @ (False, n) # post)"
    and post: "post \<noteq> []" "fst (hd post) \<longrightarrow> tl post = []"
    and co: "coalesce pre n = (pre', N)"
  shows "\<exists>s' h'. free (of_nat (b + total pre + 12)) s = Inr s' \<and> kheap s' = Some h' \<and>
    same_heap h h' \<and> heap_rep h' (mem s') (released pre n post) \<and>
    heap_frame (index_region h \<union> region (b + total pre') (b + total pre + n)) s s'"
proof -
  let ?a = "b + total pre"
  let ?hs = "mset (holes b (pre @ (False, n) # post))"
  let ?foot = "of_nat (?a + n) - 8 :: u32"
  have at: "heap_at h (mem s) (pre @ (False, n) # post) ?hs"
    using rep by (simp add: heap_rep_def b_def)
  have head: "head_ok (mem s) ?a False n" and foot: "foot_ok (mem s) ?a n" and n: "20 \<le> n"
    using at post(1) by (simp_all add: heap_at_def b_def)
  have fit: "?a + n < 2 ^ 32"
    using at unat32_bound [of "end_address h"] by (simp add: heap_at_def b_def)
  let ?m1 = "set_head_is_hole (of_nat ?a) 1 (mem s)"
  have head1: "head_ok ?m1 ?a True n" and out1: "same_outside (region ?a (?a + 12)) (mem s) ?m1"
    using set_head_is_hole_ok(1) [OF head] set_head_is_hole_ok(2) [OF head] n fit by simp_all
  have foot1: "foot_ok ?m1 ?a n"
    using foot foot_ok_cong [OF out1, of ?a n] n fit by auto
  have out1': "same_outside (region ?a (?a + n)) (mem s) ?m1"
    by (rule same_outside_region_mono [OF out1]) (use n in auto)
  have at1: "heap_at h ?m1 (pre @ (True, n) # post) ?hs"
    using heap_at_replace [where h = h and m = "mem s" and pre = pre and old = "[(False, n)]" and
        post = post and hs = ?hs and m' = ?m1 and new = "[(True, n)]"] at out1' head1 foot1 n
    by (simp add: b_def)
  from unify_left_rep [OF at1, folded b_def, OF foot1 co] obtain m2 where
    left: "unify_left (of_nat ?a) ?foot ?m1 = (of_nat (b + total pre'), \<not> left_hole pre, m2)"
      "heap_at h m2 (pre' @ (True, N) # post) ?hs" "total pre' + N = total pre + n"
      "same_outside (region (b + total pre') (b + total pre' + N)) ?m1 m2"
    by blast
  have sum: "b + total pre' + N = ?a + n" using left(3) by simp
  have pre': "b + total pre' \<le> ?a" using co
    by (cases pre rule: rev_cases) (auto simp: coalesce_def left_hole_def split: if_splits)
  let ?s2 = "s\<lparr>mem := m2\<rparr>"
  have k2: "kheap ?s2 = Some h" and at2: "heap_at h (mem ?s2) (pre' @ (True, N) # post) ?hs"
    using k left(2) by simp_all
  have sub: "set (holes (?a + n) post) \<subseteq> set_mset ?hs" by (auto simp: add.assoc)
  obtain foot' s3 h3 where
    right: "unify_right (of_nat (b + total pre')) ?foot (of_nat ?a - 8) ?s2 = Inr (foot', s3)"
      "foot' + 8 \<noteq> end_address h" "kheap s3 = Some h3" "same_heap h h3"
      "heap_at h3 (mem s3) (released pre n post)
        (?hs - (if fst (hd post) then {#?a + n#} else {#}))"
      "heap_frame (index_region h \<union> region (b + total pre') (b + total pre' + N)) ?s2 s3"
    using unify_right_rep [OF k2 at2 co left(3) n post, folded b_def, OF sub] by blast
  note same3 = same_heapD [OF right(4)]
  note sizes = released_sizes [OF co post left(3)]
  have fr: "heap_frame (index_region h \<union> region (b + total pre') (?a + n)) s s3"
  proof (rule heap_frame_trans)
    show "heap_frame (index_region h \<union> region (b + total pre') (?a + n)) s ?s2"
    proof (rule heap_frame_mem, rule same_outside_mono [OF _ Un_upper2])
      show "same_outside (region (b + total pre') (?a + n)) (mem s) m2"
        using pre' by (intro same_outside_trans [OF same_outside_region_mono [OF out1'] left(4) [unfolded sum]])
          auto
    qed
  qed (use right(6) in \<open>simp only: sum\<close>)
  have minus: "of_nat (?a + 12) - 12 = (of_nat ?a :: u32)"
    "of_nat ?a + of_nat n - 8 = ?foot" by simp_all
  have start: "of_nat (?a + 12) \<noteq> (0 :: u32)"
    using of_nat_eq32 [of "?a + 12" 0] n fit by simp
  have run: "free (of_nat (?a + 12)) s = (if left_hole pre then Inr s3 else heap_insert (of_nat (b + total pre')) s3)"
    unfolding free_def Let_def minus
    using start head foot left(1) right(1-3) same3(2)
    by (simp add: head_ok_def foot_ok_def minus the_heap_def del: of_nat_add)
  note hs = holes_released [OF co post, of b]
  show ?thesis
  proof (cases "left_hole pre")
    case True
    have "heap_rep h3 (mem s3) (released pre n post)"
      using right(5) hs True sizes(2) same3(1) by (simp add: heap_rep_def b_def)
    with True run right(3,4) fr show ?thesis by (intro exI [of _ s3] exI [of _ h3]) simp
  next
    case False
    then have p: "pre' = pre" using co by (simp add: coalesce_def)
    let ?hs3 = "?hs - (if fst (hd post) then {#?a + n#} else {#})"
    have add: "mset (holes b (released pre n post)) = add_mset ?a ?hs3" using hs False by simp
    have "20 * (size ?hs3 + 1) \<le> total (released pre n post)"
    proof -
      have "\<forall>c \<in> set (released pre n post). 20 \<le> snd c"
        using right(5) unfolding heap_at_def by (blast dest: tiles_sizes)
      from length_holes [OF this, of b] arg_cong [OF add, of size] show ?thesis by simp
    qed
    from heap_at_insert [OF right(3,5) this, of ?a] obtain s4 h4 where
      ins: "heap_insert (of_nat ?a) s3 = Inr s4" "kheap s4 = Some h4" "same_heap h3 h4"
        "heap_at h4 (mem s4) (released pre n post) (add_mset ?a ?hs3)"
        "heap_frame (index_region h) s3 s4" using same3(4) by auto
    have "heap_rep h4 (mem s4) (released pre n post)"
      using ins(4) add sizes(2) same_heapD(1) [OF ins(3)] same3(1) by (simp add: heap_rep_def b_def)
    moreover have "heap_frame (index_region h \<union> region (b + total pre') (?a + n)) s s4"
      by (rule heap_frame_trans [OF fr heap_frame_mono [OF ins(5) Un_upper1]])
    ultimately show ?thesis
      using False run ins(1,2) same_heap_trans [OF right(4) ins(3)] p
      by (intro exI [of _ s4] exI [of _ h4]) simp
  qed
qed

end
