(* ===== verification/Heap_Create.thy ===== *)
theory Heap_Create
  imports Heap_Free
begin

text \<open>
  The heap that \<^verbatim>\<open>create_heap\<close> sets up, as a list of chunks: one hole.
\<close>

lemma page_floor: "(x :: u32) AND 0xFFFFF000 = x - x mod 0x1000"
proof -
  have m: "(0xFFFFF000 :: u32) = NOT (mask 12)" by (simp add: mask_eq_exp_minus_1)
  have "(x AND mask 12) + (x AND NOT (mask 12)) = (x AND mask 12) OR (x AND NOT (mask 12))"
    by (rule disjunctive_add) (simp add: bit_simps)
  also have "\<dots> = x" by (rule bit_word_eqI) (auto simp: bit_simps)
  finally have "x AND NOT (mask 12) = x - (x AND mask 12)" by (simp add: algebra_simps)
  moreover have "x AND mask 12 = x mod 0x1000"
    using take_bit_eq_mod [of 12 x] by (simp add: take_bit_eq_mask)
  ultimately show ?thesis unfolding m by simp
qed

lemma create_heap_rep:
  fixes s :: "'a mm_scheme"
  defines "base \<equiv> \<lambda>start :: u32. unat start + 0x81000"
  assumes none: "kheap s = None" and al: "start mod 0x1000 = 0" "end_addr mod 0x1000 = 0"
    and room: "base start + 20 \<le> unat end_addr"
    and cap: "unat end_addr - base start + 40 \<le> 20 * 0x20000"
    and guard: "read32 (mem s) (start + 0x80FF8) \<noteq> HEAP_MAGIC"
  shows "\<exists>h m. create_heap al start end_addr mx super ro s =
      Inr (h, s\<lparr>mem := m, placement_addr := placement_addr s + 32\<rparr>) \<and>
    heap_rep h m [(True, unat end_addr - base start)] \<and>
    start_address h = start + 0x81000 \<and> end_address h = end_addr \<and> max_address h = mx \<and>
    oa_less_than (index h) = header_t_less_than \<and> oa_array (index h) = start \<and>
    oa_max_size (index h) = HEAP_INDEX_SIZE \<and> same_outside (region (unat start) (unat start + 0x8100C)) (mem s) m \<and>
    supervisor h = super \<and> readonly h = ro \<and>
    same_outside (region (unat start) (unat start + 0x80000) \<union> region (base start) (base start + 12)) (mem s) m"
proof -
  have fit: "unat start + 0x81000 + 20 < 2 ^ 32"
    using room unat32_bound [of end_addr] by (simp add: base_def)
  have u: "unat (start + 0x80000) = unat start + 0x80000" "unat (start + 0x81000) = unat start + 0x81000"
    using fit by (simp_all add: unat_add32)
  have mod: "(start + 0x80000) mod 0x1000 = 0"
  proof -
    have "unat start mod 0x1000 = 0" using arg_cong [OF al(1), of unat] by (simp add: unat_mod)
    then have "unat (start + 0x80000) mod 0x1000 = 0" 
      using mod_mult_self1 [of "unat start" 128 4096] unfolding u by simp
    then show ?thesis by (simp add: word_unat_eq_iff unat_mod)
  qed
  have nz: "start + 0x80000 \<noteq> 0" using u(1) by (metis add_is_0 unat_0 zero_neq_numeral)
  have floor: "(start + 0x80000) AND 0xFFFFF000 = start + 0x80000" using mod by (simp add: page_floor)
  let ?a = "\<lparr>oa_array = start, oa_size = 0, oa_max_size = HEAP_INDEX_SIZE, oa_less_than = header_t_less_than\<rparr>"
  let ?n = "unat end_addr - base start"
  let ?m1 = "memset (mem s) start 0 (HEAP_INDEX_SIZE * 4)"
  let ?m2 = "write_header (start + 0x81000) 1 (end_addr - (start + 0x81000)) ?m1"
  let ?x = "base start"
  have x: "start + 0x81000 = of_nat ?x" using u(2) by (simp add: base_def)
  have n: "end_addr - (start + 0x81000) = of_nat ?n"
    using u(2) room by (simp add: word_unat_eq_iff unat_sub32 base_def unat_of_nat unat32_bound
        less_imp_diff_less)
  have len: "length (entries ?a ?m2) = 0" by simp
  have "oa_room ?a" by (simp add: oa_room_def)
  from insert_entries [OF this, of "start + 0x81000" ?m2] obtain m3 where
    ins: "insert_ordered_array (start + 0x81000) ?a ?m2 = Inr (?a\<lparr>oa_size := 1\<rparr>, m3)"
      "entries (?a\<lparr>oa_size := 1\<rparr>) m3 = [start + 0x81000]" "same_outside (slots_of ?a) ?m2 m3"
    using len by (auto simp del: length_entries)
  have out1: "same_outside (region (unat start) (unat start + 0x80000)) (mem s) ?m1"
    using memset_same_outside [of start "HEAP_INDEX_SIZE * 4" "mem s" 0]
      span_region [of start "0x80000"] fit by (auto intro: same_outside_mono)
  have out2: "same_outside (region ?x (?x + 12)) ?m1 ?m2"
    unfolding x using fit by (intro write_header_ok(2)) (simp add: base_def)
  have "slots_of ?a \<subseteq> region (unat start) (unat start + 4)"
    using span_region [of start 4] fit by (simp add: slots_of_def)
  then have out3: "same_outside (region (unat start) (unat start + 4)) ?m2 m3"
    using ins(3) by (rule same_outside_mono [rotated])
  have "head_ok ?m2 ?x True ?n"
    unfolding n unfolding x using write_header_ok(1) [of ?x True ?n ?m1] fit by (simp add: base_def)
  then have head: "head_ok m3 ?x True ?n"
    using head_ok_cong [OF out3, of ?x True ?n] fit by (auto simp: base_def)
  let ?h = "\<lparr>index = ?a\<lparr>oa_size := 1\<rparr>, start_address = start + 0x81000, end_address = end_addr,
    max_address = mx, supervisor = super, readonly = ro\<rparr>"
  have "sentinel ?h (mem s)" using guard by (simp add: sentinel_def layout add.commute)
  then have "sentinel ?h m3"
    using fit sentinel_cong [OF out1, of ?h] sentinel_cong [OF out2, of ?h] sentinel_cong [OF out3, of ?h] u(2)
    by (simp add: base_def)
  moreover have "unat (start_address ?h) + total [(True, ?n)] = unat (end_address ?h)"
    using room u(2) by (simp add: base_def)
  moreover have "tiles m3 (unat (start_address ?h)) False [(True, ?n)]"
    using head room u(2) by (simp add: base_def)
  moreover have "mset (entries (index ?h) m3) =
      image_mset of_nat (mset (holes (unat (start_address ?h)) [(True, ?n)]))"
    using ins(2) by simp
  moreover have "index_ok ?h (total [(True, ?n)])"
    using cap u(2) by (simp add: index_ok_def base_def)
  ultimately have "heap_rep ?h m3 [(True, ?n)]"
    using room unfolding heap_rep_def heap_at_def by simp
  moreover have "same_outside (region (unat start) (unat start + 0x8100C)) (mem s) m3"
    by (intro same_outside_trans [OF same_outside_region_mono [OF out1]
          same_outside_trans [OF same_outside_region_mono [OF out2] same_outside_region_mono [OF out3]]])
      (simp_all add: base_def)
  moreover have "same_outside (region (unat start) (unat start + 0x80000) \<union> region ?x (?x + 12)) (mem s) m3"
  proof (intro same_outside_trans [OF same_outside_mono [OF out1]
        same_outside_trans [OF same_outside_mono [OF out2] same_outside_mono [OF out3]]])
    show "region (unat start) (unat start + 4) \<subseteq> region (unat start) (unat start + 0x80000) \<union> region ?x (?x + 12)"
      by (auto simp: region_def)
  qed simp_all
  moreover have "create_heap al start end_addr mx super ro s =
      Inr (?h, s\<lparr>mem := m3, placement_addr := placement_addr s + 32\<rparr>)"
    using none al ins(1) nz
    by (simp add: floor add.assoc create_heap_def kmalloc_def kmalloc_int_def place_ordered_array_def Let_def)
  ultimately show ?thesis
    by (intro exI [of _ ?h] exI [of _ m3]) simp
qed

end
