(* ===== verification/Heap_Spec.thy ===== *)
theory Heap_Spec
  imports Heap_Create
begin

text \<open>
  What the heap promises its users. The locale \<open>allocator\<close> is the interface: a state that
  represents a list of chunks, an operation that takes a block out of a hole and one that
  gives it back, and steps that leave the heap alone. The sequence of calls with which the
  kernel tests its heap at boot is verified in the locale; the interpretation provides it for
  \<^verbatim>\<open>alloc\<close> and \<^verbatim>\<open>kfree\<close>.
\<close>

section \<open>The interface\<close>

locale allocator =
  fixes rep :: "'s \<Rightarrow> chunk list \<Rightarrow> bool" and base :: "'s \<Rightarrow> nat"
    and obtain_block :: "u32 \<Rightarrow> 's \<Rightarrow> kerror + u32 \<times> 's" and release :: "u32 \<Rightarrow> 's \<Rightarrow> kerror + 's"
    and idle :: "'s \<Rightarrow> 's \<Rightarrow> bool"
  assumes obtain_spec: "rep s cs \<Longrightarrow> (True, k0) \<in> set cs \<Longrightarrow> unat sz + 20 \<le> k0 \<Longrightarrow>
      \<exists>pre k post s'. cs = pre @ (True, k) # post \<and> unat sz + 20 \<le> k \<and>
        obtain_block sz s = Inr (of_nat (base s + total pre + 12), s') \<and>
        rep s' (pre @ carved (block_size (unat sz) k) k @ post) \<and> base s' = base s"
    and release_spec: "rep s (pre @ (False, n) # post) \<Longrightarrow> post \<noteq> [] \<Longrightarrow>
      (fst (hd post) \<longrightarrow> tl post = []) \<Longrightarrow>
      \<exists>s'. release (of_nat (base s + total pre + 12)) s = Inr s' \<and> rep s' (released pre n post) \<and>
        base s' = base s"
    and idle_rep: "idle s s' \<Longrightarrow> rep s cs \<Longrightarrow> rep s' cs \<and> base s' = base s"
begin

text \<open>Allocation when the only hole is the last chunk.\<close>

lemma obtain_last:
  assumes rep: "rep s (bs @ [(True, k)])" and blocks: "\<forall>b \<in> set bs. \<not> fst b"
    and fit: "unat sz + 40 \<le> k"
  shows "\<exists>s'. obtain_block sz s = Inr (of_nat (base s + total bs + 12), s') \<and>
    rep s' (bs @ [(False, unat sz + 20), (True, k - (unat sz + 20))]) \<and> base s' = base s"
proof -
  have "(True, k) \<in> set (bs @ [(True, k)])" "unat sz + 20 \<le> k" using fit by auto
  from obtain_spec [OF rep this] obtain pre k' post s' where
    r: "bs @ [(True, k)] = pre @ (True, k') # post"
      "obtain_block sz s = Inr (of_nat (base s + total pre + 12), s')"
      "rep s' (pre @ carved (block_size (unat sz) k') k' @ post)" "base s' = base s" by blast
  have "post = []"
  proof (cases post rule: rev_cases)
    case (snoc post' c)
    with r(1) have "bs = pre @ (True, k') # post'" by simp
    with blocks show ?thesis by simp
  qed
  with r(1) have "pre = bs" "k' = k" by simp_all
  moreover have "carved (block_size (unat sz) k) k = [(False, unat sz + 20), (True, k - (unat sz + 20))]"
    using fit by (simp add: carved_def block_size_def)
  ultimately show ?thesis using r \<open>post = []\<close> by auto
qed

text \<open>Release of the last block, with the rest of the heap behind it.\<close>

lemma release_last:
  assumes "rep s (bs @ [(False, n), (True, k)])" "\<forall>b \<in> set bs. \<not> fst b"
  shows "\<exists>s'. release (of_nat (base s + total bs + 12)) s = Inr s' \<and>
    rep s' (bs @ [(True, n + k)]) \<and> base s' = base s"
proof -
  have "\<not> left_hole bs" using assms(2) by (auto simp: left_hole_def)
  then have "released bs n [(True, k)] = bs @ [(True, n + k)]"
    by (simp add: released_def coalesce_def)
  with release_spec [OF assms(1)] show ?thesis by simp
qed

text \<open>
  The heap test of the kernel, with arbitrary steps that leave the heap alone (the messages it
  prints) in between: the third allocation returns the address of the second, and releasing
  everything gives back one hole.
\<close>

lemma heap_test:
  assumes rep: "rep s0 [(True, k)]" and k: "200 \<le> k"
  shows "\<exists>s1. obtain_block 32 s0 = Inr (of_nat (base s0 + 12), s1) \<and>
    (\<exists>s2. obtain_block 32 s1 = Inr (of_nat (64 + base s0), s2) \<and> (\<exists>cs. rep s2 cs) \<and>
    (\<forall>t2. idle s2 t2 \<longrightarrow> (\<exists>s3. release (of_nat (64 + base s0)) t2 = Inr s3 \<and>
    (\<exists>s4. obtain_block 8 s3 = Inr (of_nat (64 + base s0), s4) \<and> (\<exists>cs. rep s4 cs) \<and>
    (\<forall>t4. idle s4 t4 \<longrightarrow> (\<exists>s5. release (of_nat (64 + base s0)) t4 = Inr s5 \<and>
    (\<exists>s6. release (of_nat (base s0 + 12)) s5 = Inr s6 \<and> rep s6 [(True, k)] \<and> base s6 = base s0)))))))"
proof -
  have k': "72 \<le> k - 52" "48 \<le> k - 52" "k - 52 - 52 = k - 104" "k - 52 - 28 = k - 80"
    "52 + (k - 104) = k - 52" "28 + (k - 80) = k - 52" "52 + (k - 52) = k" using k by simp_all
  from obtain_last [of s0 "[]" k 32] rep k obtain s1 where
    s1: "obtain_block 32 s0 = Inr (of_nat (base s0 + 12), s1)"
      "rep s1 [(False, 52), (True, k - 52)]" "base s1 = base s0"
    by (auto simp del: of_nat_add)
  from obtain_last [of s1 "[(False, 52)]" "k - 52" 32] s1(2,3) k k' obtain s2 where
    s2: "obtain_block 32 s1 = Inr (of_nat (64 + base s0), s2)"
      "rep s2 [(False, 52), (False, 52), (True, k - 104)]" "base s2 = base s0"
    by (auto simp del: of_nat_add)
  have r1: "\<exists>s3. release (of_nat (64 + base s0)) t2 = Inr s3 \<and>
      rep s3 [(False, 52), (True, k - 52)] \<and> base s3 = base s0" if "idle s2 t2" for t2
    using idle_rep [OF that s2(2)] release_last [of t2 "[(False, 52)]" 52 "k - 104"] s2(3) k' by (simp del: of_nat_add)
  have o2: "\<exists>s4. obtain_block 8 s3 = Inr (of_nat (64 + base s0), s4) \<and>
      rep s4 [(False, 52), (False, 28), (True, k - 80)] \<and> base s4 = base s0"
    if "rep s3 [(False, 52), (True, k - 52)]" "base s3 = base s0" for s3
    using obtain_last [of s3 "[(False, 52)]" "k - 52" 8] that k' by (simp del: of_nat_add)
  have r3: "\<exists>s5. release (of_nat (64 + base s0)) t4 = Inr s5 \<and>
      rep s5 [(False, 52), (True, k - 52)] \<and> base s5 = base s0"
    if "rep s4 [(False, 52), (False, 28), (True, k - 80)]" "base s4 = base s0" "idle s4 t4" for s4 t4
    using idle_rep [OF that(3,1)] release_last [of t4 "[(False, 52)]" 28 "k - 80"] that(2) k' by (simp del: of_nat_add)
  have r4: "\<exists>s6. release (of_nat (base s0 + 12)) s5 = Inr s6 \<and> rep s6 [(True, k)] \<and> base s6 = base s0"
    if "rep s5 [(False, 52), (True, k - 52)]" "base s5 = base s0" for s5
    using release_last [of s5 "[]" 52 "k - 52"] that k' by (simp del: of_nat_add)
  have end1: "\<exists>s5. release (of_nat (64 + base s0)) t4 = Inr s5 \<and>
      (\<exists>s6. release (of_nat (base s0 + 12)) s5 = Inr s6 \<and> rep s6 [(True, k)] \<and> base s6 = base s0)"
    if "rep s4 [(False, 52), (False, 28), (True, k - 80)]" "base s4 = base s0" "idle s4 t4" for s4 t4
  proof -
    from r3 [OF that] obtain s5 where 5: "release (of_nat (64 + base s0)) t4 = Inr s5"
      "rep s5 [(False, 52), (True, k - 52)]" "base s5 = base s0" by blast
    from r4 [OF 5(2,3)] obtain s6 where 6: "release (of_nat (base s0 + 12)) s5 = Inr s6"
      "rep s6 [(True, k)]" "base s6 = base s0" by blast
    show ?thesis by (rule exI [of _ s5], rule conjI, rule 5(1), rule exI [of _ s6]) (intro conjI 6)
  qed
  have end2: "\<exists>s4. obtain_block 8 s3 = Inr (of_nat (64 + base s0), s4) \<and> (\<exists>cs. rep s4 cs) \<and> (\<forall>t4. idle s4 t4 \<longrightarrow>
      (\<exists>s5. release (of_nat (64 + base s0)) t4 = Inr s5 \<and>
      (\<exists>s6. release (of_nat (base s0 + 12)) s5 = Inr s6 \<and> rep s6 [(True, k)] \<and> base s6 = base s0)))"
    if "rep s3 [(False, 52), (True, k - 52)]" "base s3 = base s0" for s3
  proof -
    from o2 [OF that] obtain s4 where 4: "obtain_block 8 s3 = Inr (of_nat (64 + base s0), s4)"
      "rep s4 [(False, 52), (False, 28), (True, k - 80)]" "base s4 = base s0" by blast
    show ?thesis by (rule exI [of _ s4], rule conjI, rule 4(1)) (intro conjI exI [of _ "[(False, 52), (False, 28), (True, k - 80)]"] 4(2) allI impI end1 [OF 4(2,3)])
  qed
  show ?thesis
  proof (rule exI [of _ s1], rule conjI, rule s1(1), rule exI [of _ s2], rule conjI, rule s2(1),
      rule conjI, rule exI, rule s2(2), intro allI impI)
    fix t2 assume "idle s2 t2"
    from r1 [OF this] obtain s3 where 3: "release (of_nat (64 + base s0)) t2 = Inr s3"
      "rep s3 [(False, 52), (True, k - 52)]" "base s3 = base s0" by blast
    show "\<exists>s3. release (of_nat (64 + base s0)) t2 = Inr s3 \<and>
      (\<exists>s4. obtain_block 8 s3 = Inr (of_nat (64 + base s0), s4) \<and> (\<exists>cs. rep s4 cs) \<and> (\<forall>t4. idle s4 t4 \<longrightarrow>
      (\<exists>s5. release (of_nat (64 + base s0)) t4 = Inr s5 \<and>
      (\<exists>s6. release (of_nat (base s0 + 12)) s5 = Inr s6 \<and> rep s6 [(True, k)] \<and> base s6 = base s0))))"
      by (rule exI [of _ s3], rule conjI, rule 3(1), rule end2 [OF 3(2,3)])
  qed
qed

end

section \<open>The heap of the kernel as an allocator\<close>

definition heap_state :: "'a mm_scheme \<Rightarrow> chunk list \<Rightarrow> bool" where
  "heap_state s cs \<longleftrightarrow> (\<exists>h. kheap s = Some h \<and> heap_rep h (mem s) cs)"

definition heap_base :: "'a mm_scheme \<Rightarrow> nat" where
  "heap_base s = (case kheap s of None \<Rightarrow> 0 | Some h \<Rightarrow> unat (start_address h))"

text \<open>
  Steps that do not concern the heap: the heap structure stays, and so does the memory from
  the index on up to the end of the heap.
\<close>

definition heap_idle :: "'a mm_scheme \<Rightarrow> 'a mm_scheme \<Rightarrow> bool" where
  "heap_idle s s' \<longleftrightarrow> kheap s' = kheap s \<and> (\<forall>h. kheap s = Some h \<longrightarrow>
     (\<exists>lo hi. same_outside (region lo hi) (mem s) (mem s') \<and>
        (hi \<le> unat (oa_array (index h)) \<or> unat (end_address h) \<le> lo)))"

lemma heap_idle_rep:
  assumes idle: "heap_idle s s'" and st: "heap_state s cs"
  shows "heap_state s' cs \<and> heap_base s' = heap_base s"
proof -
  obtain h where h: "kheap s = Some h" "heap_rep h (mem s) cs" using st by (auto simp: heap_state_def)
  with idle obtain lo hi where out: "same_outside (region lo hi) (mem s) (mem s')"
    "hi \<le> unat (oa_array (index h)) \<or> unat (end_address h) \<le> lo" and k: "kheap s' = Some h"
    by (auto simp: heap_idle_def)
  let ?b = "unat (start_address h)"
  have at: "heap_at h (mem s) cs (mset (holes ?b cs))" using h(2) by (simp add: heap_rep_def)
  have top: "unat (oa_array (index h)) + 4 * unat (oa_max_size (index h)) + 8 \<le> ?b"
    and len: "?b + total cs = unat (end_address h)" "?b + total cs < 2 ^ 32"
    using at unat32_bound [of "end_address h"] by (simp_all add: heap_at_def index_ok_def)
  have "tiles (mem s') ?b False cs"
    using at out(2) top len by (intro tiles_cong [OF out(1)]) (auto simp: heap_at_def)
  moreover have "sentinel h (mem s') = sentinel h (mem s)"
    using out(2) top len by (intro sentinel_cong [OF out(1)]) auto
  moreover have "entries (index h) (mem s') = entries (index h) (mem s)"
  proof (rule entries_cong)
    fix i assume i: "i < unat (oa_size (index h))"
    have le: "i + 2 \<le> unat (oa_max_size (index h))" using i heap_at_room(3) [OF at] by simp
    have max: "unat (oa_max_size (index h)) < 2 ^ 30"
      using at by (simp add: heap_at_def index_ok_def word_less_nat_alt)
    have "unat (4 * of_nat i :: u32) = 4 * i" using le max by (simp add: unat_word_ariths)
    then have "unat (oa_array (index h) + 4 * of_nat i) = unat (oa_array (index h)) + 4 * i"
      using top le unat32_bound [of "start_address h"] by (subst unat_add32) auto
    with out(2) top le len show "get_slot (oa_array (index h)) (mem s') i =
        get_slot (oa_array (index h)) (mem s) i"
      unfolding get_slot_def by (intro same_outside_read32 [OF out(1)]) auto
  qed
  ultimately have "heap_rep h (mem s') cs" using h(2) by (simp add: heap_rep_def heap_at_def)
  with k h(1) show ?thesis by (auto simp: heap_state_def heap_base_def)
qed

interpretation heap: allocator heap_state heap_base "\<lambda>sz. alloc (Suc d) sz 0" kfree heap_idle
proof unfold_locales
  fix s :: "'a mm_scheme" and cs k0 and sz :: u32
  assume st: "heap_state s cs" and fit: "(True, k0) \<in> set cs" "unat sz + 20 \<le> k0"
  obtain h where h: "kheap s = Some h" "heap_rep h (mem s) cs" using st by (auto simp: heap_state_def)
  from alloc_rep [OF h fit, of d] obtain pre k post s' h' where
    r: "cs = pre @ (True, k) # post" "unat sz + 20 \<le> k"
      "alloc (Suc d) sz 0 s = Inr (of_nat (unat (start_address h) + total pre + 12), s')"
      "kheap s' = Some h'" "same_heap h h'"
      "heap_rep h' (mem s') (pre @ carved (block_size (unat sz) k) k @ post)" by blast
  have "heap_base s = unat (start_address h)" "heap_base s' = unat (start_address h)"
    using h(1) r(4) same_heapD(1) [OF r(5)] by (simp_all add: heap_base_def)
  with r show "\<exists>pre k post s'. cs = pre @ (True, k) # post \<and> unat sz + 20 \<le> k \<and>
      alloc (Suc d) sz 0 s = Inr (of_nat (heap_base s + total pre + 12), s') \<and>
      heap_state s' (pre @ carved (block_size (unat sz) k) k @ post) \<and> heap_base s' = heap_base s"
    unfolding heap_state_def
    by (intro exI [of _ pre] exI [of _ k] exI [of _ post] exI [of _ s'] conjI exI [of _ h']) simp_all
next
  fix s :: "'a mm_scheme" and pre n post
  assume st: "heap_state s (pre @ (False, n) # post)" and post: "post \<noteq> []" "fst (hd post) \<longrightarrow> tl post = []"
  obtain h where h: "kheap s = Some h" "heap_rep h (mem s) (pre @ (False, n) # post)"
    using st by (auto simp: heap_state_def)
  obtain pre' N where co: "coalesce pre n = (pre', N)" by fastforce
  from free_rep [OF h post co] obtain s' h' where
    r: "free (of_nat (unat (start_address h) + total pre + 12)) s = Inr s'" "kheap s' = Some h'"
      "same_heap h h'" "heap_rep h' (mem s') (released pre n post)" by blast
  have "heap_base s = unat (start_address h)" "heap_base s' = unat (start_address h)"
    using h(1) r(2) same_heapD(1) [OF r(3)] by (simp_all add: heap_base_def)
  with r show "\<exists>s'. kfree (of_nat (heap_base s + total pre + 12)) s = Inr s' \<and>
      heap_state s' (released pre n post) \<and> heap_base s' = heap_base s"
    by (auto simp: heap_state_def kfree_def)
qed (rule heap_idle_rep)

end
