(* ===== verification/Stdio.thy ===== *)
theory Stdio
  imports Tty
begin

text \<open>
  Formatted output, \<^verbatim>\<open>kernel/libc/stdio.c\<close>, and the two functions that end the kernel,
  \<^verbatim>\<open>kernel/libc/panic.c\<close>. The local array \<^verbatim>\<open>buf\<close> of \<^verbatim>\<open>printf\<close> is memory at
  the address \<open>stk\<close>, an argument. The variadic arguments are a list: \<^verbatim>\<open>va_arg\<close> takes
  its head; without one, or with one of another kind, the behaviour is undefined.
\<close>

section \<open>The operations\<close>

datatype arg = Word u32 | Pointer ptr

fun ptr_add :: "ptr \<Rightarrow> u32 \<Rightarrow> ptr" where
  "ptr_add (Lit cs) i = Lit (drop (unat i) cs)"
| "ptr_add (At a) i = At (a + i)"

fun va_word :: "arg list \<Rightarrow> kerror + u32 \<times> arg list" where
  "va_word (Word w # as) = Inr (w, as)"
| "va_word (Pointer (At a) # as) = Inr (a, as)"
| "va_word _ = Inl (Undefined_behaviour ''va_arg'')"

fun va_ptr :: "arg list \<Rightarrow> kerror + ptr \<times> arg list" where
  "va_ptr (Pointer p # as) = Inr (p, as)"
| "va_ptr (Word w # as) = Inr (At w, as)"
| "va_ptr [] = Inl (Undefined_behaviour ''va_arg'')"

text \<open>The \<^verbatim>\<open>switch\<close> on the conversion character, at the index \<open>i\<close> of the format.\<close>

definition printf_switch ::
    "u32 \<Rightarrow> ptr \<Rightarrow> u32 \<Rightarrow> arg list \<Rightarrow> 'a tty_scheme \<Rightarrow> kerror + arg list \<times> 'a tty_scheme" where
  "printf_switch buf format i ap s =
     (let c = byte_at (mem s) format i in
      if c = 0x69 then
        bindE (va_word ap) (\<lambda>(val, ap). bindE (itoa (mem s) val buf 10) (\<lambda>m.
          bindE (kprint (At buf) (s\<lparr>mem := m\<rparr>)) (\<lambda>s. Inr (ap, s))))
      else if c = 0x78 then
        bindE (va_word ap) (\<lambda>(val, ap). bindE (uitoa (mem s) val buf 16) (\<lambda>m.
          bindE (kprint (At buf) (s\<lparr>mem := m\<rparr>)) (\<lambda>s. Inr (ap, s))))
      else if c = 0x64 then
        bindE (va_word ap) (\<lambda>(val, ap). bindE (uitoa (mem s) val buf 10) (\<lambda>m.
          bindE (kprint (At buf) (s\<lparr>mem := m\<rparr>)) (\<lambda>s. Inr (ap, s))))
      else if c = 0x63 then
        bindE (va_word ap) (\<lambda>(val, ap).
          Inr (ap, kprint_c (Lit [char_of (unat (ucast val :: u8))]) 1 WHITE BLACK s))
      else if c = 0x73 then
        bindE (va_ptr ap) (\<lambda>(p, ap). bindE (kprint p s) (\<lambda>s. Inr (ap, s)))
      else Inr (ap, kprint_c (ptr_add format i) 1 WHITE BLACK s))"

text \<open>The \<^verbatim>\<open>for\<close> loop, whose guard evaluates \<^verbatim>\<open>strlen(format)\<close> each time.\<close>

definition printf_guard :: "ptr \<Rightarrow> u32 \<times> arg list \<times> 'a tty_scheme \<Rightarrow> bool" where
  "printf_guard format =
     (\<lambda>(i, ap, s). case strlen (mem s) format of Inl e \<Rightarrow> True | Inr n \<Rightarrow> i < n)"

definition printf_round ::
    "u32 \<Rightarrow> ptr \<Rightarrow> u32 \<times> arg list \<times> 'a tty_scheme \<Rightarrow> kerror + u32 \<times> arg list \<times> 'a tty_scheme" where
  "printf_round buf format = (\<lambda>(i, ap, s).
     bindE (strlen (mem s) format) (\<lambda>_.
       if byte_at (mem s) format i = 0x25 then
         bindE (while_res (\<lambda>i. byte_at (mem s) format i = 0x20) (\<lambda>i. Inr (i + 1)) (i + 1)) (\<lambda>i.
         bindE (printf_switch buf format i ap s) (\<lambda>(ap, s). Inr (i + 1, ap, s)))
       else Inr (i + 1, ap, kprint_c (ptr_add format i) 1 WHITE BLACK s)))"

definition printf :: "u32 \<Rightarrow> ptr \<Rightarrow> arg list \<Rightarrow> 'a tty_scheme \<Rightarrow> kerror + 'a tty_scheme" where
  "printf buf format ap s =
     bindE (while_res (printf_guard format) (printf_round buf format) (0, ap, s))
       (\<lambda>(i, ap, s). Inr s)"

definition printf_color :: "ptr \<Rightarrow> color \<Rightarrow> color \<Rightarrow> 'a tty_scheme \<Rightarrow> kerror + 'a tty_scheme" where
  "printf_color format fg bg s =
     bindE (strlen (mem s) format) (\<lambda>n. Inr (kprint_c format n fg bg s))"

definition puts :: "u32 \<Rightarrow> ptr \<Rightarrow> 'a tty_scheme \<Rightarrow> kerror + 'a tty_scheme" where
  "puts stk buf s = printf stk (Lit (''%s'' @ [CHR 0x0A])) [Pointer buf] s"

subsection \<open>Panic\<close>

text \<open>
  The version string is a build flag (\<^verbatim>\<open>VULCAN_VERSION\<close>), an argument here; it is copied
  into the local array at \<open>stk\<close>. \<^verbatim>\<open>buf\<close> of \<^verbatim>\<open>printf\<close> is below it. The function
  shows its message and ends in \<^verbatim>\<open>for(;;)\<close>: \<open>panic_screen\<close> is the state in which it
  hangs, \<open>panic\<close> has no result but the error value.
\<close>

abbreviation LF :: string where "LF \<equiv> [CHR 0x0A]"

definition KINFO :: "u32 \<Rightarrow> 'a tty_scheme \<Rightarrow> kerror + 'a tty_scheme" where
  "KINFO stk s = bindE (printf stk (Lit ''['') [] s) (\<lambda>s.
     bindE (printf_color (Lit '' I '') LIGHT_RED BLACK s) (\<lambda>s.
     printf stk (Lit '']: '') [] s))"

definition panic_screen ::
    "string \<Rightarrow> u32 \<Rightarrow> ptr \<Rightarrow> ptr \<Rightarrow> u32 \<Rightarrow> 'a tty_scheme \<Rightarrow> kerror + 'a tty_scheme" where
  "panic_screen VULCAN_VERSION stk message file line s =
     bindE (strcpy (mem s) (stk + 32) (Lit VULCAN_VERSION)) (\<lambda>m.
     bindE (printf_color (Lit (''============================================='' @ LF)) LIGHT_MAGENTA BLACK (s\<lparr>mem := m\<rparr>)) (\<lambda>s.
     bindE (printf_color (Lit (''          .:: KERNEL PANIC ::.  '' @ LF)) LIGHT_RED BLACK s) (\<lambda>s.
     bindE (printf_color (Lit ''Reason: '') LIGHT_BROWN BLACK s) (\<lambda>s.
     bindE (printf stk (Lit ([CHR 0x27] @ ''%s'' @ [CHR 0x27] @ '' at '' @ [CHR 0x27] @ ''%s'' @ [CHR 0x27] @ '':%d'' @ LF))
              [Pointer message, Pointer file, Word line] s) (\<lambda>s.
     bindE (KINFO stk s) (\<lambda>s.
     bindE (printf_color (Lit (''Disabling interrupts'' @ LF)) LIGHT_GREEN BLACK s) (\<lambda>s.
     let s = cli s in
     bindE (KINFO stk s) (\<lambda>s.
     bindE (printf_color (Lit (''Dropping you into an endless loop'' @ LF)) LIGHT_GREEN BLACK s) (\<lambda>s.
     bindE (KINFO stk s) (\<lambda>s.
     bindE (printf_color (Lit (''Your are on your own now...good luck.'' @ LF)) LIGHT_GREEN BLACK s) (\<lambda>s.
     bindE (KINFO stk s) (\<lambda>s.
     bindE (printf_color (Lit ''VulcanOS version: '') LIGHT_GREEN BLACK s) (\<lambda>s.
     bindE (printf_color (At (stk + 32)) LIGHT_CYAN BLACK s) (\<lambda>s.
     bindE (printf_color (Lit (LF @ [CHR 0x09, CHR 0x09] @ '' (c) 2019-2021 Marco Cetica'')) LIGHT_BROWN BLACK s) (\<lambda>s.
     printf_color (Lit (LF @ ''============================================='' @ LF)) LIGHT_MAGENTA BLACK s)))))))))))))))"

definition panic ::
    "string \<Rightarrow> u32 \<Rightarrow> string \<Rightarrow> ptr \<Rightarrow> u32 \<Rightarrow> 'a tty_scheme \<Rightarrow> kerror + 'b" where
  "panic version stk message file line s =
     bindE (panic_screen version stk (Lit message) file line s) (\<lambda>s. Inl (Panic message))"

definition panic_assert_screen :: "ptr \<Rightarrow> u32 \<Rightarrow> ptr \<Rightarrow> 'a tty_scheme \<Rightarrow> kerror + 'a tty_scheme" where
  "panic_assert_screen file line desc s =
     bindE (kprint (Lit ''ASSERTION-FAILED('') (cli s)) (\<lambda>s.
     bindE (kprint desc s) (\<lambda>s.
     bindE (kprint (Lit '') at '') s) (\<lambda>s.
     bindE (kprint file s) (\<lambda>s.
     bindE (kprint (Lit '':'') s) (\<lambda>s.
     bindE (kprint_dec line s) (\<lambda>s.
     kprint (Lit LF) s))))))"

definition panic_assert :: "ptr \<Rightarrow> u32 \<Rightarrow> string \<Rightarrow> 'a tty_scheme \<Rightarrow> kerror + 'b" where
  "panic_assert file line desc s =
     bindE (panic_assert_screen file line (Lit desc) s) (\<lambda>s. Inl (Assert_failed desc))"

section \<open>The text that a call prints\<close>

text \<open>
  The abstract arguments are the values themselves, \<open>Text bs\<close> for a pointer to the string
  \<open>bs\<close>. \<open>render\<close> gives the bytes that a format and its arguments stand for, and
  \<open>None\<close> if an argument is missing or of the wrong kind, or the conversion is \<^verbatim>\<open>%i\<close>.
  After a percent sign spaces are skipped; at the end of the format its terminator is printed.
\<close>

datatype rarg = Num u32 | Text "u8 list"

fun convert :: "u8 \<Rightarrow> rarg list \<Rightarrow> (u8 list \<times> rarg list) option" where
  "convert d as =
     (if d = 0x69 then None
      else if d = 0x78 then (case as of Num v # r \<Rightarrow> Some (uitoa_text v 16, r) | _ \<Rightarrow> None)
      else if d = 0x64 then (case as of Num v # r \<Rightarrow> Some (uitoa_text v 10, r) | _ \<Rightarrow> None)
      else if d = 0x63 then (case as of Num v # r \<Rightarrow> Some ([ucast v], r) | _ \<Rightarrow> None)
      else if d = 0x73 then (case as of Text bs # r \<Rightarrow> Some (bs, r) | _ \<Rightarrow> None)
      else Some ([d], as))"

definition skip_spaces :: "u8 list \<Rightarrow> u8 list" where
  "skip_spaces = dropWhile (\<lambda>b. b = 0x20)"

lemma skip_spaces_length: "length (skip_spaces cs) \<le> length cs"
  by (simp add: skip_spaces_def length_dropWhile_le)

function render :: "u8 list \<Rightarrow> rarg list \<Rightarrow> u8 list option" where
  "render [] as = Some []"
| "render (c # cs) as =
     (if c \<noteq> 0x25 then map_option ((#) c) (render cs as)
      else (case skip_spaces cs of
          [] \<Rightarrow> Some [0]
        | d # ds \<Rightarrow> (case convert d as of
              None \<Rightarrow> None
            | Some (bs, as') \<Rightarrow> map_option ((@) bs) (render ds as'))))"
  by pat_completeness auto
termination
proof (relation "measure (\<lambda>(cs, as). length cs)")
  fix c :: u8 and cs as d ds x bs as'
  assume "skip_spaces cs = d # ds"
  with skip_spaces_length [of cs] show "((ds, as'), (c # cs, as)) \<in> measure (\<lambda>(cs, as). length cs)" by simp
qed simp_all

section \<open>Frames of formatted output\<close>

abbreviation print_mem :: "u32 \<Rightarrow> u32 set" where
  "print_mem buf \<equiv> vga \<union> span buf 20"

definition print_frame :: "u32 \<Rightarrow> 'a tty_scheme \<Rightarrow> 'a tty_scheme \<Rightarrow> bool" where
  "print_frame buf s s' \<longleftrightarrow> same_outside (print_mem buf) (mem s) (mem s') \<and> port_in s' = port_in s \<and>
     clock_log (port_out s') = clock_log (port_out s) \<and>
     port_reads s' = port_reads s \<and> interrupts_on s' = interrupts_on s \<and> tty.more s' = tty.more s"

lemma print_frame_refl [simp, intro]: "print_frame buf s s"
  by (simp add: print_frame_def)

lemma print_frame_trans [trans]: "print_frame b s t \<Longrightarrow> print_frame b t u \<Longrightarrow> print_frame b s u"
  by (auto simp: print_frame_def intro: same_outside_trans)

lemma tty_print_frame: "tty_frame s s' \<Longrightarrow> print_frame buf s s'"
  by (auto simp: tty_frame_def print_frame_def intro: same_outside_mono)

text \<open>A string that printing does not overwrite.\<close>

definition safe_cstr :: "memory \<Rightarrow> u32 \<Rightarrow> ptr \<Rightarrow> u8 list \<Rightarrow> bool" where
  "safe_cstr m buf p bs \<longleftrightarrow> cstr m p bs \<and> Suc (length bs) < 2 ^ 32 \<and>
     ptr_apart (of_nat (Suc (length bs))) p 7840 VIDEO_MEM_ADDR \<and>
     ptr_apart (of_nat (Suc (length bs))) p 20 buf"

lemma safe_cstr_off_screen: "safe_cstr m buf p bs \<Longrightarrow> off_screen (of_nat (length bs)) p"
proof (cases p)
  case (At a)
  assume "safe_cstr m buf p bs"
  moreover have "(of_nat (length bs) :: u32) \<le> of_nat (Suc (length bs))" if "Suc (length bs) < 2 ^ 32"
    using that of_nat_le32 [of "length bs" "Suc (length bs)"] by simp
  ultimately show ?thesis using At by (auto simp: safe_cstr_def apart_def simp del: of_nat_Suc)
qed simp

lemma safe_cstr_byte:
  assumes "safe_cstr m buf p bs" "same_outside (print_mem buf) m m'" "i \<le> length bs"
  shows "byte_at m' p (of_nat i) = byte_at m p (of_nat i)"
proof (cases p)
  case (At a)
  have "a + of_nat i \<in> span a (of_nat (Suc (length bs)))"
    using assms(1,3) by (intro in_span_of_nat) (auto simp: safe_cstr_def)
  moreover from this have "a + of_nat i \<notin> print_mem buf"
    using assms(1) At span_disjoint unfolding safe_cstr_def by auto
  ultimately show ?thesis using assms(2) At by (auto simp: same_outside_def read8_def)
qed simp

lemma safe_cstr_keep:
  assumes "safe_cstr m buf p bs" "same_outside (print_mem buf) m m'"
  shows "safe_cstr m' buf p bs"
proof -
  have c: "cstr m p bs" using assms(1) by (simp add: safe_cstr_def)
  have "cstr m' p bs"
  proof (rule cstrI)
    fix j assume "j < length bs"
    then show "byte_at m' p (of_nat j) = bs ! j"
      using safe_cstr_byte [OF assms, of j] cstr_nth [OF c] by simp
  next
    show "byte_at m' p (of_nat (length bs)) = 0"
      using safe_cstr_byte [OF assms, of "length bs"] cstr_end [OF c] by simp
  qed (rule cstr_nonzero [OF c])
  with assms(1) show ?thesis by (simp add: safe_cstr_def)
qed

lemma safe_cstr_Lit: "proper_lit cs \<Longrightarrow> Suc (length cs) < 2 ^ 32 \<Longrightarrow> safe_cstr m buf (Lit cs) (lit_bytes cs)"
  using cstr_Lit [of cs m] by (simp add: safe_cstr_def lit_bytes_def)

fun arg_ok :: "memory \<Rightarrow> u32 \<Rightarrow> arg \<Rightarrow> rarg \<Rightarrow> bool" where
  "arg_ok m buf (Word v) (Num w) \<longleftrightarrow> v = w"
| "arg_ok m buf (Pointer p) (Text bs) \<longleftrightarrow> safe_cstr m buf p bs"
| "arg_ok m buf _ _ \<longleftrightarrow> False"

lemma arg_ok_cases:
  "arg_ok m buf a (Num w) \<longleftrightarrow> a = Word w"
  "arg_ok m buf a (Text bs) \<longleftrightarrow> (\<exists>p. a = Pointer p \<and> safe_cstr m buf p bs)"
  by (cases a; auto)+

lemma args_ok_keep:
  "list_all2 (arg_ok m buf) ap as \<Longrightarrow> same_outside (print_mem buf) m m' \<Longrightarrow> list_all2 (arg_ok m' buf) ap as"
proof (erule list_all2_mono)
  fix a r assume "arg_ok m buf a r" "same_outside (print_mem buf) m m'"
  then show "arg_ok m' buf a r" by (cases r) (auto simp: arg_ok_cases safe_cstr_keep)
qed

section \<open>Printing text\<close>

definition printed :: "u32 \<Rightarrow> 'a tty_scheme \<Rightarrow> (color \<times> color \<times> u8) list \<Rightarrow> 'a tty_scheme \<Rightarrow> bool" where
  "printed buf s cs s' \<longleftrightarrow> tty_ok s' \<and> screen s' = fold term_put cs (screen s) \<and> print_frame buf s s'"

lemma printed_nil: "tty_ok s \<Longrightarrow> printed buf s [] s"
  by (simp add: printed_def)

lemma printed_append: "printed buf s xs t \<Longrightarrow> printed buf t ys u \<Longrightarrow> printed buf s (xs @ ys) u"
  by (auto simp: printed_def intro: print_frame_trans)

lemma printed_emits: "tty_ok s \<Longrightarrow> printed buf s cs (fold emit cs s)"
  by (simp add: printed_def vga.ok_emits vga.view_emits vga.keeps_emits tty_print_frame)

lemma printed_args:
  "printed buf s cs t \<Longrightarrow> list_all2 (arg_ok (mem s) buf) ap as \<Longrightarrow> list_all2 (arg_ok (mem t) buf) ap as"
  by (auto intro: args_ok_keep simp: printed_def print_frame_def)

lemma printed_safe: "printed buf s cs t \<Longrightarrow> safe_cstr (mem s) buf p bs \<Longrightarrow> safe_cstr (mem t) buf p bs"
  by (auto intro: safe_cstr_keep simp: printed_def print_frame_def)

lemma kprint_printed:
  assumes "tty_ok s" "safe_cstr (mem s) buf p bs"
  shows "\<exists>t. kprint p s = Inr t \<and> printed buf s (items WHITE BLACK bs) t"
proof -
  have "cstr (mem s) p bs" using assms(2) by (simp add: safe_cstr_def)
  from kprint_emits [OF assms(1) this safe_cstr_off_screen [OF assms(2)]] printed_emits [OF assms(1)]
  show ?thesis by blast
qed

lemma kprint_c_one:
  assumes "tty_ok s"
  shows "kprint_c p 1 fg bg s = emit (fg, bg, byte_at (mem s) p 0) s"
  by (simp add: kprint_c_def emit_def)

text \<open>The place of the local array: on the stack, not on the screen.\<close>

definition stack_ok :: "u32 \<Rightarrow> bool" where
  "stack_ok buf \<longleftrightarrow> unat buf + 36 \<le> 2 ^ 32 \<and> apart 20 buf 7840 VIDEO_MEM_ADDR"

lemma screen_apart:
  assumes "apart n a 7840 VIDEO_MEM_ADDR" "same_outside (span a n) (mem s) m"
  shows "screen (s\<lparr>mem := m\<rparr>) = screen s"
proof -
  have eq: "get_byte VIDEO_MEM_ADDR m i = get_byte VIDEO_MEM_ADDR (mem s) i" if "i < 7840" for i
  proof -
    have "VIDEO_MEM_ADDR + of_nat i \<in> span VIDEO_MEM_ADDR (of_nat 7840)"
      using that by (intro in_span_of_nat) simp_all
    then have "VIDEO_MEM_ADDR + of_nat i \<notin> span a n" using assms(1) span_disjoint by auto
    with assms(2) show ?thesis by (simp add: same_outside_def get_byte_def read8_def)
  qed
  have "cell_at m (80 * r + c) = cell_at (mem s) (80 * r + c)" if "in_grid r c" for r c
    using that by (simp add: cell_at_def eq in_grid_def)
  then show ?thesis by (auto simp: screen_def fun_eq_iff)
qed

lemma screen_buffer:
  "stack_ok buf \<Longrightarrow> same_outside (span buf 20) (mem s) m \<Longrightarrow> screen (s\<lparr>mem := m\<rparr>) = screen s"
  by (rule screen_apart) (simp_all add: stack_ok_def)

lemma uitoa_text_short: "radix = 10 \<or> radix = 16 \<Longrightarrow> length (uitoa_text v radix) \<le> 10"
proof -
  have "unat v < 2 ^ 32" by (rule unat32_bound)
  then have "unat v < 10 ^ 10" "unat v < 16 ^ 8" by simp_all
  then have "length (digits 10 (unat v)) \<le> 10" "length (digits 16 (unat v)) \<le> 8"
    by (intro length_digits_le; simp)+
  then show "radix = 10 \<or> radix = 16 \<Longrightarrow> length (uitoa_text v radix) \<le> 10"
    by (auto simp: uitoa_text_def)
qed

lemma number_printed:
  assumes ok: "tty_ok s" and buf: "stack_ok buf" and radix: "radix = 10 \<or> radix = 16"
  shows "\<exists>m t. uitoa (mem s) v buf radix = Inr m \<and> kprint (At buf) (s\<lparr>mem := m\<rparr>) = Inr t \<and>
    printed buf s (items WHITE BLACK (uitoa_text v radix)) t"
proof -
  let ?bs = "uitoa_text v radix"
  note len = uitoa_text_short [OF radix, of v]
  have "2 \<le> unat radix" "unat radix \<le> 36" using radix by auto
  from uitoa_cstr [OF this, of buf "mem s" v] buf obtain m where
    m: "uitoa (mem s) v buf radix = Inr m" "cstr m (At buf) ?bs"
      "same_outside (span buf (of_nat (Suc (length ?bs)))) (mem s) m" by (auto simp: stack_ok_def)
  have le: "of_nat (Suc (length ?bs)) \<le> (20 :: u32)" "of_nat (length ?bs) \<le> (20 :: u32)"
    using len of_nat_le32 [of "Suc (length ?bs)" 20] of_nat_le32 [of "length ?bs" 20] by simp_all
  then have out: "same_outside (span buf 20) (mem s) m"
    using m(3) span_mono by (blast intro: same_outside_mono)
  have "off_screen (of_nat (length ?bs)) (At buf)"
    using buf le(2) by (auto simp: stack_ok_def apart_def)
  moreover have ok': "tty_ok (s\<lparr>mem := m\<rparr>)" using ok by (simp add: tty_ok_def)
  ultimately have k: "kprint (At buf) (s\<lparr>mem := m\<rparr>) = Inr (fold emit (items WHITE BLACK ?bs) (s\<lparr>mem := m\<rparr>))"
    using m(2) by (intro kprint_emits) simp_all
  have "print_frame buf s (s\<lparr>mem := m\<rparr>)" using out by (auto simp: print_frame_def intro: same_outside_mono)
  moreover have "printed buf (s\<lparr>mem := m\<rparr>) (items WHITE BLACK ?bs) (fold emit (items WHITE BLACK ?bs) (s\<lparr>mem := m\<rparr>))"
    by (rule printed_emits [OF ok'])
  ultimately have "printed buf s (items WHITE BLACK ?bs) (fold emit (items WHITE BLACK ?bs) (s\<lparr>mem := m\<rparr>))"
    unfolding printed_def screen_buffer [OF buf out] by (blast intro: print_frame_trans)
  with m(1) k show ?thesis by blast
qed

section \<open>printf\<close>

lemma byte_at_ptr_add:
  assumes "safe_cstr m buf p bs" "i \<le> length bs"
  shows "byte_at m (ptr_add p (of_nat i)) 0 = byte_at m p (of_nat i)"
  by (cases p) simp_all

lemma list_all2_Cons2E:
  assumes "list_all2 P xs (y # ys)"
  obtains x xs' where "xs = x # xs'" "P x y" "list_all2 P xs' ys"
  using assms by (auto simp: list_all2_Cons2)

lemma switch_printed:
  assumes ok: "tty_ok s" and buf: "stack_ok buf" and fs: "safe_cstr (mem s) buf format fs" "i < length fs"
    and conv: "convert (fs ! i) as = Some (bs, as')" and args: "list_all2 (arg_ok (mem s) buf) ap as"
  shows "\<exists>ap' t. printf_switch buf format (of_nat i) ap s = Inr (ap', t) \<and>
    printed buf s (items WHITE BLACK bs) t \<and> list_all2 (arg_ok (mem t) buf) ap' as'"
proof -
  let ?d = "fs ! i"
  have d: "byte_at (mem s) format (of_nat i) = ?d"
    using fs cstr_nth [of "mem s" format fs i] by (simp add: safe_cstr_def)
  have number: ?thesis if "?d = 0x78 \<and> radix = 16 \<or> ?d = 0x64 \<and> radix = 10" for radix :: u32
  proof -
    from conv that obtain v where v: "as = Num v # as'" "bs = uitoa_text v radix"
      by (auto split: list.splits rarg.splits)
    from args v(1) obtain ap' where ap: "ap = Word v # ap'" "list_all2 (arg_ok (mem s) buf) ap' as'"
      by (auto elim!: list_all2_Cons2E simp: arg_ok_cases)
    have "radix = 10 \<or> radix = 16" using that by auto
    from number_printed [OF ok buf this, of v] obtain m t where
      r: "uitoa (mem s) v buf radix = Inr m" "kprint (At buf) (s\<lparr>mem := m\<rparr>) = Inr t"
        "printed buf s (items WHITE BLACK (uitoa_text v radix)) t" by blast
    have "printf_switch buf format (of_nat i) ap s = Inr (ap', t)"
      using that ap(1) r(1,2) d by (auto simp: printf_switch_def Let_def)
    with r(3) v(2) printed_args [OF r(3) ap(2)] show ?thesis by blast
  qed
  have char: ?thesis if "?d = 0x63"
  proof -
    from conv that obtain v where v: "as = Num v # as'" "bs = [ucast v]"
      by (auto split: list.splits rarg.splits)
    from args v(1) obtain ap' where ap: "ap = Word v # ap'" "list_all2 (arg_ok (mem s) buf) ap' as'"
      by (auto elim!: list_all2_Cons2E simp: arg_ok_cases)
    have "unat (ucast v :: u8) < 256" using unsigned_less [of "ucast v :: u8"] by simp
    then have "(of_char (char_of (unat (ucast v :: u8)) :: char) :: u8) = ucast v"
      by (simp add: word_unat_eq_iff unat_of_char)
    then have "printf_switch buf format (of_nat i) ap s = Inr (ap', emit (WHITE, BLACK, ucast v) s)"
      using that ap(1) ok d by (simp add: printf_switch_def kprint_c_one)
    moreover have p: "printed buf s (items WHITE BLACK bs) (emit (WHITE, BLACK, ucast v) s)"
      using printed_emits [OF ok, of buf "items WHITE BLACK bs"] v(2) by (simp add: items_def)
    ultimately show ?thesis using printed_args [OF p ap(2)] by blast
  qed
  have str: ?thesis if "?d = 0x73"
  proof -
    from conv that have v: "as = Text bs # as'" by (auto split: list.splits rarg.splits)
    from args v obtain p ap' where ap: "ap = Pointer p # ap'" "safe_cstr (mem s) buf p bs"
      "list_all2 (arg_ok (mem s) buf) ap' as'"
      by (auto elim!: list_all2_Cons2E simp: arg_ok_cases)
    from kprint_printed [OF ok ap(2)] obtain t where
      t: "kprint p s = Inr t" "printed buf s (items WHITE BLACK bs) t" by blast
    have "printf_switch buf format (of_nat i) ap s = Inr (ap', t)"
      using that ap(1) t(1) d by (simp add: printf_switch_def)
    with t(2) printed_args [OF t(2) ap(3)] show ?thesis by blast
  qed
  have other: ?thesis if "?d \<noteq> 0x69" "?d \<noteq> 0x78" "?d \<noteq> 0x64" "?d \<noteq> 0x63" "?d \<noteq> 0x73"
  proof -
    from conv that have v: "as = as'" "bs = [?d]" by auto
    have "printf_switch buf format (of_nat i) ap s = Inr (ap, emit (WHITE, BLACK, ?d) s)"
      using that ok d fs byte_at_ptr_add [OF fs(1), of i] by (simp add: printf_switch_def kprint_c_one)
    moreover have p: "printed buf s (items WHITE BLACK bs) (emit (WHITE, BLACK, ?d) s)"
      using printed_emits [OF ok, of buf "items WHITE BLACK bs"] v(2) by (simp add: items_def)
    ultimately show ?thesis using printed_args [OF p args] v(1) by blast
  qed
  have "?d \<noteq> 0x69" using conv by auto
  then show ?thesis using number char str other by blast
qed

text \<open>The scan over spaces.\<close>

lemma scan_spaces:
  assumes c: "cstr m p bs" and len: "Suc (length bs) < 2 ^ 32"
  shows "i \<le> length bs \<Longrightarrow> \<exists>j. while_res (\<lambda>i. byte_at m p i = 0x20) (\<lambda>i. Inr (i + 1)) (of_nat i) = Inr (of_nat j) \<and>
    i \<le> j \<and> j \<le> length bs \<and> drop j bs = skip_spaces (drop i bs)"
proof (induction "length bs - i" arbitrary: i)
  case 0
  then have "i = length bs" by simp
  with cstr_end [OF c] show ?case by (intro exI [of _ i]) (simp add: skip_spaces_def)
next
  case (Suc n)
  then have i: "i < length bs" by simp
  have drop: "drop i bs = bs ! i # drop (Suc i) bs" using i by (simp add: Cons_nth_drop_Suc)
  show ?case
  proof (cases "bs ! i = 0x20")
    case True
    have n: "n = length bs - Suc i" "Suc i \<le> length bs" using Suc.hyps(2) i by simp_all
    from Suc.hyps(1) [OF n] obtain j where
      j: "while_res (\<lambda>i. byte_at m p i = 0x20) (\<lambda>i. Inr (i + 1)) (of_nat (Suc i)) = Inr (of_nat j)"
        "Suc i \<le> j" "j \<le> length bs" "drop j bs = skip_spaces (drop (Suc i) bs)" by blast
    have "while_res (\<lambda>i. byte_at m p i = 0x20) (\<lambda>i. Inr (i + 1)) (of_nat i) =
        while_res (\<lambda>i. byte_at m p i = 0x20) (\<lambda>i. Inr (i + 1)) (of_nat (Suc i))"
      using cstr_nth [OF c i] True by (intro while_res_step) (simp_all add: add.commute)
    with j True drop show ?thesis by (intro exI [of _ j]) (simp add: skip_spaces_def)
  next
    case False
    with cstr_nth [OF c i] have "while_res (\<lambda>i. byte_at m p i = 0x20) (\<lambda>i. Inr (i + 1)) (of_nat i) = Inr (of_nat i)"
      by (intro while_res_stop) simp
    with False drop i show ?thesis by (intro exI [of _ i]) (simp add: skip_spaces_def)
  qed
qed

lemma printf_guard_iff:
  assumes "safe_cstr (mem s) buf format fs"
  shows "strlen (mem s) format = Inr (of_nat (length fs))"
    and "i < 2 ^ 32 \<Longrightarrow> printf_guard format (of_nat i, ap, s) \<longleftrightarrow> i < length fs"
proof -
  show l: "strlen (mem s) format = Inr (of_nat (length fs))"
    using assms by (simp add: safe_cstr_def strlen_cstr)
  then show "i < 2 ^ 32 \<Longrightarrow> printf_guard format (of_nat i, ap, s) \<longleftrightarrow> i < length fs"
    using assms of_nat_less32 [of i "length fs"] by (simp add: safe_cstr_def printf_guard_def)
qed

lemma printf_loop:
  assumes buf: "stack_ok buf"
  shows "render cs as = Some out \<Longrightarrow> cs = drop i fs \<Longrightarrow> i \<le> length fs \<Longrightarrow> tty_ok s \<Longrightarrow>
    safe_cstr (mem s) buf format fs \<Longrightarrow> list_all2 (arg_ok (mem s) buf) ap as \<Longrightarrow>
    \<exists>i' ap' t. while_res (printf_guard format) (printf_round buf format) (of_nat i, ap, s) = Inr (i', ap', t) \<and>
      printed buf s (items WHITE BLACK out) t"
proof (induction cs as arbitrary: i s ap out rule: render.induct)
  case (1 as)
  then have i: "i = length fs" and "out = []" by simp_all
  moreover have "\<not> printf_guard format (of_nat i, ap, s)"
    using printf_guard_iff(2) [OF 1(5), of i ap] 1(5) i by (simp add: safe_cstr_def)
  ultimately show ?case using printed_nil [OF 1(4)] by (simp add: items_def)
next
  case (2 c cs as)
  note fmt = "2.prems"(5)
  have c: "cstr (mem s) format fs" and len: "Suc (length fs) < 2 ^ 32" using fmt by (simp_all add: safe_cstr_def)
  have i: "i < length fs" using "2.prems"(2,3) by (cases "i < length fs") simp_all
  have at: "fs ! i = c" "drop (Suc i) fs = cs"
    using "2.prems"(2) i by (metis Cons_nth_drop_Suc list.inject)+
  have byte: "byte_at (mem s) format (of_nat i) = c" using cstr_nth [OF c i] at(1) by simp
  have "i < 2 ^ 32" using i len by simp
  then have g: "printf_guard format (of_nat i, ap, s)" using printf_guard_iff(2) [OF fmt] i by blast
  have step: ?case
    if round: "printf_round buf format (of_nat i, ap, s) = Inr (of_nat j, ap1, t)"
      and rest: "\<exists>i' ap' u. while_res (printf_guard format) (printf_round buf format) (of_nat j, ap1, t) = Inr (i', ap', u) \<and>
        printed buf t (items WHITE BLACK ys) u"
      and t: "printed buf s (items WHITE BLACK xs) t" "out = xs @ ys" for j ap1 t xs ys
  proof -
    from rest obtain i' ap' u where r: "while_res (printf_guard format) (printf_round buf format) (of_nat j, ap1, t) = Inr (i', ap', u)"
      "printed buf t (items WHITE BLACK ys) u" by blast
    have "printed buf s (items WHITE BLACK out) u"
      using printed_append [OF t(1) r(2)] t(2) by (simp add: items_def)
    with while_res_step [of "printf_guard format" _ "printf_round buf format", OF g round] r(1) show ?thesis by auto
  qed
  have tail: "\<exists>i' ap' u. while_res (printf_guard format) (printf_round buf format) (of_nat j, ap1, t) = Inr (i', ap', u) \<and>
      printed buf t [] u" if "j = Suc (length fs)" "printed buf s xs t" for j ap1 t xs
  proof -
    have "safe_cstr (mem t) buf format fs" by (rule printed_safe [OF that(2) fmt])
    then have "\<not> printf_guard format (of_nat j, ap1, t)" using printf_guard_iff(2) [of t buf format fs j ap1] len that(1) by simp
    then show ?thesis using that(2) by (auto simp: printed_def)
  qed
  show ?case
  proof (cases "c = 0x25")
    case False
    with "2.prems"(1) obtain out' where out: "render cs as = Some out'" "out = [c] @ out'" by auto
    let ?t = "emit (WHITE, BLACK, c) s"
    have p: "printed buf s (items WHITE BLACK [c]) ?t"
      using printed_emits [OF "2.prems"(4), of buf "items WHITE BLACK [c]"] by (simp add: items_def)
    have "printf_round buf format (of_nat i, ap, s) = Inr (of_nat (Suc i), ap, ?t)"
      using byte False printf_guard_iff(1) [OF fmt] "2.prems"(4) i byte_at_ptr_add [OF fmt, of i]
      by (simp add: printf_round_def kprint_c_one add.commute)
    moreover have "\<exists>i' ap' u. while_res (printf_guard format) (printf_round buf format) (of_nat (Suc i), ap, ?t) = Inr (i', ap', u) \<and>
        printed buf ?t (items WHITE BLACK out') u"
      using p i at(2) out(1) printed_args [OF p "2.prems"(6)] printed_safe [OF p fmt] False
      by (intro "2.IH"(1)) (simp_all add: printed_def)
    ultimately show ?thesis using step p out(2) by blast
  next
    case True
    have si: "Suc i \<le> length fs" using i by simp
    from scan_spaces [OF c len si] at(2) obtain j where
      scan: "while_res (\<lambda>i. byte_at (mem s) format i = 0x20) (\<lambda>i. Inr (i + 1)) (of_nat i + 1) = Inr (of_nat j)"
      and j: "Suc i \<le> j" "j \<le> length fs" "drop j fs = skip_spaces cs" by (auto simp: add.commute)
    have round: "printf_round buf format (of_nat i, ap, s) =
        bindE (printf_switch buf format (of_nat j) ap s) (\<lambda>(ap, s). Inr (of_nat (Suc j), ap, s))"
      using byte True printf_guard_iff(1) [OF fmt] scan by (simp add: printf_round_def add.commute)
    show ?thesis
    proof (cases "skip_spaces cs")
      case Nil
      with True "2.prems"(1) j have out: "out = [0] @ []" and jl: "j = length fs" by simp_all
      let ?t = "emit (WHITE, BLACK, 0) s"
      have p: "printed buf s (items WHITE BLACK [0]) ?t"
        using printed_emits [OF "2.prems"(4), of buf "items WHITE BLACK [0]"] by (simp add: items_def)
      have "printf_switch buf format (of_nat j) ap s = Inr (ap, ?t)"
        using cstr_end [OF c] jl "2.prems"(4) byte_at_ptr_add [OF fmt, of j]
        by (simp add: printf_switch_def kprint_c_one)
      with round have "printf_round buf format (of_nat i, ap, s) = Inr (of_nat (Suc j), ap, ?t)" by simp
      from step [OF this _ p out] tail [OF _ p, of "Suc j" ap] jl show ?thesis by (simp add: items_def)
    next
      case (Cons d ds)
      with j have jl: "j < length fs" by (cases "j < length fs") simp_all
      have d: "fs ! j = d" "drop (Suc j) fs = ds" using Cons j(3) jl by (metis Cons_nth_drop_Suc list.inject)+
      from "2.prems"(1) True Cons obtain bs as' out' where
        conv: "convert d as = Some (bs, as')" "render ds as' = Some out'" "out = bs @ out'"
        by (auto simp del: convert.simps split: option.splits)
      from switch_printed [OF "2.prems"(4) buf fmt jl _ "2.prems"(6)] conv(1) d(1) obtain ap' t where
        sw: "printf_switch buf format (of_nat j) ap s = Inr (ap', t)"
          "printed buf s (items WHITE BLACK bs) t" "list_all2 (arg_ok (mem t) buf) ap' as'"
        by (auto simp del: convert.simps)
      from round sw(1) have "printf_round buf format (of_nat i, ap, s) = Inr (of_nat (Suc j), ap', t)" by simp
      moreover have "\<exists>i' ap'' u. while_res (printf_guard format) (printf_round buf format) (of_nat (Suc j), ap', t) = Inr (i', ap'', u) \<and>
          printed buf t (items WHITE BLACK out') u"
        using True Cons conv sw(2,3) jl d(2) printed_safe [OF sw(2) fmt]
        by (intro "2.IH"(2) [of d ds "(bs, as')" bs as']) (simp_all add: printed_def del: convert.simps)
      ultimately show ?thesis using step sw(2) conv(3) by blast
    qed
  qed
qed

lemma printf_printed:
  assumes "tty_ok s" "stack_ok buf" "safe_cstr (mem s) buf format fs"
    "list_all2 (arg_ok (mem s) buf) ap as" "render fs as = Some out"
  shows "\<exists>t. printf buf format ap s = Inr t \<and> printed buf s (items WHITE BLACK out) t"
  using printf_loop [OF assms(2,5), of 0 fs s format ap] assms
  by (auto simp: printf_def)

section \<open>Sequences of messages\<close>

lemma printf_color_emits:
  assumes "tty_ok s" "safe_cstr (mem s) buf p bs"
  shows "printf_color p fg bg s = Inr (fold emit (items fg bg bs) s)"
proof -
  have c: "cstr (mem s) p bs" using assms(2) by (simp add: safe_cstr_def)
  have "kprint_c p (of_nat (length bs)) fg bg s = fold emit (items fg bg bs) s"
    using kprint_c_emits [OF assms(1) safe_cstr_off_screen [OF assms(2)]] bytes_at_cstr [OF c] cstr_length [OF c]
    by (simp add: unat_of_nat32)
  with c show ?thesis by (simp add: printf_color_def strlen_cstr)
qed

text \<open>
  A state from which messages can be printed: the cursor is on the screen and the strings
  \<open>ps\<close> are where printing does not reach. \<open>talks\<close> says that a step prints and returns.
\<close>

definition ready :: "u32 \<Rightarrow> (ptr \<times> u8 list) set \<Rightarrow> 'a tty_scheme \<Rightarrow> bool" where
  "ready buf ps s \<longleftrightarrow> tty_ok s \<and> stack_ok buf \<and> (\<forall>(p, bs) \<in> ps. safe_cstr (mem s) buf p bs)"

lemma ready_printed: "ready buf ps s \<Longrightarrow> printed buf s cs t \<Longrightarrow> ready buf ps t"
  using printed_safe [of buf s cs t] by (fastforce simp: ready_def printed_def)

lemma printed_bind:
  assumes "\<exists>t. r = Inr t \<and> printed buf s xs t" and "ready buf ps s"
    and "\<And>t. printed buf s xs t \<Longrightarrow> ready buf ps t \<Longrightarrow> \<exists>u. k t = Inr u \<and> printed buf t ys u"
  shows "\<exists>u. bindE r k = Inr u \<and> printed buf s (xs @ ys) u"
proof -
  from assms(1) obtain t where t: "r = Inr t" "printed buf s xs t" by blast
  from assms(3) [OF t(2) ready_printed [OF assms(2) t(2)]] obtain u where "k t = Inr u" "printed buf t ys u" by blast
  with t printed_append show ?thesis by (metis bindE_simps(2))
qed

lemma color_printed:
  "ready buf ps s \<Longrightarrow> proper_lit cs \<Longrightarrow> Suc (length cs) < 2 ^ 32 \<Longrightarrow>
   \<exists>t. printf_color (Lit cs) fg bg s = Inr t \<and> printed buf s (items fg bg (lit_bytes cs)) t"
  using printf_color_emits [of s buf "Lit cs" "lit_bytes cs" fg bg] safe_cstr_Lit [of cs "mem s" buf] printed_emits [of s]
  by (auto simp: ready_def)

lemma color_ptr_printed:
  "ready buf ps s \<Longrightarrow> (p, bs) \<in> ps \<Longrightarrow> \<exists>t. printf_color p fg bg s = Inr t \<and> printed buf s (items fg bg bs) t"
  using printf_color_emits [of s buf p bs fg bg] printed_emits [of s] by (fastforce simp: ready_def)

lemma format_printed:
  assumes "ready buf ps s" "proper_lit cs" "Suc (length cs) < 2 ^ 32"
    and "list_all2 (arg_ok (mem s) buf) ap as" "render (lit_bytes cs) as = Some out"
  shows "\<exists>t. printf buf (Lit cs) ap s = Inr t \<and> printed buf s (items WHITE BLACK out) t"
  using printf_printed [of s buf "Lit cs" "lit_bytes cs" ap as out] assms
  by (simp add: ready_def safe_cstr_Lit)

lemmas literal = proper_lit_def lit_bytes_def skip_spaces_def

lemma KINFO_printed:
  "ready buf ps s \<Longrightarrow> \<exists>t. KINFO buf s = Inr t \<and> printed buf s
     (items WHITE BLACK [0x5B] @ items LIGHT_RED BLACK (lit_bytes '' I '') @ items WHITE BLACK [0x5D, 0x3A, 0x20]) t"
  unfolding KINFO_def
  by (intro printed_bind [where ps = ps] format_printed [where as = "[]"] color_printed)
    (simp_all add: literal)

text \<open>
  A chain of messages: since \<open>s0\<close> the items \<open>xs\<close> were printed, the interrupt flag is \<open>b\<close>, and memory
  differs in the frame buffer and the 20 bytes at \<open>buf\<close> only. One rule for each kind of message.
\<close>

definition chain ::
    "u32 \<Rightarrow> (ptr \<times> u8 list) set \<Rightarrow> 'a tty_scheme \<Rightarrow> bool \<Rightarrow> (color \<times> color \<times> u8) list \<Rightarrow> 'a tty_scheme \<Rightarrow> bool" where
  "chain buf ps s0 b xs s \<longleftrightarrow> ready buf ps s \<and> interrupts_on s = b \<and> screen s = fold term_put xs (screen s0) \<and>
     same_outside (print_mem buf) (mem s0) (mem s) \<and> tty.more s = tty.more s0"

lemma chain_ready: "chain buf ps s0 b xs s \<Longrightarrow> ready buf ps s"
  by (simp add: chain_def)

lemma chain_printed: "chain buf ps s0 b xs s \<Longrightarrow> printed buf s ys t \<Longrightarrow> chain buf ps s0 b (xs @ ys) t"
  using ready_printed [of buf ps s ys t] by (auto simp: chain_def printed_def print_frame_def intro: same_outside_trans)

lemma chain_cli: "chain buf ps s0 b xs s \<Longrightarrow> chain buf ps s0 False xs (cli s)"
  by (simp add: chain_def ready_def cli_def tty_ok_def screen_def cong: if_cong)

lemma chain_step:
  assumes "chain buf ps s0 b xs s" "\<exists>t. r = Inr t \<and> printed buf s ys t"
    and "\<And>t. chain buf ps s0 b (xs @ ys) t \<Longrightarrow> \<exists>u. k t = Inr u \<and> Q u"
  shows "\<exists>u. bindE r k = Inr u \<and> Q u"
  using assms(2,3) chain_printed [OF assms(1)] by fastforce

lemma chain_last:
  assumes "chain buf ps s0 b xs s" "\<exists>t. r = Inr t \<and> printed buf s ys t"
  shows "\<exists>u. r = Inr u \<and> chain buf ps s0 b (xs @ ys) u"
  using assms(2) chain_printed [OF assms(1)] by blast

lemma chain_color:
  "chain buf ps s0 b xs s \<Longrightarrow> proper_lit cs \<Longrightarrow> Suc (length cs) < 2 ^ 32 \<Longrightarrow>
   (\<And>t. chain buf ps s0 b (xs @ items fg bg (lit_bytes cs)) t \<Longrightarrow> \<exists>u. k t = Inr u \<and> Q u) \<Longrightarrow>
   \<exists>u. bindE (printf_color (Lit cs) fg bg s) k = Inr u \<and> Q u"
  by (rule chain_step [OF _ color_printed [OF chain_ready]])

lemma chain_color_ptr:
  "chain buf ps s0 b xs s \<Longrightarrow> (p, bs) \<in> ps \<Longrightarrow>
   (\<And>t. chain buf ps s0 b (xs @ items fg bg bs) t \<Longrightarrow> \<exists>u. k t = Inr u \<and> Q u) \<Longrightarrow>
   \<exists>u. bindE (printf_color p fg bg s) k = Inr u \<and> Q u"
  by (rule chain_step [OF _ color_ptr_printed [OF chain_ready]])

definition info_items :: "(color \<times> color \<times> u8) list" where
  "info_items = items WHITE BLACK [0x5B] @ items LIGHT_RED BLACK (lit_bytes '' I '') @ items WHITE BLACK [0x5D, 0x3A, 0x20]"

lemma chain_info:
  "chain buf ps s0 b xs s \<Longrightarrow>
   (\<And>t. chain buf ps s0 b (xs @ info_items) t \<Longrightarrow> \<exists>u. k t = Inr u \<and> Q u) \<Longrightarrow>
   \<exists>u. bindE (KINFO buf s) k = Inr u \<and> Q u"
  unfolding info_items_def by (rule chain_step [OF _ KINFO_printed [OF chain_ready]])

lemma chain_format:
  "chain buf ps s0 b xs s \<Longrightarrow> proper_lit cs \<Longrightarrow> Suc (length cs) < 2 ^ 32 \<Longrightarrow>
   list_all2 (arg_ok (mem s) buf) ap as \<Longrightarrow> render (lit_bytes cs) as = Some out \<Longrightarrow>
   (\<And>t. chain buf ps s0 b (xs @ items WHITE BLACK out) t \<Longrightarrow> \<exists>u. k t = Inr u \<and> Q u) \<Longrightarrow>
   \<exists>u. bindE (printf buf (Lit cs) ap s) k = Inr u \<and> Q u"
  by (rule chain_step [OF _ format_printed [OF chain_ready]])

text \<open>What a panic shows.\<close>

definition panic_reason :: "string \<Rightarrow> string \<Rightarrow> u32 \<Rightarrow> u8 list" where
  "panic_reason msg file line = [0x27] @ lit_bytes msg @ lit_bytes ([CHR 0x27] @ '' at '' @ [CHR 0x27]) @ lit_bytes file @
     [0x27, 0x3A] @ uitoa_text line 10 @ [0x0A]"

definition panic_items :: "string \<Rightarrow> string \<Rightarrow> string \<Rightarrow> u32 \<Rightarrow> (color \<times> color \<times> u8) list" where
  "panic_items v msg file line =
     items LIGHT_MAGENTA BLACK (lit_bytes (''============================================='' @ LF)) @
     items LIGHT_RED BLACK (lit_bytes (''          .:: KERNEL PANIC ::.  '' @ LF)) @
     items LIGHT_BROWN BLACK (lit_bytes ''Reason: '') @ items WHITE BLACK (panic_reason msg file line) @
     info_items @ items LIGHT_GREEN BLACK (lit_bytes (''Disabling interrupts'' @ LF)) @
     info_items @ items LIGHT_GREEN BLACK (lit_bytes (''Dropping you into an endless loop'' @ LF)) @
     info_items @ items LIGHT_GREEN BLACK (lit_bytes (''Your are on your own now...good luck.'' @ LF)) @
     info_items @ items LIGHT_GREEN BLACK (lit_bytes ''VulcanOS version: '') @ items LIGHT_CYAN BLACK (lit_bytes v) @
     items LIGHT_BROWN BLACK (lit_bytes (LF @ [CHR 0x09, CHR 0x09] @ '' (c) 2019-2021 Marco Cetica'')) @
     items LIGHT_MAGENTA BLACK (lit_bytes (LF @ ''============================================='' @ LF))"

lemma panic_renders:
  "render (lit_bytes ([CHR 0x27] @ ''%s'' @ [CHR 0x27] @ '' at '' @ [CHR 0x27] @ ''%s'' @ [CHR 0x27] @ '':%d'' @ LF))
     [Text (lit_bytes msg), Text (lit_bytes file), Num line] = Some (panic_reason msg file line)"
  by (simp add: lit_bytes_def skip_spaces_def panic_reason_def)

lemma panic_screen_returns:
  assumes rdy: "ready stk {(At (stk + 32), lit_bytes v)} (s\<lparr>mem := m\<rparr>)"
    and cpy: "strcpy (mem s) (stk + 32) (Lit v) = Inr m"
    and msg: "proper_lit msg" "Suc (length msg) < 2 ^ 32" "proper_lit file" "Suc (length file) < 2 ^ 32"
  shows "\<exists>t. panic_screen v stk (Lit msg) (Lit file) line s = Inr t \<and>
    chain stk {(At (stk + 32), lit_bytes v)} (s\<lparr>mem := m\<rparr>) False (panic_items v msg file line) t"
proof -
  let ?ps = "{(At (stk + 32), lit_bytes v)}" and ?s = "s\<lparr>mem := m\<rparr>"
  have args: "list_all2 (arg_ok m' stk) [Pointer (Lit msg), Pointer (Lit file), Word line]
      [Text (lit_bytes msg), Text (lit_bytes file), Num line]" for m'
    using msg by (simp add: safe_cstr_Lit)
  have start: "chain stk ?ps ?s (interrupts_on s) [] ?s" using rdy by (simp add: chain_def)
  have flat: "panic_items v msg file line = (((((((((((((((
      [] @ items LIGHT_MAGENTA BLACK (lit_bytes (''============================================='' @ LF))) @
      items LIGHT_RED BLACK (lit_bytes (''          .:: KERNEL PANIC ::.  '' @ LF))) @
      items LIGHT_BROWN BLACK (lit_bytes ''Reason: '')) @ items WHITE BLACK (panic_reason msg file line)) @ info_items) @
      items LIGHT_GREEN BLACK (lit_bytes (''Disabling interrupts'' @ LF))) @ info_items) @
      items LIGHT_GREEN BLACK (lit_bytes (''Dropping you into an endless loop'' @ LF))) @ info_items) @
      items LIGHT_GREEN BLACK (lit_bytes (''Your are on your own now...good luck.'' @ LF))) @ info_items) @
      items LIGHT_GREEN BLACK (lit_bytes ''VulcanOS version: '')) @ items LIGHT_CYAN BLACK (lit_bytes v)) @
      items LIGHT_BROWN BLACK (lit_bytes (LF @ [CHR 0x09, CHR 0x09] @ '' (c) 2019-2021 Marco Cetica''))) @
      items LIGHT_MAGENTA BLACK (lit_bytes (LF @ ''============================================='' @ LF)))"
    by (simp add: panic_items_def)
  show ?thesis
    unfolding panic_screen_def cpy Let_def bindE_simps flat
    by (rule chain_color [OF start], simp add: literal, simp,
        (rule chain_color, assumption, simp add: literal, simp)+,
        rule chain_format [OF _ _ _ args panic_renders], assumption, simp add: literal, simp,
        rule chain_info, assumption, rule chain_color, assumption, simp add: literal, simp,
        (rule chain_info, erule chain_cli | rule chain_info, assumption), rule chain_color, assumption, simp add: literal, simp,
        rule chain_info, assumption, rule chain_color, assumption, simp add: literal, simp,
        rule chain_info, assumption, rule chain_color, assumption, simp add: literal, simp,
        rule chain_color_ptr, assumption, simp, rule chain_color, assumption, simp add: literal, simp,
        rule chain_last [OF _ color_printed [OF chain_ready]], assumption, assumption, simp add: literal, simp)
qed

lemma ready_kprint:
  assumes "ready buf ps s" "proper_lit cs" "Suc (length cs) < 2 ^ 32"
  shows "\<exists>t. (if b then kprint (Lit cs) s else Inr s) = Inr t \<and>
    printed buf s (if b then items WHITE BLACK (lit_bytes cs) else []) t"
  using assms kprint_printed [of s buf "Lit cs" "lit_bytes cs"] printed_nil [of s buf]
  by (auto simp: ready_def safe_cstr_Lit)

text \<open>Room for the version string, and a version string that fits: then a panic is final.\<close>

definition panic_room :: "string \<Rightarrow> u32 \<Rightarrow> bool" where
  "panic_room v stk \<longleftrightarrow> stack_ok stk \<and> unat stk + 96 < 2 ^ 32 \<and> apart 96 stk 7840 VIDEO_MEM_ADDR \<and>
     proper_lit v \<and> length v < 64"

lemma panic_final:
  assumes "tty_ok s" "panic_room v stk"
    and msg: "proper_lit msg" "Suc (length msg) < 2 ^ 32" "proper_lit file" "Suc (length file) < 2 ^ 32"
  shows "(\<exists>t. panic_screen v stk (Lit msg) (Lit file) line s = Inr t \<and> tty_ok t \<and> \<not> interrupts_on t \<and>
      screen t = fold term_put (panic_items v msg file line) (screen s) \<and>
      same_outside (vga \<union> span stk 96) (mem s) (mem t) \<and> tty.more t = tty.more s) \<and>
    panic v stk msg (Lit file) line s = Inl (Panic msg)"
proof -
  have room: "stack_ok stk" "unat stk + 96 < 2 ^ 32" "apart 96 stk 7840 VIDEO_MEM_ADDR" "proper_lit v" "length v < 64"
    using assms(2) by (simp_all add: panic_room_def)
  let ?n = "of_nat (Suc (length v)) :: u32"
  have len: "length (lit_bytes v) = length v" by (simp add: lit_bytes_def)
  have n: "unat ?n = Suc (length v)" using room(5) by (intro unat_of_nat32) simp
  from strcpy_cstr [OF cstr_Lit [OF room(4), of "mem s"], of "stk + 32"] room(5) len obtain m where
    m: "strcpy (mem s) (stk + 32) (Lit v) = Inr m" "cstr m (At (stk + 32)) (lit_bytes v)" "same_outside (span (stk + 32) ?n) (mem s) m" by auto
  have "apart 7840 VIDEO_MEM_ADDR 96 stk" using room(3) by (simp add: apart_commute)
  then have off: "apart 7840 VIDEO_MEM_ADDR ?n (stk + 32)"
    by (rule apart_sub) (use n room(5) in \<open>simp_all add: word_less_nat_alt\<close>)
  moreover have "apart 20 stk ?n (stk + 32)"
    using n room(2,5) by (intro apart_below) (simp_all add: unat_add32)
  ultimately have "safe_cstr m stk (At (stk + 32)) (lit_bytes v)"
    using m(2) room(5) len by (simp add: safe_cstr_def apart_commute del: of_nat_Suc)
  then have "ready stk {(At (stk + 32), lit_bytes v)} (s\<lparr>mem := m\<rparr>)"
    using assms(1) room(1) by (simp add: ready_def tty_ok_def)
  from panic_screen_returns [OF this m(1) msg, of line] obtain t where
    t: "panic_screen v stk (Lit msg) (Lit file) line s = Inr t"
      "chain stk {(At (stk + 32), lit_bytes v)} (s\<lparr>mem := m\<rparr>) False (panic_items v msg file line) t" by blast
  have parts: "span (stk + 32) ?n \<subseteq> span stk 96" "span stk 20 \<subseteq> span stk 96"
    using span_part [of 32 ?n 96 stk] n room(5) span_mono [of 20 96 stk] by (simp_all del: of_nat_Suc)
  have "same_outside (span stk 96) (mem s) m" using m(3) parts(1) by (rule same_outside_mono)
  then have "same_outside (vga \<union> span stk 96) (mem s) m" by (rule same_outside_mono) blast
  moreover have "same_outside (vga \<union> span stk 20) m (mem t)" using t(2) by (simp add: chain_def)
  then have "same_outside (vga \<union> span stk 96) m (mem t)" by (rule same_outside_mono) (use parts(2) in blast)
  ultimately have "same_outside (vga \<union> span stk 96) (mem s) (mem t)" by (rule same_outside_trans)
  moreover have "screen (s\<lparr>mem := m\<rparr>) = screen s"
    using off m(3) by (intro screen_apart) (simp_all add: apart_commute)
  ultimately show ?thesis using t by (auto simp: panic_def chain_def ready_def)
qed

section \<open>Properties\<close>

text \<open>
  C12: \<^verbatim>\<open>printf\<close> returns, and prints exactly the text that its format and arguments
  stand for: plain characters as they are, \<^verbatim>\<open>%x\<close> and \<^verbatim>\<open>%d\<close> in hexadecimal with
  prefix and in decimal, \<^verbatim>\<open>%c\<close> and \<^verbatim>\<open>%s\<close>, a percent sign followed by spaces as
  without them, an unknown conversion as its character. The terminal changes as the abstract
  terminal does when it is sent that text; besides the frame buffer and the 20 bytes of
  \<^verbatim>\<open>buf\<close> no memory changes, so the digits never overflow the buffer.
\<close>

theorem printf_renders:
  assumes "tty_ok s" "stack_ok buf" "safe_cstr (mem s) buf format fs"
    "list_all2 (arg_ok (mem s) buf) ap as" "render fs as = Some out"
  shows "\<exists>t. printf buf format ap s = Inr t \<and> tty_ok t \<and>
    screen t = fold term_put (map (\<lambda>b. (WHITE, BLACK, b)) out) (screen s) \<and>
    same_outside (vga \<union> span buf 20) (mem s) (mem t)"
  using printf_printed [OF assms] by (auto simp: printed_def print_frame_def items_def)

lemma stack_example: "stack_ok 0x90000"
  by (simp add: stack_ok_def apart_def word_le_nat_alt)

theorem printf_renders_witness:
  "\<exists>t. printf 0x90000 (Lit ''x: %x%'') [Word 0x2A] power_on = Inr t \<and>
    screen t = fold term_put (map (\<lambda>b. (WHITE, BLACK, b)) [0x78, 0x3A, 0x20, 0x30, 0x78, 0x32, 0x61, 0]) (screen power_on)"
proof -
  have "tty_ok power_on" by (simp add: tty_ok_def power_on_def)
  moreover have "safe_cstr (mem power_on) 0x90000 (Lit ''x: %x%'') (lit_bytes ''x: %x%'')"
    by (rule safe_cstr_Lit) (simp_all add: proper_lit_def)
  moreover have "list_all2 (arg_ok (mem power_on) 0x90000) [Word 0x2A] [Num 0x2A]" by simp
  moreover have "uitoa_text 0x2A 16 = [0x30, 0x78, 0x32, 0x61]"
    by (simp add: uitoa_text_def digits.simps digit_char_def)
  then have "render (lit_bytes ''x: %x%'') [Num 0x2A] = Some [0x78, 0x3A, 0x20, 0x30, 0x78, 0x32, 0x61, 0]"
    by (simp add: lit_bytes_def skip_spaces_def)
  ultimately show ?thesis
    using printf_renders [OF _ stack_example, of power_on "Lit ''x: %x%''"] by blast
qed

text \<open>
  C30: A panic is final and visible: with literal message and file name, and a version string
  that fits its array, no step of \<^verbatim>\<open>panic\<close> fails or runs on. When the kernel enters its endless loop the screen
  has been sent exactly the report: the banner, the message with file name and line in decimal, the notes about the interrupts
  and the loop, the version string and the last banner; interrupts are off, memory differs in the frame
  buffer and 96 bytes of the stack only, no variable has changed, and the call has no result other than that panic.
\<close>

theorem panic_halts:
  assumes "tty_ok s" "stack_ok stk" "unat stk + 96 < 2 ^ 32" "apart 96 stk 7840 VIDEO_MEM_ADDR"
    and "proper_lit v" "length v < 64"
    and "proper_lit msg" "Suc (length msg) < 2 ^ 32" "proper_lit file" "Suc (length file) < 2 ^ 32"
  shows "(\<exists>t. panic_screen v stk (Lit msg) (Lit file) line s = Inr t \<and> tty_ok t \<and> \<not> interrupts_on t \<and>
      screen t = fold term_put (panic_items v msg file line) (screen s) \<and>
      same_outside (vga \<union> span stk 96) (mem s) (mem t) \<and> tty.more t = tty.more s) \<and>
    panic v stk msg (Lit file) line s = Inl (Panic msg)"
  using assms by (intro panic_final) (simp_all add: panic_room_def)

theorem panic_halts_witness:
  "panic ''5fb9a3c'' 0x90000 ''Page fault'' (Lit ''paging.c'') 140 power_on = (Inl (Panic ''Page fault'') :: kerror + unit) \<and>
   (\<exists>t. panic_screen ''5fb9a3c'' 0x90000 (Lit ''Page fault'') (Lit ''paging.c'') 140 power_on = Inr t \<and>
     screen t = fold term_put (panic_items ''5fb9a3c'' ''Page fault'' ''paging.c'' 140) (screen power_on))"
proof -
  have "tty_ok power_on" by (simp add: tty_ok_def power_on_def)
  from panic_halts [OF this stack_example, of "''5fb9a3c''" "''Page fault''" "''paging.c''" 140, where ?'b = unit]
  show ?thesis by (auto simp: proper_lit_def apart_def word_le_nat_alt)
qed

end
