(* ===== verification/Kernel_State.thy ===== *)
theory Kernel_State
  imports Kheap Stdio
begin

text \<open>
  The state of the whole kernel: the memory manager's (with the console and the machine
  below it) and the global variables of the drivers, and \<open>env\<close>, what the C code is given
  from outside: by the build (the version string), by the linker and the stack (the address of
  the local arrays, the bytes that follow the table of scan codes), and by the processor
  (\<^verbatim>\<open>cpuid\<close>, \<^verbatim>\<open>cr2\<close>, the registers that the shell shows).
\<close>

section \<open>Structures of the drivers\<close>

text \<open>The entry of \<^verbatim>\<open>interrupt_handler\<close>: the three functions the kernel registers.\<close>

datatype isr_t = Timer_callback | Keyboard_callback | Page_fault

text \<open>\<^verbatim>\<open>struct registers\<close> of \<^verbatim>\<open>isr.h\<close>.\<close>

record registers_t =
  reg_ds :: u32
  reg_edi :: u32
  reg_esi :: u32
  reg_ebp :: u32
  reg_esp :: u32
  reg_ebx :: u32
  reg_edx :: u32
  reg_ecx :: u32
  reg_eax :: u32
  int_num :: u32
  err_code :: u32
  reg_eip :: u32
  reg_cs :: u32
  reg_eflags :: u32
  reg_usereap :: u32
  reg_ss :: u32

text \<open>The bit fields of \<^verbatim>\<open>gdt.h\<close> and \<^verbatim>\<open>idt.h\<close>.\<close>

record gdt_access =
  acc_type :: "4 word"
  acc_dt :: "1 word"
  acc_dpl :: "2 word"
  acc_p :: "1 word"

record gdt_granularity =
  seglen :: "4 word"
  gran_zero :: "2 word"
  gran_d :: "1 word"
  gran_g :: "1 word"

record gdt_entry_struct =
  limit_low :: u16
  base_low :: u16
  base_middle :: u8
  access :: gdt_access
  granularity :: gdt_granularity
  base_high :: u8

record gdt_ptr =
  gdt_limit :: u16
  gdt_base :: u32

record idt_flags =
  flags_reserved :: "5 word"
  flags_dpl :: "2 word"
  flags_p :: "1 word"

record idt_entry =
  idt_base_low :: u16
  seg_sel :: u16
  idt_reserved :: u8
  flags :: idt_flags
  idt_base_high :: u16

record idt_ptr =
  idt_limit :: u16
  idt_base :: u32

section \<open>The state\<close>

text \<open>
  \<open>gdtr\<close> and \<open>idtr\<close> are the processor registers that \<^verbatim>\<open>gdt_flush\<close> and
  \<^verbatim>\<open>idt_flush\<close> load, \<open>cr3\<close> and \<open>paging_on\<close> those that \<^verbatim>\<open>enable_paging\<close> sets.
  The arrays \<^verbatim>\<open>command\<close> and \<^verbatim>\<open>temp\<close> are memory; the fields are their addresses.
\<close>

record kernel = mm +
  gdt_entries :: "gdt_entry_struct list"
  gdtr :: "gdt_ptr option"
  idt_entries :: "idt_entry list"
  idtr :: "idt_ptr option"
  interrupt_handler :: "u8 \<Rightarrow> isr_t option"
  tick :: u32
  command :: u32
  temp :: u32
  cmd_index :: u32
  shiftdown :: u32
  cr3 :: u32
  paging_on :: bool

record env =
  stk :: u32
  version :: string
  cpuid_instr :: "u32 \<Rightarrow> u32 \<times> u32 \<times> u32"
  cr2 :: u32
  dump :: "u32 list"
  past_scan_codes :: "u8 \<Rightarrow> u8"

text \<open>A machine before the kernel runs, with empty memory, for the examples.\<close>

definition power_up :: kernel where
  "power_up = \<lparr>mem = (\<lambda>a. 0), port_out = [], port_in = (\<lambda>n p. 0), port_reads = 0,
     interrupts_on = False, fb_col = 1, fb_row = 0, placement_addr = 0x200000, kheap = None,
     frame_allocations = 0, nframes = 0, kernel_directory = 0, current_directory = 0,
     gdt_entries = [], gdtr = None, idt_entries = [], idtr = None,
     interrupt_handler = (\<lambda>n. None), tick = 0, command = 0x1F0000, temp = 0x1F0200,
     cmd_index = 0, shiftdown = 0, cr3 = 0, paging_on = False\<rparr>"

lemma power_up_simps [simp]:
  "mem power_up = (\<lambda>a. 0)" "port_out power_up = []" "port_in power_up = (\<lambda>n p. 0)"
  "port_reads power_up = 0" "interrupts_on power_up = False" "fb_col power_up = 1"
  "fb_row power_up = 0" "tty_ok power_up" "kheap power_up = None"
  "placement_addr power_up = 0x200000" "interrupt_handler power_up = (\<lambda>n. None)"
  "tick power_up = 0" "command power_up = 0x1F0000" "temp power_up = 0x1F0200"
  "cmd_index power_up = 0" "shiftdown power_up = 0"
  by (simp_all add: power_up_def tty_ok_def)

definition registers_for :: "u32 \<Rightarrow> registers_t" where
  "registers_for n = \<lparr>reg_ds = 0x10, reg_edi = 0, reg_esi = 0, reg_ebp = 0, reg_esp = 0, reg_ebx = 0,
     reg_edx = 0, reg_ecx = 0, reg_eax = 0, int_num = n, err_code = 0, reg_eip = 0, reg_cs = 0x08,
     reg_eflags = 0, reg_usereap = 0, reg_ss = 0x10\<rparr>"

lemma int_num_registers [simp]: "int_num (registers_for n) = n"
  by (simp add: registers_for_def)

definition demo_env :: env where
  "demo_env = \<lparr>stk = 0x90000, version = ''5fb9a3c'',
     cpuid_instr = (\<lambda>leaf. if leaf = 0 then (1, 0x756e6547, 0) else (0x6A0, 0, 0)),
     cr2 = 0, dump = replicate 8 0, past_scan_codes = (\<lambda>i. 0)\<rparr>"

end
