(* ===== verification/Interrupts.thy ===== *)
theory Interrupts
  imports Kernel_State
begin

text \<open>
  Interrupt dispatch, \<^verbatim>\<open>kernel/drivers/isr.c\<close>, and the timer,
  \<^verbatim>\<open>kernel/drivers/timer.c\<close>. The dispatcher is parametric in \<open>run\<close>, the effect of calling
  a registered handler, since the handlers include the keyboard, whose shell raises software
  interrupts; the root theory ties the knot.
\<close>

section \<open>The operations of isr.c\<close>

abbreviation PIC1_COMMAND :: u16 where "PIC1_COMMAND \<equiv> 0x20"
abbreviation PIC1_DATA :: u16 where "PIC1_DATA \<equiv> 0x21"
abbreviation PIC2_COMMAND :: u16 where "PIC2_COMMAND \<equiv> 0xA0"
abbreviation PIC2_DATA :: u16 where "PIC2_DATA \<equiv> 0xA1"
abbreviation PIC_EOI :: u16 where "PIC_EOI \<equiv> 0x20"
abbreviation IRQ0 :: u8 where "IRQ0 \<equiv> 32"
abbreviation IRQ1 :: u8 where "IRQ1 \<equiv> 33"

definition interrupts_messages :: "string list" where
  "interrupts_messages =
     [''Division by Zero'', ''Debug'', ''Non-maskable interrupt'', ''Breakpoint'',
      ''Detected overflow'', ''Out-of-bounds'', ''Invalid opcode'', ''No coprocessor'',
      ''Double fault'', ''Coprocessor segment overrun'', ''Bad TSS'', ''Segment not present'',
      ''Stack fault'', ''General protection fault'', ''Page fault'', ''Unknown interrupt'',
      ''Coprocessor fault'', ''Alignment check'', ''Machine check''] @ replicate 13 ''Reserved''"

type_synonym 'a runner = "isr_t \<Rightarrow> registers_t \<Rightarrow> 'a kernel_scheme \<Rightarrow> kerror + 'a kernel_scheme"

text \<open>
  The table has 256 entries and 32 messages; an index beyond the table is undefined. The
  message index is cast to \<^verbatim>\<open>uint8_t\<close>.
\<close>

definition handler_at :: "u32 \<Rightarrow> 'a kernel_scheme \<Rightarrow> kerror + isr_t option" where
  "handler_at n s = (if n < 256 then Inr (interrupt_handler s (ucast n))
     else Inl (Undefined_behaviour ''interrupt_handler''))"

definition isr_handler ::
    "'a runner \<Rightarrow> registers_t \<Rightarrow> 'a kernel_scheme \<Rightarrow> kerror + 'a kernel_scheme" where
  "isr_handler run regs s =
     bindE (handler_at (int_num regs) s) (\<lambda>h. case h of
       Some handler \<Rightarrow> run handler regs s
     | None \<Rightarrow>
        let buf = Lit (LF @ ''Received interrupt: '') in
        bindE (strlen (mem s) buf) (\<lambda>n.
          let s = kprint_c buf n LIGHT_BROWN BLACK s; i = unat (ucast (int_num regs) :: u8) in
          if i < length interrupts_messages then
            let msg = Lit (interrupts_messages ! i) in
            bindE (strlen (mem s) msg) (\<lambda>n. Inr (kprint_c msg n WHITE BLACK s))
          else Inl (Undefined_behaviour ''interrupts_messages'')))"

definition ack_irq :: "u32 \<Rightarrow> 'a machine_scheme \<Rightarrow> 'a machine_scheme" where
  "ack_irq n s = outb PIC1_COMMAND PIC_EOI (if n \<ge> 40 then outb PIC2_COMMAND PIC_EOI s else s)"

definition irq_handler ::
    "'a runner \<Rightarrow> registers_t \<Rightarrow> 'a kernel_scheme \<Rightarrow> kerror + 'a kernel_scheme" where
  "irq_handler run regs s =
     (let s = ack_irq (int_num regs) s in
      bindE (handler_at (int_num regs) s) (\<lambda>h. case h of
        Some handler \<Rightarrow> run handler regs s
      | None \<Rightarrow> Inr s))"

definition register_interrupt_handler ::
    "u8 \<Rightarrow> isr_t \<Rightarrow> 'a kernel_scheme \<Rightarrow> 'a kernel_scheme" where
  "register_interrupt_handler n handler s =
     s\<lparr>interrupt_handler := (interrupt_handler s)(n := Some handler)\<rparr>"

section \<open>The timer\<close>

definition timer_callback :: "'a kernel_scheme \<Rightarrow> 'a kernel_scheme" where
  "timer_callback s = s\<lparr>tick := tick s + 1\<rparr>"

definition init_timer :: "u32 \<Rightarrow> 'a kernel_scheme \<Rightarrow> kerror + 'a kernel_scheme" where
  "init_timer frequency s =
     (let s = register_interrupt_handler IRQ0 Timer_callback s in
      if frequency = 0 then Inl Division_by_zero
      else
        let divisor = 1193180 div frequency;
            s = outb 0x43 0x36 s;
            low = (ucast (divisor AND 0xFF) :: u8);
            high = (ucast (drop_bit 8 divisor AND 0xFF) :: u8)
        in Inr (outb 0x40 (ucast high) (outb 0x40 (ucast low) s)))"

section \<open>Frames\<close>

lemma register_simps [simp]:
  "mem (register_interrupt_handler n h s) = mem s"
  "tty_ok (register_interrupt_handler n h s) = tty_ok s"
  "interrupt_handler (register_interrupt_handler n h s) = (interrupt_handler s)(n := Some h)"
  by (simp_all add: register_interrupt_handler_def tty_ok_def)

lemma ack_irq_simps [simp]:
  "mem (ack_irq n s) = mem s" "machine.more (ack_irq n s) = machine.more s"
  "port_in (ack_irq n s) = port_in s" "port_reads (ack_irq n s) = port_reads s"
  "interrupts_on (ack_irq n s) = interrupts_on s"
  "port_out (ack_irq n s) = port_out s @ (if n \<ge> 40 then [(PIC2_COMMAND, 0x20)] else []) @ [(PIC1_COMMAND, 0x20)]"
  by (simp_all add: ack_irq_def)

lemma ack_irq_kernel [simp]:
  "tick (ack_irq n s) = tick s" "interrupt_handler (ack_irq n s) = interrupt_handler s"
  by (simp_all add: ack_irq_def outb_def)

lemma handler_at_simps [simp]: "n < 256 \<Longrightarrow> handler_at n s = Inr (interrupt_handler s (ucast n))"
  by (simp add: handler_at_def)

lemma length_messages [simp]: "length interrupts_messages = 32"
  by (simp add: interrupts_messages_def)

lemma message_proper: "i < 32 \<Longrightarrow> proper_lit (interrupts_messages ! i)"
proof -
  have "\<forall>m \<in> set interrupts_messages. proper_lit m"
    by (simp add: interrupts_messages_def proper_lit_def)
  then show "i < 32 \<Longrightarrow> proper_lit (interrupts_messages ! i)" by simp
qed

lemma ucast_small: "(n :: u32) < 256 \<Longrightarrow> unat (ucast n :: u8) = unat n"
  by (simp add: unsigned_ucast_eq take_bit_nat_eq_self word_less_nat_alt)

text \<open>The message for an interrupt without a handler.\<close>

definition interrupt_items :: "nat \<Rightarrow> (color \<times> color \<times> u8) list" where
  "interrupt_items n = items LIGHT_BROWN BLACK (lit_bytes (LF @ ''Received interrupt: '')) @
     items WHITE BLACK (lit_bytes (interrupts_messages ! n))"

lemma kprint_c_literal:
  assumes "tty_ok s" "proper_lit cs"
  shows "bindE (strlen (mem s) (Lit cs)) (\<lambda>n. k (kprint_c (Lit cs) n fg bg s)) =
    k (fold emit (items fg bg (lit_bytes cs)) s)"
proof -
  have "kprint_c (Lit cs) (of_nat (length cs)) fg bg s = fold emit (items fg bg (lit_bytes cs)) s"
    using assms by (intro kprint_c_Lit) (simp_all add: proper_lit_def)
  then show ?thesis
    using strlen_cstr [OF cstr_Lit [OF assms(2)], of "mem s"] by (simp add: lit_bytes_def)
qed

lemma isr_message:
  assumes "tty_ok s" "int_num regs < 32" "interrupt_handler s (ucast (int_num regs)) = None"
  shows "isr_handler run regs s = Inr (fold emit (interrupt_items (unat (int_num regs))) s)"
proof -
  let ?n = "int_num regs"
  have n: "?n < 256" "unat ?n < 32" using assms(2) by (simp_all add: word_less_nat_alt)
  note small = ucast_small [OF n(1)]
  let ?t = "fold emit (items LIGHT_BROWN BLACK (lit_bytes (LF @ ''Received interrupt: ''))) s"
  have t: "tty_ok ?t" using assms(1) by (rule vga.ok_emits)
  have "proper_lit (LF @ ''Received interrupt: '')" by (simp add: proper_lit_def)
  from kprint_c_literal [OF assms(1) this, of "\<lambda>s. let i = unat (ucast ?n :: u8) in
          if i < length interrupts_messages then
            let msg = Lit (interrupts_messages ! i) in
            bindE (strlen (mem s) msg) (\<lambda>n. Inr (kprint_c msg n WHITE BLACK s))
          else Inl (Undefined_behaviour ''interrupts_messages'')" LIGHT_BROWN BLACK]
  show ?thesis
    using kprint_c_literal [OF t message_proper [OF n(2)], of Inr WHITE BLACK] n assms(3)
    by (simp add: isr_handler_def Let_def small interrupt_items_def)
qed

lemma timer_bytes:
  fixes d :: u32
  shows "unat (ucast (d AND 0xFF) :: u8) + 256 * unat (ucast (drop_bit 8 d AND 0xFF) :: u8) = unat d mod 65536"
proof -
  have "d AND 0xFF = d mod 256" "drop_bit 8 d AND 0xFF = drop_bit 8 d mod 256"
    using take_bit_eq_mask [of 8 d] take_bit_eq_mask [of 8 "drop_bit 8 d"]
    by (simp_all add: take_bit_eq_mod mask_eq_exp_minus_1)
  then have "unat (d AND 0xFF) = unat d mod 256" "unat (drop_bit 8 d AND 0xFF) = unat d div 256 mod 256"
    by (simp_all add: unat_mod unat_div drop_bit_eq_div)
  moreover have "unat (ucast (d AND 0xFF) :: u8) = unat (d AND 0xFF)"
    "unat (ucast (drop_bit 8 d AND 0xFF) :: u8) = unat (drop_bit 8 d AND 0xFF)"
    using calculation by (simp_all add: unsigned_ucast_eq take_bit_nat_eq_self)
  moreover have "unat d mod 256 + 256 * (unat d div 256 mod 256) = unat d mod 65536"
    using mod_mult2_eq [of "unat d" 256 256] by simp
  ultimately show ?thesis by simp
qed

text \<open>Any number of timer interrupts.\<close>

definition timer_runner :: "'a runner" where
  "timer_runner h regs s = Inr (timer_callback s)"

primrec timer_irqs :: "'a runner \<Rightarrow> registers_t \<Rightarrow> nat \<Rightarrow> 'a kernel_scheme \<Rightarrow> kerror + 'a kernel_scheme" where
  "timer_irqs run regs 0 s = Inr s"
| "timer_irqs run regs (Suc n) s = bindE (irq_handler run regs s) (timer_irqs run regs n)"

lemma timer_irq:
  assumes "int_num regs = 32" "interrupt_handler s 32 = Some Timer_callback"
    and "\<And>t. run Timer_callback regs t = Inr (timer_callback t)"
  shows "irq_handler run regs s = Inr (timer_callback (ack_irq 32 s))"
  using assms by (simp add: irq_handler_def Let_def)

section \<open>Properties\<close>

text \<open>
  C22: An interrupt with a registered handler goes to that handler and to no other; one
  without a handler, if it is one of the 32 exceptions, prints its message, the number decoded
  through the table, and returns; any other would read beyond the 32 messages.
\<close>

theorem isr_dispatch:
  assumes "tty_ok s" "int_num regs < 256"
  shows "isr_handler run regs s = (case interrupt_handler s (ucast (int_num regs)) of
    Some h \<Rightarrow> run h regs s
  | None \<Rightarrow> if int_num regs < 32 then Inr (fold emit (interrupt_items (unat (int_num regs))) s)
      else Inl (Undefined_behaviour ''interrupts_messages''))"
proof (cases "interrupt_handler s (ucast (int_num regs))")
  case None
  show ?thesis
  proof (cases "int_num regs < 32")
    case True
    from isr_message [OF assms(1) True None] None True show ?thesis by simp
  next
    case False
    have "\<not> unat (ucast (int_num regs) :: u8) < 32"
      using False ucast_small [OF assms(2)] by (simp add: word_less_nat_alt)
    moreover have "proper_lit (LF @ ''Received interrupt: '')" by (simp add: proper_lit_def)
    from strlen_cstr [OF cstr_Lit [OF this], of "mem s"]
    obtain n where "strlen (mem s) (Lit (LF @ ''Received interrupt: '')) = Inr n" by blast
    ultimately show ?thesis using None False assms(2) by (simp add: isr_handler_def Let_def)
  qed
qed (use assms(2) in \<open>simp add: isr_handler_def\<close>)

theorem isr_dispatch_witness:
  "isr_handler timer_runner (registers_for 13) power_up = Inr (fold emit (interrupt_items 13) power_up) \<and>
   isr_handler timer_runner (registers_for 40) power_up = Inl (Undefined_behaviour ''interrupts_messages'')"
  using isr_dispatch [of power_up "registers_for 13" timer_runner]
    isr_dispatch [of power_up "registers_for 40" timer_runner] by simp

text \<open>
  The timer interrupt only counts: \<open>n\<close> timer interrupts in a row advance the tick
  counter by \<open>n\<close> modulo \<open>2 ^ 32\<close>, whatever handlers there are besides, and each sends one
  acknowledgement to the master controller.
\<close>

theorem ticks_counted:
  assumes "int_num regs = 32" "interrupt_handler s 32 = Some Timer_callback"
    and "\<And>t. run Timer_callback regs t = Inr (timer_callback t)"
  shows "\<exists>s'. timer_irqs run regs n s = Inr s' \<and> tick s' = tick s + of_nat n \<and>
    port_out s' = port_out s @ replicate n (0x20, 0x20) \<and> mem s' = mem s"
  using assms(2)
proof (induction n arbitrary: s)
  case (Suc n)
  have "interrupt_handler (timer_callback (ack_irq 32 s)) 32 = Some Timer_callback"
    using Suc.prems by (simp add: timer_callback_def)
  from Suc.IH [OF this] obtain s' where
    "timer_irqs run regs n (timer_callback (ack_irq 32 s)) = Inr s'"
    "tick s' = tick (timer_callback (ack_irq 32 s)) + of_nat n"
    "port_out s' = port_out (timer_callback (ack_irq 32 s)) @ replicate n (0x20, 0x20)"
    "mem s' = mem (timer_callback (ack_irq 32 s))" by blast
  then show ?case
    using timer_irq [of regs s run, OF assms(1) Suc.prems assms(3)] by (simp add: timer_callback_def)
qed simp

theorem ticks_counted_witness:
  "\<exists>s'. timer_irqs timer_runner (registers_for 32) 100
      (register_interrupt_handler 32 Timer_callback power_up) = Inr s' \<and> tick s' = 100"
  using ticks_counted [of "registers_for 32" "register_interrupt_handler 32 Timer_callback power_up"
      timer_runner 100]
  by (auto simp: timer_runner_def register_interrupt_handler_def)

text \<open>
  C31: The programming of the timer: division by zero is the error of frequency 0, and
  otherwise the controller receives the command 0x36 and the two bytes of the divisor
  \<open>1193180 div f\<close>, low byte first, which carry the divisor modulo 65536: the whole divisor
  exactly if \<open>f\<close> is at least 19.
\<close>

theorem init_timer_divisor:
  "init_timer 0 s = Inl Division_by_zero \<and>
   (f \<noteq> 0 \<longrightarrow> (\<exists>s' lo hi. init_timer f s = Inr s' \<and> interrupt_handler s' 32 = Some Timer_callback \<and>
      port_out s' = port_out s @ [(0x43, 0x36), (0x40, lo), (0x40, hi)] \<and>
      unat lo + 256 * unat hi = 1193180 div unat f mod 65536 \<and>
      (unat lo + 256 * unat hi = 1193180 div unat f \<longleftrightarrow> 19 \<le> unat f)))"
proof -
  have "unat (1193180 div f) = 1193180 div unat f" by (simp add: unat_div)
  moreover have "ucast (ucast (x :: u8) :: u16) = x" for x
    by (rule bit_word_eqI) (simp add: bit_simps)
  moreover have "1193180 div unat f mod 65536 = 1193180 div unat f \<longleftrightarrow> 19 \<le> unat f" if "f \<noteq> 0"
  proof -
    have "1193180 div unat f < 65536 \<longleftrightarrow> 1193180 < 65536 * unat f"
      using that by (simp add: div_less_iff_less_mult unat_gt_0)
    also have "\<dots> \<longleftrightarrow> 19 \<le> unat f" by (rule iffI) linarith+
    finally show ?thesis by (metis mod_less mod_less_divisor zero_less_numeral)
  qed
  ultimately show ?thesis
    using timer_bytes [of "1193180 div f"]
    by (auto simp: init_timer_def Let_def register_interrupt_handler_def outb_def)
qed

theorem init_timer_divisor_witness:
  "\<exists>s' lo hi. init_timer 1 power_up = Inr s' \<and> unat (lo :: u8) + 256 * unat (hi :: u8) = 13532 \<and>
    port_out s' = [(0x43, 0x36), (0x40, lo), (0x40, hi)]"
  using init_timer_divisor [of power_up 1] by auto

end
