(* ===== verification/Paging_Init.thy ===== *)
theory Paging_Init
  imports Heap_Create Heap_Spec Interrupts
begin

text \<open>
  The initialisation of paging, the rest of \<^verbatim>\<open>kernel/mem/paging.c\<close>: the page directory, the
  identity map of the memory that the kernel has allocated, the pages of the kernel heap, the
  processor registers, the heap; and the page fault handler. The allocation function that the kernel's
  heap would use is the argument \<open>al\<close>: there is no heap yet.
\<close>

section \<open>The operations\<close>

definition enable_paging :: "u32 \<Rightarrow> 'a kernel_scheme \<Rightarrow> 'a kernel_scheme" where
  "enable_paging dir s = s\<lparr>current_directory := dir, cr3 := page_tables_physical dir 0, paging_on := True\<rparr>"

text \<open>The bodies of the three loops: \<^verbatim>\<open>get_page\<close>, and \<^verbatim>\<open>alloc_frame\<close> of its result.\<close>

definition touch_page :: "'a allocator \<Rightarrow> u32 \<times> 'a mm_scheme \<Rightarrow> kerror + u32 \<times> 'a mm_scheme" where
  "touch_page al = (\<lambda>(i, s). bindE (get_page (kmalloc_ap al 4096) i 1 (kernel_directory s) s)
     (\<lambda>(page, s). Inr (i + FRAME_SIZE, s)))"

definition map_page :: "'a allocator \<Rightarrow> u32 \<times> 'a mm_scheme \<Rightarrow> kerror + u32 \<times> 'a mm_scheme" where
  "map_page al = (\<lambda>(i, s). bindE (get_page (kmalloc_ap al 4096) i 1 (kernel_directory s) s)
     (\<lambda>(page, s). bindE (alloc_frame page 0 0 s) (\<lambda>s. Inr (i + FRAME_SIZE, s))))"

abbreviation heap_guard :: "u32 \<times> 's \<Rightarrow> bool" where
  "heap_guard \<equiv> \<lambda>(i, s). i < KHEAP_START + KHEAP_INITIAL_SIZE"

abbreviation identity_guard :: "u32 \<times> 'a mm_scheme \<Rightarrow> bool" where
  "identity_guard \<equiv> \<lambda>(i, s). i < placement_addr s + FRAME_SIZE"

definition setup_directory :: "'a allocator \<Rightarrow> 'a mm_scheme \<Rightarrow> kerror + 'a mm_scheme" where
  "setup_directory al s =
     (let s = s\<lparr>nframes := PHYSICAL_MEM_SIZE div FRAME_SIZE\<rparr> in
      bindE (kmalloc al (nframes s div FRAME_ALLOCATIONS_SECTION_SIZE) s) (\<lambda>(fa, s).
      let s = s\<lparr>frame_allocations := fa\<rparr>;
          s = s\<lparr>mem := memset (mem s) fa 0 (nframes s div FRAME_ALLOCATIONS_SECTION_SIZE)\<rparr> in
      bindE (kmalloc_a al 8192 s) (\<lambda>(dir, s).
      Inr (s\<lparr>kernel_directory := dir, mem := memset (mem s) dir 0 8192, current_directory := dir\<rparr>))))"

definition map_kernel :: "'a allocator \<Rightarrow> 'a mm_scheme \<Rightarrow> kerror + 'a mm_scheme" where
  "map_kernel al s =
     bindE (while_res heap_guard (touch_page al) (KHEAP_START, s)) (\<lambda>(i, s).
     bindE (while_res identity_guard (map_page al) (0, s)) (\<lambda>(i, s).
     bindE (while_res heap_guard (map_page al) (KHEAP_START, s)) (\<lambda>(i, s). Inr s)))"

definition init_paging ::
    "(u32 \<Rightarrow> u8 \<Rightarrow> 'a kernel_scheme \<Rightarrow> kerror + u32 \<times> 'a kernel_scheme) \<Rightarrow> 'a kernel_scheme \<Rightarrow>
     kerror + 'a kernel_scheme" where
  "init_paging al s =
     bindE (setup_directory al s) (\<lambda>s.
     bindE (map_kernel al s) (\<lambda>s.
     let s = register_interrupt_handler 14 Page_fault s;
         s = enable_paging (kernel_directory s) s in
     bindE (create_heap al KHEAP_START (KHEAP_START + KHEAP_INITIAL_SIZE) 0xCFFFF000 0 0 s) (\<lambda>(h, s).
     Inr (s\<lparr>kheap := Some h\<rparr>))))"

definition page_fault_message :: "env \<Rightarrow> registers_t \<Rightarrow> 'a tty_scheme \<Rightarrow> kerror + 'a tty_scheme" where
  "page_fault_message env regs s =
     bindE (kprint (Lit (LF @ ''Page fault! ( '')) s) (\<lambda>s.
     bindE (if err_code regs AND 0x1 = 0 then kprint (Lit ''Present '') s else Inr s) (\<lambda>s.
     bindE (if err_code regs AND 0x2 \<noteq> 0 then kprint (Lit ''Read-Only '') s else Inr s) (\<lambda>s.
     bindE (if err_code regs AND 0x4 \<noteq> 0 then kprint (Lit ''User-Mode '') s else Inr s) (\<lambda>s.
     bindE (if err_code regs AND 0x8 \<noteq> 0 then kprint (Lit ''Reserved'') s else Inr s) (\<lambda>s.
     printf (stk env) (Lit ('') at %x'' @ LF)) [Word (cr2 env)] s)))))"

definition page_fault :: "env \<Rightarrow> registers_t \<Rightarrow> 'a tty_scheme \<Rightarrow> kerror + 'b" where
  "page_fault env regs s =
     bindE (page_fault_message env regs s) (\<lambda>s.
     panic (version env) (stk env) ''Page fault'' (Lit ''paging.c'') 140 s)"

section \<open>One frame after the other\<close>

lemma read32_keep:
  assumes "same_outside R m m'" "region (unat a) (unat a + 4) \<inter> R = {}" "unat a + 4 \<le> 2 ^ 32"
  shows "read32 m' a = read32 m a"
proof (rule read32_cong)
  fix j :: u32 assume j: "j < 4"
  then have "unat (a + j) = unat a + unat j" using assms(3) by (intro unat_add32) (simp add: word_less_nat_alt)
  then have "a + j \<in> region (unat a) (unat a + 4)" using j by (simp add: region_def word_less_nat_alt)
  then show "m' (a + j) = m (a + j)" using assms(1,2) by (auto simp: same_outside_def)
qed

text \<open>
  The entry of a page that the kernel has given the frame \<open>f\<close>: present, writable if \<open>w\<close> is not 0.
\<close>

definition frame_entry :: "int \<Rightarrow> nat \<Rightarrow> page" where
  "frame_entry w f = \<lparr>pr = 1, rw = if w \<noteq> 0 then 1 else 0, us = 0, pw = 0, pc = 0, ac = 0, di = 0, pa = 0, gl = 0,
     ig = 0, fr = of_nat f\<rparr>"

abbreviation entry :: "nat \<Rightarrow> page" where "entry \<equiv> frame_entry 0"

text \<open>The frames below \<open>k\<close> are in use, of those whose bits are in the zeroed part of the bitmap.\<close>

definition bitmap :: "nat \<Rightarrow> 'a mm_scheme \<Rightarrow> nat \<Rightarrow> bool" where
  "bitmap fa s k \<longleftrightarrow> frame_allocations s = of_nat fa \<and> nframes s = 0x10000 \<and>
     (\<forall>g < 16384. used s g \<longleftrightarrow> g < k)"

lemma sections_65536: "nframes s = 0x10000 \<Longrightarrow> sections s = 2048"
  by (simp add: sections_def)

lemma alloc_next:
  assumes bm: "bitmap fa s k" and k: "k < 16384" and e: "fa + 8192 \<le> e" "e + 4 \<le> 2 ^ 32"
    and zero: "read32 (mem s) (of_nat e) = 0"
  shows "\<exists>m. alloc_frame (of_nat e) su w s = Inr (s\<lparr>mem := m\<rparr>) \<and> load_page m (of_nat e) = frame_entry w k \<and>
    same_outside (region e (e + 4) \<union> region fa (fa + 2048)) (mem s) m \<and> bitmap fa (s\<lparr>mem := m\<rparr>) (Suc k)"
proof -
  let ?e = "of_nat e :: u32"
  have sec: "sections s = 2048" using bm sections_65536 [of s] by (simp add: bitmap_def)
  have load: "load_page (mem s) ?e = \<lparr>pr = 0, rw = 0, us = 0, pw = 0, pc = 0, ac = 0, di = 0, pa = 0, gl = 0, ig = 0, fr = 0\<rparr>"
    by (simp add: load_page_def decode_page_def zero)
  then have "fr (load_page (mem s) ?e) = 0" by simp
  from alloc_frame_run [OF this, of su w] obtain f where
    f: "f \<le> 32 * 2048" "\<forall>g < f. used s g" "f < 32 * 2048 \<longrightarrow> \<not> used s f"
      "alloc_frame ?e su w s = Inr (set_frame (of_nat f * FRAME_SIZE) (s\<lparr>mem := store_page (mem s) ?e (frame_entry w f)\<rparr>))"
    unfolding load sec frame_entry_def by auto
  have "f = k"
  proof (rule ccontr)
    assume "f \<noteq> k"
    then consider "f < k" | "k < f" by linarith
    then show False
    proof cases
      case 1
      with bm k f(3) show False by (simp add: bitmap_def)
    next
      case 2
      with bm k f(2) show False by (auto simp: bitmap_def)
    qed
  qed
  let ?s1 = "s\<lparr>mem := store_page (mem s) ?e (frame_entry w k)\<rparr>"
  let ?w = "get_slot (of_nat fa) (mem ?s1) (k div 32) OR push_bit (k mod 32) 1"
  define m where "m = put_slot (of_nat fa) (mem ?s1) (k div 32) ?w"
  have k20: "k < 2 ^ 20" using k by simp
  have fa: "frame_allocations s = of_nat fa" using bm by (simp add: bitmap_def)
  have run: "alloc_frame ?e su w s = Inr (s\<lparr>mem := m\<rparr>)"
    using f(4) \<open>f = k\<close> set_frame_slot(1) [OF k20, of ?s1] fa by (simp add: m_def)
  have eq: "set_frame (of_nat k * FRAME_SIZE) ?s1 = s\<lparr>mem := m\<rparr>"
    using set_frame_slot(1) [OF k20, of ?s1] fa by (simp add: m_def)
  have clear: "page_clear ?e s"
    unfolding page_clear_def sec
  proof (intro allI impI)
    fix i :: nat assume "i < 2048"
    then have "apart 4 (of_nat (fa + 4 * i)) 4 ?e" using e by (intro apart_nat) auto
    then show "apart 4 ?e 4 (frame_allocations s + 4 * of_nat i)" unfolding fa by (simp add: apart_commute)
  qed
  have "load_page (mem (s\<lparr>mem := m\<rparr>)) ?e = load_page (mem ?s1) ?e"
    unfolding eq [symmetric] using clear sec k20 k by (intro set_frame_load_page) simp_all
  then have entry: "load_page m ?e = frame_entry w k" by simp
  have "used (s\<lparr>mem := m\<rparr>) g \<longleftrightarrow> g < Suc k" if "g < 16384" for g
  proof -
    have "used (s\<lparr>mem := m\<rparr>) g \<longleftrightarrow> g = k \<or> used ?s1 g"
      unfolding eq [symmetric] using frames.used_mark [OF k20, of g ?s1] that by simp
    also have "used ?s1 g = used s g" using store_page_used [OF clear, of g] that sec by simp
    finally show ?thesis using bm that by (auto simp: bitmap_def)
  qed
  then have "bitmap fa (s\<lparr>mem := m\<rparr>) (Suc k)" using bm by (simp add: bitmap_def)
  moreover have "same_outside (region e (e + 4)) (mem s) (mem ?s1)"
    using same_outside_write32 [of e ?e "e + 4" "mem s" "encode_page (frame_entry w k)"] e by (simp add: store_page_def)
  moreover have "same_outside (region fa (fa + 2048)) (mem ?s1) m"
  proof -
    have "k div 32 < 512" using k by simp
    moreover from this have "unat (of_nat fa + 4 * of_nat (k div 32) :: u32) = fa + 4 * (k div 32)"
      using e unat_of_nat32 [of "fa + 4 * (k div 32)"] by simp
    ultimately show ?thesis unfolding m_def put_slot_def using e by (intro same_outside_write32) simp_all
  qed
  ultimately show ?thesis using run entry
    by (meson same_outside_mono same_outside_trans sup_ge1 sup_ge2)
qed

section \<open>Page tables\<close>

definition slot_of :: "nat \<Rightarrow> nat \<Rightarrow> nat" where "slot_of D a = D + 4 * (a div 4194304)"

lemma page_index:
  assumes "a < 2 ^ 32"
  shows "(of_nat a :: u32) div 0x1000 div 1024 = of_nat (a div 4194304)"
    "(of_nat a :: u32) div 0x1000 mod 1024 = of_nat (a div 4096 mod 1024)"
proof -
  have d: "(of_nat a :: u32) div 0x1000 = of_nat (a div 4096)"
    using div_mod_step(2) [OF assms, of "0x1000"] by simp
  have lt: "a div 4096 < 2 ^ 32" using assms by (rule le_less_trans [OF div_le_dividend])
  have "a div 4096 div 1024 = a div 4194304" using div_mult2_eq [of a 4096 1024] by simp
  then show "(of_nat a :: u32) div 0x1000 div 1024 = of_nat (a div 4194304)"
    unfolding d using div_mod_step(2) [OF lt, of 1024] by simp
  show "(of_nat a :: u32) div 0x1000 mod 1024 = of_nat (a div 4096 mod 1024)"
    unfolding d using div_mod_step(1) [OF lt, of 1024] by simp
qed

lemma slot_word: "page_tables_virtual (of_nat D) (of_nat (a div 4194304)) = of_nat (slot_of D a)"
  by (simp add: page_tables_virtual_def slot_of_def)

lemma get_page_present:
  assumes "a < 2 ^ 32" "read32 (mem s) (of_nat (slot_of D a)) = of_nat T" "(of_nat T :: u32) \<noteq> 0"
  shows "get_page km (of_nat a) 1 (of_nat D) s = Inr (of_nat (T + 4 * (a div 4096 mod 1024)), s)"
  using assms by (simp add: get_page_def Let_def page_index slot_word)

text \<open>The address of the next page boundary that an aligned allocation is given.\<close>

definition next_page :: "nat \<Rightarrow> nat" where "next_page p = (p div 4096 + 1) * 4096"

lemma next_page_bounds: "p < next_page p" "next_page p \<le> p + 4096" "next_page p mod 4096 = 0"
  using div_mult_mod_eq [of p 4096] mod_less_divisor [of 4096 p] by (simp_all add: next_page_def)

lemma kmalloc_aligned:
  assumes "kheap s = None" "placement_addr s = of_nat p" "4096 \<le> p" "p + 4096 < 2 ^ 32"
  shows "kmalloc_int al n 1 ph s = Inr (of_nat (next_page p), if ph then of_nat (next_page p) else 0,
    s\<lparr>placement_addr := of_nat (next_page p) + n\<rparr>)"
proof -
  have "(of_nat p :: u32) mod 0x1000 = of_nat (p mod 4096)" using div_mod_step(1) [of p "0x1000"] assms(4) by simp
  moreover have "p - p mod 4096 = p div 4096 * 4096" by (simp add: minus_mod_eq_div_mult)
  ultimately have floor: "(of_nat p :: u32) AND 0xFFFFF000 = of_nat (p div 4096 * 4096)"
    by (simp only: page_floor of_nat_diff32 [symmetric] mod_less_eq_dividend flip: \<open>p - p mod 4096 = p div 4096 * 4096\<close>)
  have "0 < p div 4096" using assms(3) by (simp add: div_greater_zero_iff)
  moreover have "p div 4096 * 4096 < 2 ^ 32" using assms(4) by (rule le_less_trans [rotated]) simp
  ultimately have "(of_nat (p div 4096 * 4096) :: u32) \<noteq> 0"
    using of_nat_eq32 [of "p div 4096 * 4096" 0] by simp
  moreover have "(of_nat (p div 4096 * 4096) :: u32) + 0x1000 = of_nat (next_page p)"
    by (simp add: next_page_def)
  ultimately show ?thesis using assms(1,2) floor by (simp add: kmalloc_int_def)
qed

lemma get_page_fresh:
  assumes "a < 2 ^ 32" "read32 (mem s) (of_nat (slot_of D a)) = 0"
    and "kheap s = None" "placement_addr s = of_nat p" "4096 \<le> p" "p + 8192 < 2 ^ 32" "D + 8192 \<le> p"
  defines "T \<equiv> next_page p"
  shows "\<exists>m. get_page (kmalloc_ap al 4096) (of_nat a) 1 (of_nat D) s =
      Inr (of_nat (T + 4 * (a div 4096 mod 1024)), s\<lparr>placement_addr := of_nat (T + 4096), mem := m\<rparr>) \<and>
    read32 m (of_nat (slot_of D a)) = of_nat T \<and> read32 m (of_nat (slot_of D a + 4096)) = of_nat T OR 7 \<and>
    (\<forall>x < 1024. read32 m (of_nat (T + 4 * x)) = 0) \<and>
    same_outside (region (slot_of D a) (slot_of D a + 4) \<union> region (slot_of D a + 4096) (slot_of D a + 4100) \<union> region T (T + 4096)) (mem s) m"
proof -
  let ?v = "of_nat (slot_of D a) :: u32" and ?q = "of_nat (slot_of D a + 4096) :: u32"
  have idx: "a div 4194304 < 1024" using assms(1) by (simp add: less_mult_imp_div_less)
  have T: "D + 8192 < T" "T + 4096 < 2 ^ 32" using assms(6,7) next_page_bounds [of p] by (simp_all add: T_def)
  have lt: "slot_of D a + 4 \<le> D + 4096" "D \<le> slot_of D a" using idx by (simp_all add: slot_of_def)
  have u: "unat ?v = slot_of D a" "unat ?q = slot_of D a + 4096" "unat (of_nat T :: u32) = T"
    using lt T by (simp_all only: unat_of_nat32)
  have phys: "page_tables_physical (of_nat D) (of_nat (a div 4194304)) = ?q"
    by (simp add: page_tables_physical_def slot_of_def)
  let ?m1 = "write32 (mem s) ?v (of_nat T)"
  let ?m2 = "memset ?m1 (of_nat T) 0 0x1000"
  let ?m3 = "write32 ?m2 ?q (of_nat T OR 7)"
  have out1: "same_outside (region (slot_of D a) (slot_of D a + 4)) (mem s) ?m1"
    using u lt T by (intro same_outside_write32) simp_all
  have out2: "same_outside (region T (T + 4096)) ?m1 ?m2"
    using memset_same_outside [of "of_nat T" "0x1000" ?m1 0] span_region [of "of_nat T" "0x1000"] u(3) T
    by (auto intro: same_outside_mono)
  have out3: "same_outside (region (slot_of D a + 4096) (slot_of D a + 4100)) ?m2 ?m3"
    using u lt T by (intro same_outside_write32) simp_all
  have v2: "read32 ?m2 ?v = of_nat T"
    using same_outside_read32 [OF out2, of ?v] u(1) lt T by simp
  have v3: "read32 ?m3 ?v = of_nat T"
    using same_outside_read32 [OF out3, of ?v] u(1) lt T v2 by simp
  have zero: "read32 ?m3 (of_nat (T + 4 * x)) = 0" if "x < 1024" for x
  proof -
    have ux: "unat (of_nat (T + 4 * x) :: u32) = T + 4 * x" using that T by (intro unat_of_nat32) simp
    have "read32 ?m2 (of_nat (T + 4 * x)) = 0"
    proof -
      have "?m2 (of_nat (T + 4 * x) + j) = 0" if "j < 4" for j
      proof -
        have "of_nat (T + 4 * x) + j - of_nat T = of_nat (4 * x) + j" by simp
        moreover have "unat (of_nat (4 * x) + j :: u32) = 4 * x + unat j"
        proof -
          have "unat (of_nat (4 * x) :: u32) = 4 * x" using \<open>x < 1024\<close> by (intro unat_of_nat32) simp
          moreover have "unat j < 4" using that by (simp add: word_less_nat_alt)
          ultimately show ?thesis using \<open>x < 1024\<close> by (subst unat_add32) simp_all
        qed
        ultimately have "of_nat (T + 4 * x) + j - of_nat T < (0x1000 :: u32)"
          using \<open>x < 1024\<close> that by (simp add: word_less_nat_alt)
        then show ?thesis by (simp add: memset_read)
      qed
      from this [of 0] this [of 1] this [of 2] this [of 3] show ?thesis by (simp add: read32_def)
    qed
    then show ?thesis using same_outside_read32 [OF out3, of "of_nat (T + 4 * x)"] ux that lt T by simp
  qed
  have "get_page (kmalloc_ap al 4096) (of_nat a) 1 (of_nat D) s =
      Inr (of_nat (T + 4 * (a div 4096 mod 1024)), s\<lparr>placement_addr := of_nat (T + 4096), mem := ?m3\<rparr>)"
    using assms(2) kmalloc_aligned [OF assms(3-5), of al 4096 True] assms(6) v3
    by (simp add: get_page_def Let_def page_index [OF assms(1)] slot_word phys kmalloc_ap_def T_def [symmetric])
  moreover have "same_outside (region (slot_of D a) (slot_of D a + 4) \<union> region (slot_of D a + 4096) (slot_of D a + 4100) \<union> region T (T + 4096)) (mem s) ?m3"
    using out1 out2 out3 by (auto simp: same_outside_def)
  moreover have "read32 ?m3 ?q = of_nat T OR 7" by simp
  ultimately show ?thesis using v3 zero by blast
qed

section \<open>The loops\<close>

text \<open>
  Pages are numbered by the entry \<open>x\<close> of the table \<open>q\<close>. Where things are: the bitmap at
  \<open>fa\<close>, the directory at \<open>D\<close> and a page table at \<open>T\<close>.
\<close>

definition page_addr :: "nat \<Rightarrow> nat \<Rightarrow> nat" where "page_addr q x = 4096 * (1024 * q + x)"

definition layout_ok :: "nat \<Rightarrow> nat \<Rightarrow> nat \<Rightarrow> bool" where
  "layout_ok fa D T \<longleftrightarrow> fa + 2048 \<le> D \<and> fa + 8192 \<le> T \<and> D + 8192 \<le> T \<and> T + 4096 < 2 ^ 32"

lemma page_addr_simps:
  assumes "q < 1024" "x < 1024"
  shows "page_addr q x < 2 ^ 32" "page_addr q x div 4194304 = q" "page_addr q x div 4096 mod 1024 = x"
    "slot_of D (page_addr q x) = D + 4 * q"
proof -
  have "1024 * q + x < 1048576" using assms by simp
  then show "page_addr q x < 2 ^ 32" by (simp add: page_addr_def)
  have "4096 * (1024 * q + x) div 4194304 = (1024 * q + x) div 1024"
    using div_mult2_eq [of "4096 * (1024 * q + x)" 4096 1024] by simp
  then show "page_addr q x div 4194304 = q" using assms(2) by (simp add: page_addr_def)
  then show "slot_of D (page_addr q x) = D + 4 * q" by (simp add: slot_of_def)
  show "page_addr q x div 4096 mod 1024 = x" using assms(2) by (simp add: page_addr_def)
qed

lemma page_addr_Suc: "(of_nat (page_addr q x) :: u32) + FRAME_SIZE = of_nat (page_addr q (Suc x))"
  by (simp add: page_addr_def algebra_simps)

text \<open>A table whose entries from \<open>x\<close> to \<open>x + n\<close> map the frames from \<open>k\<close> on.\<close>

definition holds_frames :: "int \<Rightarrow> memory \<Rightarrow> nat \<Rightarrow> nat \<Rightarrow> nat \<Rightarrow> nat \<Rightarrow> bool" where
  "holds_frames w m T x n k \<longleftrightarrow> (\<forall>i < n. load_page m (of_nat (T + 4 * (x + i))) = frame_entry w (k + i))"

abbreviation mapped :: "memory \<Rightarrow> nat \<Rightarrow> nat \<Rightarrow> nat \<Rightarrow> nat \<Rightarrow> bool" where "mapped \<equiv> holds_frames 0"

abbreviation map_writes :: "nat \<Rightarrow> nat \<Rightarrow> nat \<Rightarrow> nat \<Rightarrow> u32 set" where
  "map_writes fa T x n \<equiv> region (T + 4 * x) (T + 4 * (x + n)) \<union> region fa (fa + 2048)"

text \<open>The page table \<open>T\<close> is in place and has no frame for the page \<open>x\<close> yet.\<close>

definition table_ready :: "nat \<Rightarrow> nat \<Rightarrow> nat \<Rightarrow> nat \<Rightarrow> 'a mm_scheme \<Rightarrow> bool" where
  "table_ready D T q x s \<longleftrightarrow> kernel_directory s = of_nat D \<and> q < 1024 \<and> x < 1024 \<and>
     read32 (mem s) (of_nat (D + 4 * q)) = of_nat T \<and> read32 (mem s) (of_nat (T + 4 * x)) = 0"

lemma table_page:
  assumes "layout_ok fa D T" "table_ready D T q x s"
  shows "get_page km (of_nat (page_addr q x)) 1 (kernel_directory s) s = Inr (of_nat (T + 4 * x), s)"
proof -
  have qx: "q < 1024" "x < 1024" using assms(2) by (simp_all add: table_ready_def)
  note pa = page_addr_simps [OF qx]
  have T: "0 < T" "T < 2 ^ 32" using assms(1) by (simp_all add: layout_ok_def)
  then have nz: "(of_nat T :: u32) \<noteq> 0" using of_nat_eq32 [of T 0] by simp
  have slot: "read32 (mem s) (of_nat (slot_of D (page_addr q x))) = of_nat T"
    using assms(2) pa(4) by (simp add: table_ready_def)
  show ?thesis using get_page_present [OF pa(1) slot nz, of km] pa(3) assms(2) by (simp add: table_ready_def)
qed

lemma frame_for:
  assumes lay: "layout_ok fa D T" and bm: "bitmap fa s k" "k < 16384" and tab: "table_ready D T q x s"
  shows "\<exists>m. alloc_frame (of_nat (T + 4 * x)) su w s = Inr (s\<lparr>mem := m\<rparr>) \<and> bitmap fa (s\<lparr>mem := m\<rparr>) (Suc k) \<and>
    load_page m (of_nat (T + 4 * x)) = frame_entry w k \<and> same_outside (map_writes fa T x 1) (mem s) m"
proof -
  have "fa + 8192 \<le> T + 4 * x" "T + 4 * x + 4 \<le> 2 ^ 32" using lay tab by (simp_all add: layout_ok_def table_ready_def)
  from alloc_next [OF bm this] tab obtain m where
    m: "alloc_frame (of_nat (T + 4 * x)) su w s = Inr (s\<lparr>mem := m\<rparr>)" "load_page m (of_nat (T + 4 * x)) = frame_entry w k"
      "same_outside (region (T + 4 * x) (T + 4 * x + 4) \<union> region fa (fa + 2048)) (mem s) m"
      "bitmap fa (s\<lparr>mem := m\<rparr>) (Suc k)" by (auto simp: table_ready_def)
  moreover have "T + 4 * x + 4 = T + 4 * (x + 1)" by simp
  with m(3) have "same_outside (map_writes fa T x 1) (mem s) m" by (simp only:)
  ultimately show ?thesis by blast
qed

lemma map_one:
  assumes "layout_ok fa D T" "bitmap fa s k" "k < 16384" "table_ready D T q x s"
  shows "\<exists>m. map_page al (of_nat (page_addr q x), s) = Inr (of_nat (page_addr q (Suc x)), s\<lparr>mem := m\<rparr>) \<and>
    bitmap fa (s\<lparr>mem := m\<rparr>) (Suc k) \<and> load_page m (of_nat (T + 4 * x)) = entry k \<and>
    same_outside (map_writes fa T x 1) (mem s) m"
  using frame_for [OF assms, of 0 0] table_page [OF assms(1,4), of "kmalloc_ap al 4096"] page_addr_Suc [of q x]
  by (auto simp: map_page_def)

lemma table_keep:
  assumes "same_outside (map_writes fa T x n) m m'" "layout_ok fa D T" "T \<le> e" "e + 4 \<le> T + 4 * x \<or> T + 4 * (x + n) \<le> e"
    "e + 4 \<le> 2 ^ 32"
  shows "read32 m' (of_nat e) = read32 m (of_nat e)"
proof -
  have "unat (of_nat e :: u32) = e" using assms(5) by (intro unat_of_nat32) simp
  with assms show ?thesis by (intro read32_keep [OF assms(1)]) (auto simp: region_def layout_ok_def)
qed

lemma slot_keep:
  assumes "same_outside (map_writes fa T x n) m m'" "layout_ok fa D T" "q < 2048"
  shows "read32 m' (of_nat (D + 4 * q)) = read32 m (of_nat (D + 4 * q))"
proof -
  have "unat (of_nat (D + 4 * q) :: u32) = D + 4 * q" using assms by (intro unat_of_nat32) (simp add: layout_ok_def)
  with assms show ?thesis by (intro read32_keep [OF assms(1)]) (auto simp: region_def layout_ok_def)
qed

text \<open>
  A loop that gives one page after the other a frame: the body \<open>B\<close> treats the page \<open>x\<close> when its
  counter is \<open>pos x\<close>, in every state that differs from the first one only in memory.
\<close>

lemma frames_loop:
  fixes s :: "'a mm_scheme"
  assumes lay: "layout_ok fa D T"
    and one: "\<And>x k s. kheap s = H \<Longrightarrow> bitmap fa s k \<Longrightarrow> k < 16384 \<Longrightarrow> table_ready D T q x s \<Longrightarrow>
      \<exists>m. B (pos x, s) = Inr (pos (Suc x), s\<lparr>mem := m\<rparr>) \<and> bitmap fa (s\<lparr>mem := m\<rparr>) (Suc k) \<and>
        load_page m (of_nat (T + 4 * x)) = frame_entry w k \<and> same_outside (map_writes fa T x 1) (mem s) m"
    and kh: "kheap s = H" and q: "q < 1024" "x + n \<le> 1024" and bm: "bitmap fa s k" "k + n \<le> 16384"
    and slot: "read32 (mem s) (of_nat (D + 4 * q)) = of_nat T" "kernel_directory s = of_nat D"
    and zero: "\<And>i. i < n \<Longrightarrow> read32 (mem s) (of_nat (T + 4 * (x + i))) = 0"
    and guard: "\<And>y m. x \<le> y \<Longrightarrow> y \<le> x + n \<Longrightarrow> G (pos y, s\<lparr>mem := m\<rparr>) \<longleftrightarrow> y < x + n"
  shows "\<exists>m. while_res G B (pos x, s) = Inr (pos (x + n), s\<lparr>mem := m\<rparr>) \<and>
      bitmap fa (s\<lparr>mem := m\<rparr>) (k + n) \<and> holds_frames w m T x n k \<and> same_outside (map_writes fa T x n) (mem s) m"
  using kh q(2) bm slot zero guard
proof (induction n arbitrary: x k s)
  case 0
  have "\<not> G (pos x, s)" using "0.prems"(8) [of x "mem s"] by simp
  then show ?case using "0.prems" by (intro exI [of _ "mem s"]) (simp add: holds_frames_def)
next
  case (Suc n)
  have x: "x < 1024" "k < 16384" using Suc.prems(2,4) by simp_all
  have "table_ready D T q x s" using Suc.prems(5,6) Suc.prems(7) [of 0] x q(1) by (simp add: table_ready_def)
  from one [OF Suc.prems(1,3) x(2) this] obtain m1 where
    m1: "B (pos x, s) = Inr (pos (Suc x), s\<lparr>mem := m1\<rparr>)"
      "bitmap fa (s\<lparr>mem := m1\<rparr>) (Suc k)" "load_page m1 (of_nat (T + 4 * x)) = frame_entry w k"
      "same_outside (map_writes fa T x 1) (mem s) m1" by blast
  have T: "T + 4096 < 2 ^ 32" using lay by (simp add: layout_ok_def)
  have zeros: "read32 m1 (of_nat (T + 4 * (Suc x + i))) = 0" if "i < n" for i
    using table_keep [OF m1(4) lay, of "T + 4 * (Suc x + i)"] Suc.prems(2) Suc.prems(7) [of "Suc i"] that T by simp
  have slot: "read32 m1 (of_nat (D + 4 * q)) = of_nat T"
    using slot_keep [OF m1(4) lay, of q] q Suc.prems(5) by simp
  have guard': "G (pos y, s\<lparr>mem := m1, mem := m\<rparr>) \<longleftrightarrow> y < Suc x + n" if "Suc x \<le> y" "y \<le> Suc x + n" for y m
    using Suc.prems(8) [of y m] that by simp
  have "\<exists>m. while_res G B (pos (Suc x), s\<lparr>mem := m1\<rparr>) = Inr (pos (Suc x + n), s\<lparr>mem := m1, mem := m\<rparr>) \<and>
      bitmap fa (s\<lparr>mem := m1, mem := m\<rparr>) (Suc k + n) \<and> holds_frames w m T (Suc x) n (Suc k) \<and>
      same_outside (map_writes fa T (Suc x) n) (mem (s\<lparr>mem := m1\<rparr>)) m"
    using Suc.prems(1,2,4,6) m1(2) zeros slot guard' by (intro Suc.IH) simp_all
  then obtain m where
    m: "while_res G B (pos (Suc x), s\<lparr>mem := m1\<rparr>) = Inr (pos (x + Suc n), s\<lparr>mem := m\<rparr>)"
      "bitmap fa (s\<lparr>mem := m\<rparr>) (k + Suc n)" "holds_frames w m T (Suc x) n (Suc k)"
      "same_outside (map_writes fa T (Suc x) n) m1 m" by auto
  have "G (pos x, s)" using Suc.prems(8) [of x "mem s"] by simp
  then have run: "while_res G B (pos x, s) = Inr (pos (x + Suc n), s\<lparr>mem := m\<rparr>)"
    using while_res_step [of G _ B] m1(1) m(1) by simp
  have first: "load_page m (of_nat (T + 4 * x)) = frame_entry w k"
    using table_keep [OF m(4) lay, of "T + 4 * x"] m1(3) T x by (simp add: load_page_def)
  have "holds_frames w m T x (Suc n) k"
    unfolding holds_frames_def
  proof (intro allI impI)
    fix i assume "i < Suc n"
    then show "load_page m (of_nat (T + 4 * (x + i))) = frame_entry w (k + i)"
      using first m(3) by (cases i) (simp_all add: holds_frames_def)
  qed
  moreover have "same_outside (map_writes fa T x (Suc n)) (mem s) m"
    using m1(4) m(4) by (intro same_outside_trans [of _ "mem s" m1 m]) (auto elim!: same_outside_mono simp: region_def)
  ultimately show ?case using run m(2) by blast
qed

lemma map_loop:
  fixes s :: "'a mm_scheme"
  assumes "layout_ok fa D T" "q < 1024"
    and guard: "\<And>i m. G (i, s\<lparr>mem := m\<rparr>) \<longleftrightarrow> i < of_nat (page_addr q (x + n))"
    and small: "page_addr q (x + n) < 2 ^ 32"
    and "x + n \<le> 1024" "bitmap fa s k" "k + n \<le> 16384"
    and "read32 (mem s) (of_nat (D + 4 * q)) = of_nat T" "kernel_directory s = of_nat D"
    and "\<And>i. i < n \<Longrightarrow> read32 (mem s) (of_nat (T + 4 * (x + i))) = 0"
  shows "\<exists>m. while_res G (map_page al) (of_nat (page_addr q x), s) = Inr (of_nat (page_addr q (x + n)), s\<lparr>mem := m\<rparr>) \<and>
      bitmap fa (s\<lparr>mem := m\<rparr>) (k + n) \<and> mapped m T x n k \<and> same_outside (map_writes fa T x n) (mem s) m"
proof (rule frames_loop [where pos = "\<lambda>x. of_nat (page_addr q x)" and H = "kheap s", OF assms(1) _ refl assms(2,5-10)])
  fix y m assume "x \<le> y" "y \<le> x + n"
  then have "page_addr q y \<le> page_addr q (x + n)" by (simp add: page_addr_def)
  with small have "(of_nat (page_addr q y) :: u32) < of_nat (page_addr q (x + n)) \<longleftrightarrow> page_addr q y < page_addr q (x + n)"
    by (intro of_nat_less32) simp_all
  moreover have "page_addr q y < page_addr q (x + n) \<longleftrightarrow> y < x + n" by (auto simp: page_addr_def)
  ultimately show "G (of_nat (page_addr q y), s\<lparr>mem := m\<rparr>) \<longleftrightarrow> y < x + n" unfolding guard by (rule trans)
qed (rule map_one [OF assms(1)])

section \<open>The directory and the tables\<close>

definition zeroed :: "memory \<Rightarrow> nat \<Rightarrow> nat \<Rightarrow> bool" where
  "zeroed m lo hi \<longleftrightarrow> (\<forall>a. lo \<le> unat a \<longrightarrow> unat a < hi \<longrightarrow> m a = 0)"

lemma zeroed_read32:
  assumes "zeroed m lo hi" "lo \<le> e" "e + 4 \<le> hi" "hi \<le> 2 ^ 32"
  shows "read32 m (of_nat e) = 0"
proof -
  have "m (of_nat e + j) = 0" if "j < 4" for j
  proof -
    have "unat (of_nat e :: u32) = e" using assms by (intro unat_of_nat32) simp
    moreover have "unat j < 4" using that by (simp add: word_less_nat_alt)
    ultimately have "unat (of_nat e + j) = e + unat j" using assms by (subst unat_add32) simp_all
    with assms \<open>unat j < 4\<close> show ?thesis by (simp add: zeroed_def)
  qed
  from this [of 0] this [of 1] this [of 2] this [of 3] show ?thesis by (simp add: read32_def)
qed

lemma zeroed_memset:
  assumes "unat a + unat n \<le> 2 ^ 32"
  shows "zeroed (memset m a 0 n) (unat a) (unat a + unat n)"
  unfolding zeroed_def
proof (intro allI impI)
  fix x :: u32 assume x: "unat a \<le> unat x" "unat x < unat a + unat n"
  then have "unat (x - a) = unat x - unat a" by (intro unat_sub32) simp
  with x have "x - a < n" by (simp add: word_less_nat_alt)
  then show "memset m a 0 n x = 0" by (simp add: memset_read)
qed

lemma zeroed_keep: "zeroed m lo hi \<Longrightarrow> same_outside R m m' \<Longrightarrow> region lo hi \<inter> R = {} \<Longrightarrow> zeroed m' lo hi"
  by (auto simp: zeroed_def same_outside_def region_def)

lemma setup_directory_run:
  assumes "kheap s = None" "placement_addr s = of_nat p" "4096 \<le> p" "p \<le> 0x3F0000"
  defines "D \<equiv> next_page (p + 2048)"
  shows "\<exists>m. setup_directory al s = Inr (s\<lparr>nframes := 0x10000, placement_addr := of_nat (D + 8192),
      frame_allocations := of_nat p, kernel_directory := of_nat D, mem := m, current_directory := of_nat D\<rparr>) \<and>
    zeroed m p (p + 2048) \<and> zeroed m D (D + 8192) \<and> same_outside (region p (D + 8192)) (mem s) m"
proof -
  note D = next_page_bounds [of "p + 2048", folded D_def]
  let ?m1 = "memset (mem s) (of_nat p) 0 2048" and ?s1 = "s\<lparr>nframes := 0x10000, placement_addr := of_nat (p + 2048), frame_allocations := of_nat p\<rparr>"
  let ?m2 = "memset ?m1 (of_nat D) 0 8192"
  have u: "unat (of_nat p :: u32) = p" "unat (of_nat D :: u32) = D" using assms(4) D by simp_all
  have first: "kmalloc al (0x10000 div 32) (s\<lparr>nframes := 0x10000\<rparr>) = Inr (of_nat p, s\<lparr>nframes := 0x10000, placement_addr := of_nat (p + 2048)\<rparr>)"
    using assms(1,2) by (simp add: kmalloc_def kmalloc_int_def)
  have "kmalloc_int al 8192 1 False (?s1\<lparr>mem := ?m1\<rparr>) =
      Inr (of_nat D, 0, ?s1\<lparr>mem := ?m1, placement_addr := of_nat D + 8192\<rparr>)"
    using kmalloc_aligned [of "?s1\<lparr>mem := ?m1\<rparr>" "p + 2048" al 8192 False] assms(1,3,4) by (simp add: D_def)
  then have second: "kmalloc_a al 8192 (?s1\<lparr>mem := ?m1\<rparr>) = Inr (of_nat D, ?s1\<lparr>mem := ?m1, placement_addr := of_nat D + 8192\<rparr>)"
    by (simp add: kmalloc_a_def)
  have "setup_directory al s = Inr (s\<lparr>nframes := 0x10000, placement_addr := of_nat (D + 8192),
      frame_allocations := of_nat p, kernel_directory := of_nat D, mem := ?m2, current_directory := of_nat D\<rparr>)"
    using first second by (simp add: setup_directory_def Let_def)
  moreover have z1: "zeroed ?m1 p (p + 2048)" using zeroed_memset [of "of_nat p" 2048] u(1) assms(4) by simp
  moreover have z2: "zeroed ?m2 D (D + 8192)" using zeroed_memset [of "of_nat D" 8192] u(2) assms(4) D by simp
  moreover have o1: "same_outside (region p (p + 2048)) (mem s) ?m1"
    using memset_same_outside [of "of_nat p" 2048 "mem s" 0] span_region [of "of_nat p" 2048] u(1) assms(4)
    by (auto intro: same_outside_mono)
  moreover have o2: "same_outside (region D (D + 8192)) ?m1 ?m2"
    using memset_same_outside [of "of_nat D" 8192 ?m1 0] span_region [of "of_nat D" 8192] u(2) assms(4) D
    by (auto intro: same_outside_mono)
  moreover have "zeroed ?m2 p (p + 2048)"
    by (rule zeroed_keep [OF z1 o2]) (use D in \<open>auto simp: region_def\<close>)
  moreover have "same_outside (region p (D + 8192)) (mem s) ?m2"
    using o1 o2 D by (intro same_outside_trans [of _ "mem s" ?m1 ?m2]) (auto elim!: same_outside_mono simp: region_def)
  ultimately show ?thesis by blast
qed

lemma zero_bitmap:
  assumes "zeroed m p (p + 2048)" "p + 2048 \<le> 2 ^ 32" "frame_allocations s = of_nat p" "nframes s = 0x10000" "mem s = m"
  shows "bitmap p s 0"
proof -
  have "\<not> used s g" if "g < 16384" for g
  proof -
    have "g div 32 < 512" using that by simp
    then have "read32 m (of_nat (p + 4 * (g div 32))) = 0"
      using assms(1,2) by (intro zeroed_read32 [OF assms(1)]) auto
    then show ?thesis using assms(3,5) by (simp add: used_def get_slot_def)
  qed
  then show ?thesis using assms by (simp add: bitmap_def)
qed

lemma bitmap_keep:
  assumes "bitmap p s k" "same_outside R (mem s) (mem t)" "region p (p + 2048) \<inter> R = {}" "p + 2048 \<le> 2 ^ 32"
    "frame_allocations t = frame_allocations s" "nframes t = nframes s"
  shows "bitmap p t k"
proof -
  have "used t g = used s g" if "g < 16384" for g
  proof -
    have "g div 32 < 512" using that by simp
    moreover from this have "region (p + 4 * (g div 32)) (p + 4 * (g div 32) + 4) \<subseteq> region p (p + 2048)"
      by (auto simp: region_def)
    ultimately have "read32 (mem t) (of_nat (p + 4 * (g div 32))) = read32 (mem s) (of_nat (p + 4 * (g div 32)))"
      using assms(3,4) unat_of_nat32 [of "p + 4 * (g div 32)"] by (intro read32_keep [OF assms(2)]) auto
    then show ?thesis using assms(1,5) by (simp add: used_def get_slot_def bitmap_def)
  qed
  then show ?thesis using assms(1,5,6) by (simp add: bitmap_def)
qed

text \<open>After the first access to a table, the later ones find it.\<close>

lemma touch_loop:
  assumes "get_page (kmalloc_ap al 4096) KHEAP_START 1 (kernel_directory s) s = Inr (r, t)"
    and "read32 (mem t) (of_nat (D + 4 * 768)) = of_nat T" "(of_nat T :: u32) \<noteq> 0"
    and "kernel_directory s = of_nat D" "kernel_directory t = of_nat D"
  shows "while_res heap_guard (touch_page al) (KHEAP_START, s) = Inr (KHEAP_START + KHEAP_INITIAL_SIZE, t)"
proof -
  let ?g = "\<lambda>j. (of_nat (page_addr 768 (Suc j)) :: u32, t)"
  have next_page: "touch_page al (of_nat (page_addr 768 x), t) = Inr (of_nat (page_addr 768 (Suc x)), t)" if "x < 256" for x
  proof -
    have x: "x < 1024" "(768 :: nat) < 1024" using that by simp_all
    note pa = page_addr_simps [OF x(2,1)]
    have "read32 (mem t) (of_nat (slot_of D (page_addr 768 x))) = of_nat T" using assms(2) pa(4) [of D] by simp
    from get_page_present [OF pa(1) this assms(3), of "kmalloc_ap al 4096"] assms(5) page_addr_Suc [of 768 x]
    show ?thesis by (simp add: touch_page_def)
  qed
  have start: "KHEAP_START = of_nat (page_addr 768 0)" "KHEAP_START + KHEAP_INITIAL_SIZE = of_nat (page_addr 768 256)"
    by (simp_all add: page_addr_def)
  have "while_res heap_guard (touch_page al) (?g 0) = Inr (?g 255)"
  proof (rule while_res_iterate)
    fix i :: nat assume i: "i < 255"
    then have "page_addr 768 (Suc i) < page_addr 768 256" by (simp add: page_addr_def)
    moreover have "page_addr 768 256 < 2 ^ 32" by (simp add: page_addr_def)
    ultimately have "(of_nat (page_addr 768 (Suc i)) :: u32) < of_nat (page_addr 768 256)" by (subst of_nat_less32) simp_all
    then show "heap_guard (?g i) \<and> touch_page al (?g i) = Inr (?g (Suc i))"
      using next_page [of "Suc i"] i start(2) by simp
  qed (simp add: page_addr_def)
  moreover have "touch_page al (KHEAP_START, s) = Inr (?g 0)"
    using assms(1,4) page_addr_Suc [of 768 0] start(1) by (simp add: touch_page_def)
  moreover have last: "Suc 255 = 256" by simp
  ultimately show ?thesis
    using while_res_step [of heap_guard "(KHEAP_START, s)" "touch_page al" "?g 0"] start(2) last by simp
qed

section \<open>Address translation\<close>

text \<open>
  What the processor does with an address, given the register \<^verbatim>\<open>cr3\<close>: it finds the page
  table in the page directory and the frame in the page table.
\<close>

definition walk :: "memory \<Rightarrow> u32 \<Rightarrow> u32 \<Rightarrow> 20 word option" where
  "walk m dir a =
     (let t = read32 m (dir + 4 * (a div 0x1000 div 1024)) in
      if t AND 1 = 0 then None
      else let e = load_page m ((t AND 0xFFFFF000) + 4 * (a div 0x1000 mod 1024)) in
        if pr e = 0 then None else Some (fr e))"

lemma table_base:
  assumes "T mod 4096 = 0" "T < 2 ^ 32"
  shows "(of_nat T OR 7 :: u32) AND 0xFFFFF000 = of_nat T" "(of_nat T OR 7 :: u32) AND 1 = 1"
proof -
  have "(of_nat T :: u32) AND 0xFFFFF000 = of_nat T"
    using div_mod_step(1) [of T "0x1000"] assms by (simp add: page_floor)
  then show "(of_nat T OR 7 :: u32) AND 0xFFFFF000 = of_nat T" by (simp add: bit.conj_disj_distrib2)
  show "(of_nat T OR 7 :: u32) AND 1 = 1" by (rule bit_word_eqI) (auto simp: bit_simps)
qed

lemma walk_entry:
  assumes "read32 m (of_nat (D + 4096 + 4 * q)) = of_nat T OR 7" "T mod 4096 = 0" "T + 4096 < 2 ^ 32"
    and "load_page m (of_nat (T + 4 * x)) = frame_entry w k" "x < 1024" "q < 1024" "b < 4096"
  shows "walk m (of_nat (D + 4096)) (of_nat (page_addr q x + b)) = Some (of_nat k)"
proof -
  note x = assms(5)
  have d: "(page_addr q x + b) div 4096 = 1024 * q + x" using assms(7) by (simp add: page_addr_def)
  have "1024 * q + x < 1048576" using assms(6) x by simp
  then have lt: "page_addr q x + b < 2 ^ 32" using assms(7) by (simp add: page_addr_def)
  have "(page_addr q x + b) div 4194304 = (1024 * q + x) div 1024"
    using div_mult2_eq [of "page_addr q x + b" 4096 1024] d by simp
  then have q: "(page_addr q x + b) div 4194304 = q" using x by simp
  have e: "load_page m (of_nat T + 4 * of_nat x) = frame_entry w k" using assms(4) by simp
  have slot: "read32 m (of_nat (D + 4096) + 4 * of_nat q) = of_nat T OR 7" using assms(1) by (simp add: add_ac)
  have T: "T < 2 ^ 32" using assms(3) by simp
  show ?thesis
    unfolding walk_def page_index [OF lt] q d Let_def slot table_base [OF assms(2) T] using e x by (simp add: frame_entry_def)
qed

text \<open>Entry \<open>q\<close> of the directory leads to a table with the frames from \<open>k\<close> on.\<close>

definition directory_maps :: "memory \<Rightarrow> nat \<Rightarrow> nat \<Rightarrow> nat \<Rightarrow> nat \<Rightarrow> bool" where
  "directory_maps m D q n k \<longleftrightarrow> (\<exists>T. read32 m (of_nat (D + 4096 + 4 * q)) = of_nat T OR 7 \<and> T mod 4096 = 0 \<and>
     D \<le> T \<and> T + 4096 \<le> 0x400000 \<and> mapped m T 0 n k)"

lemma directory_maps_walk:
  assumes "directory_maps m D q n k" "x < n" "n \<le> 1024" "q < 1024" "b < 4096"
  shows "walk m (of_nat (D + 4096)) (of_nat (page_addr q x + b)) = Some (of_nat (k + x))"
proof -
  obtain T where T: "read32 m (of_nat (D + 4096 + 4 * q)) = of_nat T OR 7" "T mod 4096 = 0" "T + 4096 < 2 ^ 32"
    "mapped m T 0 n k" using assms(1) by (auto simp: directory_maps_def)
  then have "load_page m (of_nat (T + 4 * x)) = entry (k + x)" using assms(2) by (simp add: holds_frames_def)
  from walk_entry [OF T(1-3) this] assms show ?thesis by simp
qed

lemma low_read32:
  assumes "same_outside R m m'" "region D 0x400000 \<inter> R = {}" "D \<le> e" "e + 4 \<le> 0x400000"
  shows "read32 m' (of_nat e) = read32 m (of_nat e)"
proof -
  have "unat (of_nat e :: u32) = e" using assms(4) by (intro unat_of_nat32) simp
  moreover have "region e (e + 4) \<subseteq> region D 0x400000" using assms(3,4) by (auto simp: region_def)
  ultimately show ?thesis using assms(2,4) by (intro read32_keep [OF assms(1)]) auto
qed

lemma directory_maps_keep:
  assumes "directory_maps m D q n k" "same_outside R m m'" "region D 0x400000 \<inter> R = {}"
    "D + 8192 \<le> 0x400000" "n \<le> 1024" "q < 1024"
  shows "directory_maps m' D q n k"
proof -
  obtain T where T: "read32 m (of_nat (D + 4096 + 4 * q)) = of_nat T OR 7" "T mod 4096 = 0"
    "T + 4096 \<le> 0x400000" "mapped m T 0 n k" "D \<le> T" using assms(1) by (auto simp: directory_maps_def)
  have "read32 m' (of_nat (D + 4096 + 4 * q)) = of_nat T OR 7"
    using low_read32 [OF assms(2,3), of "D + 4096 + 4 * q"] T(1) assms(4,6) by simp
  moreover have "mapped m' T 0 n k"
    unfolding holds_frames_def
  proof (intro allI impI)
    fix i assume i: "i < n"
    then have "D \<le> T + 4 * (0 + i)" "T + 4 * (0 + i) + 4 \<le> 0x400000" using assms(5) T(3,5) by simp_all
    from low_read32 [OF assms(2,3) this] show "load_page m' (of_nat (T + 4 * (0 + i))) = entry (k + i)"
      using T(4) i by (simp add: holds_frames_def load_page_def)
  qed
  ultimately show ?thesis using T(2,3,5) by (auto simp: directory_maps_def)
qed

section \<open>Room for the heap to grow\<close>

text \<open>
  The page table of the heap, with no frame from page \<open>x\<close> on, and a bitmap in which the frames from
  \<open>k\<close> on are free: what growing the heap needs and what the initialisation leaves.
\<close>

definition spare_pages :: "nat \<Rightarrow> nat \<Rightarrow> nat \<Rightarrow> nat \<Rightarrow> nat \<Rightarrow> nat \<Rightarrow> 'a mm_scheme \<Rightarrow> bool" where
  "spare_pages fa D T q x k s \<longleftrightarrow> layout_ok fa D T \<and> bitmap fa s k \<and> kernel_directory s = of_nat D \<and> q < 1024 \<and>
     read32 (mem s) (of_nat (D + 4 * q)) = of_nat T \<and> read32 (mem s) (of_nat (D + 4096 + 4 * q)) = of_nat T OR 7 \<and>
     T mod 4096 = 0 \<and> (\<forall>i. x \<le> i \<longrightarrow> i < 1024 \<longrightarrow> read32 (mem s) (of_nat (T + 4 * i)) = 0)"

lemma spare_pages_keep:
  assumes sp: "spare_pages fa D T q x k s" and out: "same_outside (region lo hi) (mem s) (mem s')" "T + 4096 \<le> lo \<or> hi \<le> fa"
    and eq: "frame_allocations s' = frame_allocations s" "nframes s' = nframes s" "kernel_directory s' = kernel_directory s"
  shows "spare_pages fa D T q x k s'"
proof -
  have lay: "layout_ok fa D T" using sp by (simp add: spare_pages_def)
  have low: "read32 (mem s') (of_nat e) = read32 (mem s) (of_nat e)" if "fa \<le> e" "e + 4 \<le> T + 4096" for e
  proof -
    have "unat (of_nat e :: u32) = e" using that lay by (intro unat_of_nat32) (simp add: layout_ok_def)
    with that out(2) lay show ?thesis by (intro read32_keep [OF out(1)]) (auto simp: region_def layout_ok_def)
  qed
  have "region fa (fa + 2048) \<inter> region lo hi = {}" using out(2) lay by (auto simp: region_def layout_ok_def)
  moreover have "bitmap fa (s\<lparr>mem := mem s'\<rparr>) k \<longleftrightarrow> bitmap fa s' k" using eq by (simp add: bitmap_def used_def)
  ultimately have "bitmap fa s' k"
    using bitmap_keep [of fa s k "region lo hi" "s\<lparr>mem := mem s'\<rparr>"] sp out(1) lay by (simp add: spare_pages_def layout_ok_def)
  moreover have "D + 4 * q + 4 \<le> T + 4096" "D + 4096 + 4 * q + 4 \<le> T + 4096" using sp lay by (simp_all add: spare_pages_def layout_ok_def)
  ultimately show ?thesis
    using sp low eq by (simp add: spare_pages_def layout_ok_def del: of_nat_add of_nat_mult)
qed

lemma spare_pages_state:
  "spare_pages fa D T q x k s \<Longrightarrow> mem t = mem s \<Longrightarrow> frame_allocations t = frame_allocations s \<Longrightarrow>
   nframes t = nframes s \<Longrightarrow> kernel_directory t = kernel_directory s \<Longrightarrow> spare_pages fa D T q x k t"
  by (auto simp: spare_pages_def bitmap_def used_def)

section \<open>The three loops together\<close>

lemma map_page_again:
  assumes "get_page (kmalloc_ap al 4096) i 1 (kernel_directory s) s = Inr (r, t)"
    "get_page (kmalloc_ap al 4096) i 1 (kernel_directory t) t = Inr (r, t)"
  shows "map_page al (i, s) = map_page al (i, t)"
  using assms by (simp add: map_page_def)

lemma while_res_same: "b s \<Longrightarrow> b t \<Longrightarrow> c s = c t \<Longrightarrow> while_res b c s = while_res b c t"
  by (simp add: while_res_unfold [of b c s] while_res_unfold [of b c t])

lemma map_kernel_run:
  fixes s :: "'a mm_scheme"
  assumes st: "kheap s = None" "placement_addr s = of_nat (D + 8192)" "kernel_directory s = of_nat D" "bitmap p s 0"
    and z: "zeroed (mem s) D (D + 8192)" and p: "4096 \<le> p" "p + 2048 \<le> D" "D \<le> p + 6144" "p \<le> 0x3F0000" "D mod 4096 = 0"
  shows "\<exists>m N. map_kernel al s = Inr (s\<lparr>placement_addr := of_nat (4096 * N), mem := m\<rparr>) \<and>
    (\<exists>T. T + 4096 \<le> 4096 * N \<and> spare_pages p D T 768 256 (N + 257) (s\<lparr>mem := m\<rparr>)) \<and> D + 8192 \<le> 4096 * N \<and> N < 1024 \<and> directory_maps m D 0 (Suc N) 0 \<and> directory_maps m D 768 256 (Suc N) \<and>
    same_outside (region p (4096 * N)) (mem s) m"
proof -
  define T1 where "T1 = next_page (D + 8192)"
  define T0 where "T0 = next_page (T1 + 4096)"
  define N where "N = T0 div 4096 + 1"
  note n1 = next_page_bounds [of "D + 8192", folded T1_def]
  note n0 = next_page_bounds [of "T1 + 4096", folded T0_def]
  have N: "4096 * N = T0 + 4096" using n0(3) mult_div_mod_eq [of 4096 T0] by (simp add: N_def)
  have small: "T0 + 4096 \<le> 0x3F8000" using n0 n1 p by simp
  have N1: "N < 1020" using N small by simp
  let ?a1 = "page_addr 768 0"
  have a1: "?a1 < 2 ^ 32" "slot_of D ?a1 = D + 3072" "?a1 div 4096 mod 1024 = 0" "KHEAP_START = of_nat ?a1"
    using page_addr_simps [of 768 0] by (simp_all add: page_addr_def slot_of_def)
  have zero1: "read32 (mem s) (of_nat (slot_of D ?a1)) = 0" unfolding a1 using p by (intro zeroed_read32 [OF z]) simp_all
  obtain m1 where m1: "get_page (kmalloc_ap al 4096) (of_nat ?a1) 1 (of_nat D) s = Inr (of_nat T1, s\<lparr>placement_addr := of_nat (T1 + 4096), mem := m1\<rparr>)"
    "read32 m1 (of_nat (D + 3072)) = of_nat T1" "read32 m1 (of_nat (D + 7168)) = of_nat T1 OR 7"
    "\<forall>x < 1024. read32 m1 (of_nat (T1 + 4 * x)) = 0"
    "same_outside (region (D + 3072) (D + 3076) \<union> region (D + 7168) (D + 7172) \<union> region T1 (T1 + 4096)) (mem s) m1"
    using get_page_fresh [of ?a1 s D "D + 8192" al, folded T1_def] a1 zero1 st p by (auto simp: add_ac simp del: of_nat_add)
  let ?s1 = "s\<lparr>placement_addr := of_nat (T1 + 4096), mem := m1\<rparr>"
  have T1nz: "(of_nat T1 :: u32) \<noteq> 0" using of_nat_eq32 [of T1 0] small n0 n1 by simp
  have loop1: "while_res heap_guard (touch_page al) (KHEAP_START, s) = Inr (KHEAP_START + KHEAP_INITIAL_SIZE, ?s1)"
    using m1(1,2) st(3) T1nz by (intro touch_loop [of al s "of_nat T1" ?s1 D T1]) (simp_all add: a1(4))
  have zero0: "read32 m1 (of_nat D) = 0"
  proof -
    have "read32 m1 (of_nat D) = read32 (mem s) (of_nat D)"
      using unat_of_nat32 [of D] n1 p by (intro read32_keep [OF m1(5)]) (auto simp: region_def)
    then show ?thesis using zeroed_read32 [OF z, of D] p by simp
  qed
  have "D + 8192 \<le> T1 + 4096" "T1 + 4096 + 8192 < 2 ^ 32" "4096 \<le> T1 + 4096" using n1 n0 small by simp_all
  then obtain m2 where m2: "get_page (kmalloc_ap al 4096) 0 1 (of_nat D) ?s1 = Inr (of_nat T0, ?s1\<lparr>placement_addr := of_nat (T0 + 4096), mem := m2\<rparr>)"
    "read32 m2 (of_nat D) = of_nat T0" "read32 m2 (of_nat (D + 4096)) = of_nat T0 OR 7"
    "\<forall>x < 1024. read32 m2 (of_nat (T0 + 4 * x)) = 0"
    "same_outside (region D (D + 4) \<union> region (D + 4096) (D + 4100) \<union> region T0 (T0 + 4096)) m1 m2"
    using get_page_fresh [of 0 ?s1 D "T1 + 4096" al, folded T0_def] zero0 st
    by (auto simp: slot_of_def simp del: of_nat_add)
  let ?s2 = "s\<lparr>placement_addr := of_nat (T0 + 4096), mem := m2\<rparr>"
  have T0nz: "(of_nat T0 :: u32) \<noteq> 0" using of_nat_eq32 [of T0 0] small n0 by simp
  have "get_page (kmalloc_ap al 4096) 0 1 (of_nat D) ?s2 = Inr (of_nat T0, ?s2)"
    using get_page_present [of 0 ?s2 D T0 "kmalloc_ap al 4096"] m2(2) T0nz by (simp add: slot_of_def)
  then have "map_page al (0, ?s1) = map_page al (0, ?s2)"
    using m2(1) st(3) by (intro map_page_again) simp_all
  moreover have "identity_guard (0, ?s1)" "identity_guard (0, ?s2)"
    using small n0 of_nat_less32 [of 0 "T1 + 8192"] of_nat_less32 [of 0 "T0 + 8192"] by (simp_all add: add.commute)
  ultimately have again: "while_res identity_guard (map_page al) (0, ?s1) = while_res identity_guard (map_page al) (0, ?s2)"
    by (intro while_res_same) simp_all
  have lay: "layout_ok p D T0" "layout_ok p D T1" using n0 n1 small p by (simp_all add: layout_ok_def)
  have out: "same_outside (region (D + 3072) (D + 3076) \<union> region (D + 7168) (D + 7172) \<union> region T1 (T1 + 4096)) (mem s) (mem ?s1)"
      "same_outside (region D (D + 4) \<union> region (D + 4096) (D + 4100) \<union> region T0 (T0 + 4096)) (mem ?s1) (mem ?s2)"
    using m1(5) m2(5) by simp_all
  have far: "region p (p + 2048) \<inter> (region (D + 3072) (D + 3076) \<union> region (D + 7168) (D + 7172) \<union> region T1 (T1 + 4096)) = {}"
      "region p (p + 2048) \<inter> (region D (D + 4) \<union> region (D + 4096) (D + 4100) \<union> region T0 (T0 + 4096)) = {}"
    using p n0 n1 by (auto simp: region_def)
  have bm1: "bitmap p ?s1 0" by (rule bitmap_keep [OF st(4) out(1) far(1)]) (use p in simp_all)
  have bm2: "bitmap p ?s2 0" by (rule bitmap_keep [OF bm1 out(2) far(2)]) (use p in simp_all)
  have stop: "identity_guard (i, ?s2\<lparr>mem := m\<rparr>) \<longleftrightarrow> i < of_nat (page_addr 0 (0 + Suc N))" for i m
    using N by (simp add: page_addr_def add_ac)
  have "\<exists>m. while_res identity_guard (map_page al) (of_nat (page_addr 0 0), ?s2) = Inr (of_nat (page_addr 0 (0 + Suc N)), ?s2\<lparr>mem := m\<rparr>) \<and>
      bitmap p (?s2\<lparr>mem := m\<rparr>) (0 + Suc N) \<and> mapped m T0 0 (Suc N) 0 \<and> same_outside (map_writes p T0 0 (Suc N)) (mem ?s2) m"
  proof (rule map_loop [OF lay(1) _ stop])
    show "page_addr 0 (0 + Suc N) < 2 ^ 32" using N1 by (simp add: page_addr_def)
    fix i assume "i < Suc N"
    then show "read32 (mem ?s2) (of_nat (T0 + 4 * (0 + i))) = 0" using m2(4) N1 by simp
  qed (use N1 bm2 m2(2) st(3) in simp_all)
  then obtain m3 where m3: "while_res identity_guard (map_page al) (0, ?s2) = Inr (of_nat (page_addr 0 (Suc N)), ?s2\<lparr>mem := m3\<rparr>)"
    "bitmap p (?s2\<lparr>mem := m3\<rparr>) (Suc N)" "mapped m3 T0 0 (Suc N) 0" "same_outside (map_writes p T0 0 (Suc N)) m2 m3"
    by (auto simp: page_addr_def)
  let ?s3 = "?s2\<lparr>mem := m3\<rparr>"
  have keep1: "read32 m3 (of_nat e) = read32 m1 (of_nat e)" if "D + 3072 \<le> e" "e + 4 \<le> D + 4096 \<or> D + 4100 \<le> e" "e + 4 \<le> T0" for e
  proof -
    have u: "unat (of_nat e :: u32) = e" using that small by (intro unat_of_nat32) simp
    have "read32 m2 (of_nat e) = read32 m1 (of_nat e)"
      using u that small by (intro read32_keep [OF m2(5)]) (auto simp: region_def)
    moreover have "read32 m3 (of_nat e) = read32 m2 (of_nat e)"
      using u that small p by (intro read32_keep [OF m3(4)]) (auto simp: region_def)
    ultimately show ?thesis by simp
  qed
  have T1low: "D + 8192 < T1" "T1 + 4096 < T0" using n0 n1 by simp_all
  have dir1: "read32 m3 (of_nat (D + 4 * 768)) = of_nat T1" "read32 m3 (of_nat (D + 7168)) = of_nat T1 OR 7"
    using keep1 [of "D + 3072"] keep1 [of "D + 7168"] m1(2,3) T1low by simp_all
  have zero3: "read32 m3 (of_nat (T1 + 4 * x)) = 0" if "x < 1024" for x
    using keep1 [of "T1 + 4 * x"] m1(4) that T1low by simp
  have stop': "heap_guard (i, ?s3\<lparr>mem := m\<rparr>) \<longleftrightarrow> i < of_nat (page_addr 768 (0 + 256))" for i m
    by (simp add: page_addr_def)
  have "\<exists>m. while_res heap_guard (map_page al) (of_nat (page_addr 768 0), ?s3) = Inr (of_nat (page_addr 768 (0 + 256)), ?s3\<lparr>mem := m\<rparr>) \<and>
      bitmap p (?s3\<lparr>mem := m\<rparr>) (Suc N + 256) \<and> mapped m T1 0 256 (Suc N) \<and> same_outside (map_writes p T1 0 256) (mem ?s3) m"
  proof (rule map_loop [OF lay(2) _ stop'])
    show "page_addr 768 (0 + 256) < 2 ^ 32" by (simp add: page_addr_def)
    fix i :: nat assume "i < 256"
    then show "read32 (mem ?s3) (of_nat (T1 + 4 * (0 + i))) = 0" using zero3 by simp
  qed (use N1 m3(2) dir1(1) st(3) in simp_all)
  then obtain m4 where m4: "while_res heap_guard (map_page al) (KHEAP_START, ?s3) = Inr (of_nat (page_addr 768 256), ?s3\<lparr>mem := m4\<rparr>)"
    "mapped m4 T1 0 256 (Suc N)" "same_outside (map_writes p T1 0 256) m3 m4" "bitmap p (?s3\<lparr>mem := m4\<rparr>) (Suc N + 256)"
    by (auto simp: a1(4))
  have keep3: "read32 m4 (of_nat e) = read32 m3 (of_nat e)" if "D \<le> e" "e + 4 \<le> T1 \<or> T0 \<le> e" "e + 4 \<le> 0x400000" for e
  proof -
    have u: "unat (of_nat e :: u32) = e" using that by (intro unat_of_nat32) simp
    show ?thesis using u that p T1low by (intro read32_keep [OF m4(3)]) (auto simp: region_def)
  qed
  have "read32 m3 (of_nat (D + 4096)) = of_nat T0 OR 7"
    using slot_keep [OF m3(4) lay(1), of 1024] m2(3) by simp
  then have "read32 m4 (of_nat (D + 4096)) = of_nat T0 OR 7"
    using keep3 [of "D + 4096"] T1low small by simp
  moreover have "mapped m4 T0 0 (Suc N) 0"
    unfolding holds_frames_def
  proof (intro allI impI)
    fix i assume "i < Suc N"
    then show "load_page m4 (of_nat (T0 + 4 * (0 + i))) = entry (0 + i)"
      using m3(3) keep3 [of "T0 + 4 * i"] N1 T1low small by (simp add: holds_frames_def load_page_def)
  qed
  ultimately have maps0: "directory_maps m4 D 0 (Suc N) 0"
    using n0(3) small T1low by (auto simp: directory_maps_def)
  have "read32 m4 (of_nat (D + 7168)) = of_nat T1 OR 7"
    using keep3 [of "D + 7168"] dir1(2) T1low small by simp
  then have maps1: "directory_maps m4 D 768 256 (Suc N)"
    unfolding directory_maps_def using n1(3) m4(2) T1low small by (intro exI [of _ T1]) (simp add: add.commute)
  have "spare_pages p D T1 768 256 (N + 257) (?s3\<lparr>mem := m4\<rparr>)"
  proof -
    have "read32 m4 (of_nat (T1 + 4 * i)) = 0" if "256 \<le> i" "i < 1024" for i
      using table_keep [OF m4(3) lay(2), of "T1 + 4 * i"] zero3 [of i] that T1low small by simp
    moreover have "read32 m4 (of_nat (D + 4 * 768)) = of_nat T1"
      using slot_keep [OF m4(3) lay(2), of 768] dir1(1) by simp
    moreover have "read32 m4 (of_nat (D + 4096 + 4 * 768)) = of_nat T1 OR 7"
      using keep3 [of "D + 7168"] dir1(2) T1low small by (simp add: add.commute)
    ultimately show ?thesis
      using lay(2) m4(4) st(3) n1(3) by (simp add: spare_pages_def add.commute del: of_nat_add of_nat_mult)
  qed
  then have spare: "spare_pages p D T1 768 256 (N + 257) (s\<lparr>mem := m4\<rparr>)" by (rule spare_pages_state) simp_all
  have sub: "region (D + 3072) (D + 3076) \<union> region (D + 7168) (D + 7172) \<union> region T1 (T1 + 4096) \<subseteq> region p (4096 * N)"
      "region D (D + 4) \<union> region (D + 4096) (D + 4100) \<union> region T0 (T0 + 4096) \<subseteq> region p (4096 * N)"
      "map_writes p T0 0 (Suc N) \<subseteq> region p (4096 * N)" "map_writes p T1 0 256 \<subseteq> region p (4096 * N)"
    using p T1low N N1 by (auto simp: region_def)
  have "same_outside (region p (4096 * N)) (mem s) m4"
    using same_outside_mono [OF m1(5) sub(1)] same_outside_mono [OF m2(5) sub(2)]
      same_outside_mono [OF m3(4) sub(3)] same_outside_mono [OF m4(3) sub(4)] by (blast intro: same_outside_trans)
  moreover have "map_kernel al s = Inr (s\<lparr>placement_addr := of_nat (4096 * N), mem := m4\<rparr>)"
    unfolding map_kernel_def loop1 using again m3(1) m4(1) N by simp
  moreover have "T1 + 4096 \<le> 4096 * N" using N T1low by simp
  with spare have "\<exists>T. T + 4096 \<le> 4096 * N \<and> spare_pages p D T 768 256 (N + 257) (s\<lparr>mem := m4\<rparr>)" by blast
  ultimately show ?thesis using maps0 maps1 N N1 T1low by (intro exI [of _ m4] exI [of _ N]) simp
qed

section \<open>The whole initialisation\<close>

lemma init_paging_run:
  fixes s :: "'a kernel_scheme"
  assumes st: "kheap s = None" "placement_addr s = of_nat p" and p: "0x1000 \<le> p" "p \<le> 0x3F0000"
    and guard: "read32 (mem s) 0xC0080FF8 \<noteq> HEAP_MAGIC"
  shows "\<exists>m N D h. init_paging al s = Inr (s\<lparr>nframes := 0x10000, placement_addr := of_nat (4096 * N) + 32,
      frame_allocations := of_nat p, kernel_directory := of_nat D, mem := m, current_directory := of_nat D,
      interrupt_handler := (interrupt_handler s)(14 := Some Page_fault), cr3 := of_nat (D + 4096), paging_on := True,
      kheap := Some h\<rparr>) \<and>
    heap_rep h m [(True, 0x7F000)] \<and> start_address h = 0xC0081000 \<and> oa_array (index h) = KHEAP_START \<and>
    end_address h = 0xC0100000 \<and> max_address h = 0xCFFFF000 \<and> oa_max_size (index h) = HEAP_INDEX_SIZE \<and>
    (\<exists>T. T + 4096 \<le> 4096 * N \<and> (\<forall>t :: 'a kernel_scheme. frame_allocations t = of_nat p \<and> nframes t = 0x10000 \<and>
      kernel_directory t = of_nat D \<and> mem t = m \<longrightarrow> spare_pages p D T 768 256 (N + 257) t)) \<and>
    p < D \<and> D + 8192 \<le> 4096 * N \<and> N < 1024 \<and> directory_maps m D 0 (Suc N) 0 \<and> directory_maps m D 768 256 (Suc N) \<and>
    same_outside (region p (4096 * N) \<union> region 0xC0000000 0xC008100C) (mem s) m"
proof -
  define D where "D = next_page (p + 2048)"
  note D = next_page_bounds [of "p + 2048", folded D_def]
  from setup_directory_run [OF st p, folded D_def, of al] obtain m1 where
    m1: "setup_directory al s = Inr (s\<lparr>nframes := 0x10000, placement_addr := of_nat (D + 8192),
      frame_allocations := of_nat p, kernel_directory := of_nat D, mem := m1, current_directory := of_nat D\<rparr>)"
      "zeroed m1 p (p + 2048)" "zeroed m1 D (D + 8192)" "same_outside (region p (D + 8192)) (mem s) m1" by blast
  let ?s1 = "s\<lparr>nframes := 0x10000, placement_addr := of_nat (D + 8192),
      frame_allocations := of_nat p, kernel_directory := of_nat D, mem := m1, current_directory := of_nat D\<rparr>"
  have "bitmap p ?s1 0" using p by (intro zero_bitmap [OF m1(2)]) simp_all
  from map_kernel_run [of ?s1 D p al] this m1(3) st p D obtain m2 N T where
    m2: "map_kernel al ?s1 = Inr (?s1\<lparr>placement_addr := of_nat (4096 * N), mem := m2\<rparr>)"
      "D + 8192 \<le> 4096 * N" "N < 1024" "directory_maps m2 D 0 (Suc N) 0" "directory_maps m2 D 768 256 (Suc N)"
      "same_outside (region p (4096 * N)) m1 m2"
      "T + 4096 \<le> 4096 * N" "spare_pages p D T 768 256 (N + 257) (?s1\<lparr>mem := m2\<rparr>)" by auto
  let ?s3 = "enable_paging (of_nat D) (register_interrupt_handler 14 Page_fault (?s1\<lparr>placement_addr := of_nat (4096 * N), mem := m2\<rparr>))"
  have low: "same_outside (region p (4096 * N)) (mem s) m2"
    using m1(4) m2(2,6) by (meson same_outside_region_mono same_outside_trans le_refl)
  have "read32 m2 0xC0080FF8 = read32 (mem s) 0xC0080FF8"
    by (rule read32_keep [OF low]) (use m2(3) in \<open>auto simp: region_def\<close>)
  with guard have "read32 (mem ?s3) (KHEAP_START + 0x80FF8) \<noteq> HEAP_MAGIC"
    by (simp add: enable_paging_def register_interrupt_handler_def)
  from create_heap_rep [of ?s3 KHEAP_START "KHEAP_START + KHEAP_INITIAL_SIZE", OF _ _ _ _ _ this, of al "0xCFFFF000" 0 0]
  obtain h m3 where
    h: "create_heap al KHEAP_START (KHEAP_START + KHEAP_INITIAL_SIZE) 0xCFFFF000 0 0 ?s3 =
        Inr (h, ?s3\<lparr>mem := m3, placement_addr := placement_addr ?s3 + 32\<rparr>)"
      "heap_rep h m3 [(True, 0x7F000)]" "start_address h = 0xC0081000" "oa_array (index h) = KHEAP_START"
      "end_address h = 0xC0100000" "max_address h = 0xCFFFF000" "oa_max_size (index h) = HEAP_INDEX_SIZE"
      "same_outside (region 0xC0000000 0xC008100C) m2 m3"
    using st by (auto simp: enable_paging_def register_interrupt_handler_def)
  have pD: "p < D" using D(1) by simp
  have apart: "region D 0x400000 \<inter> region 0xC0000000 0xC008100C = {}" by (auto simp: region_def)
  have "D + 8192 \<le> 0x400000" using m2(2,3) by simp
  then have maps: "directory_maps m3 D 0 (Suc N) 0" "directory_maps m3 D 768 256 (Suc N)"
    using m2(3) by (auto intro!: directory_maps_keep [OF m2(4) h(8) apart] directory_maps_keep [OF m2(5) h(8) apart])
  have "same_outside (region p (4096 * N) \<union> region 0xC0000000 0xC008100C) (mem s) m3"
    using low h(8) by (meson same_outside_mono same_outside_trans sup_ge1 sup_ge2)
  moreover have "init_paging al s = Inr (s\<lparr>nframes := 0x10000, placement_addr := of_nat (4096 * N) + 32,
      frame_allocations := of_nat p, kernel_directory := of_nat D, mem := m3, current_directory := of_nat D,
      interrupt_handler := (interrupt_handler s)(14 := Some Page_fault), cr3 := of_nat (D + 4096), paging_on := True,
      kheap := Some h\<rparr>)"
    using m1(1) m2(1) h(1) by (simp add: init_paging_def enable_paging_def register_interrupt_handler_def page_tables_physical_def)
  moreover have "\<forall>t :: 'a kernel_scheme. frame_allocations t = of_nat p \<and> nframes t = 0x10000 \<and>
      kernel_directory t = of_nat D \<and> mem t = m3 \<longrightarrow> spare_pages p D T 768 256 (N + 257) t"
    using h(8) m2(3,7) by (auto intro!: spare_pages_keep [OF m2(8), of "0xC0000000" "0xC008100C"])
  ultimately show ?thesis
    using maps h(2-7) m2(2,3,7) pD by (intro exI [of _ m3] exI [of _ N] exI [of _ D] exI [of _ h]) blast
qed

section \<open>The page fault handler\<close>

text \<open>What the page fault handler says: the cause and the address.\<close>

definition fault_text :: "u32 \<Rightarrow> u32 \<Rightarrow> u8 list" where
  "fault_text err addr = lit_bytes (LF @ ''Page fault! ( '') @
     (if err AND 0x1 = 0 then lit_bytes ''Present '' else []) @
     (if err AND 0x2 \<noteq> 0 then lit_bytes ''Read-Only '' else []) @
     (if err AND 0x4 \<noteq> 0 then lit_bytes ''User-Mode '' else []) @
     (if err AND 0x8 \<noteq> 0 then lit_bytes ''Reserved'' else []) @
     lit_bytes '') at '' @ uitoa_text addr 16 @ [0x0A]"

lemma items_append: "items fg bg (xs @ ys) = items fg bg xs @ items fg bg ys"
  by (simp add: items_def)

lemma items_if: "items fg bg (if b then xs else []) = (if b then items fg bg xs else [])"
  by (simp add: items_def)

lemma page_fault_message_printed:
  assumes "ready (stk env) ps s"
  shows "\<exists>t. page_fault_message env regs s = Inr t \<and>
    printed (stk env) s (items WHITE BLACK (fault_text (err_code regs) (cr2 env))) t"
proof -
  have tail: "\<exists>t. printf (stk env) (Lit ('') at %x'' @ LF)) [Word (cr2 env)] u = Inr t \<and>
      printed (stk env) u (items WHITE BLACK (lit_bytes '') at '' @ uitoa_text (cr2 env) 16 @ [0x0A])) t"
    if "ready (stk env) ps u" for u :: "'a tty_scheme"
    by (rule format_printed [OF that, where as = "[Num (cr2 env)]"]) (simp_all add: literal)
  have first: "\<exists>t. kprint (Lit (LF @ ''Page fault! ( '')) s = Inr t \<and>
      printed (stk env) s (items WHITE BLACK (lit_bytes (LF @ ''Page fault! ( ''))) t"
    using ready_kprint [OF assms, of "LF @ ''Page fault! ( ''" True] by (simp add: proper_lit_def)
  show ?thesis
    unfolding page_fault_message_def fault_text_def items_append items_if
    by (intro printed_bind [OF first assms] printed_bind [OF ready_kprint] tail [unfolded items_append])
      (assumption | simp add: proper_lit_def)+
qed

text \<open>The pages of a started kernel: \<open>N\<close> frames mapped to themselves, the next ones at the heap.\<close>

definition kernel_pages :: "nat \<Rightarrow> 'a kernel_scheme \<Rightarrow> bool" where
  "kernel_pages N t \<longleftrightarrow> paging_on t \<and> N \<le> 1024 \<and>
     (\<forall>a. unat a < 4096 * N \<longrightarrow> walk (mem t) (cr3 t) a = Some (of_nat (unat a div 4096))) \<and>
     (\<forall>b < 0x100000. walk (mem t) (cr3 t) (of_nat (0xC0000000 + b)) = Some (of_nat (N + b div 4096)))"

lemma kernel_pagesI:
  assumes "directory_maps (mem t) D 0 (Suc N) 0" "directory_maps (mem t) D 768 256 (Suc N)" "N < 1024"
    and "cr3 t = of_nat (D + 4096)" "paging_on t"
  shows "kernel_pages (Suc N) t"
proof -
  have "walk (mem t) (of_nat (D + 4096)) a = Some (of_nat (unat a div 4096))" if "unat a < 4096 * Suc N" for a
  proof -
    have "page_addr 0 (unat a div 4096) + unat a mod 4096 = unat a" by (simp add: page_addr_def)
    then show ?thesis
      using directory_maps_walk [OF assms(1), of "unat a div 4096" "unat a mod 4096"] that assms(3)
      by (simp add: less_mult_imp_div_less mult.commute del: of_nat_add)
  qed
  moreover have "walk (mem t) (of_nat (D + 4096)) (of_nat (0xC0000000 + b)) = Some (of_nat (Suc N + b div 4096))"
    if "b < 0x100000" for b
  proof -
    have "page_addr 768 (b div 4096) + b mod 4096 = 0xC0000000 + b" by (simp add: page_addr_def)
    moreover have "b div 4096 < 256" using that by simp
    ultimately show ?thesis
      using directory_maps_walk [OF assms(2), of "b div 4096" "b mod 4096"] by (simp del: of_nat_add)
  qed
  ultimately show ?thesis using assms(3-5) by (simp add: kernel_pages_def del: of_nat_add of_nat_Suc)
qed

section \<open>Properties\<close>

text \<open>
  C9: \<^verbatim>\<open>init_paging\<close> builds what it announces: the identity map of all memory allocated so far,
  frame \<open>i\<close> at address \<open>4096 * i\<close>, then one frame after the other for the initial pages
  of the kernel heap, with the register \<^verbatim>\<open>cr3\<close> on the physical table of the directory, paging on, the
  page fault handler in place and the heap in its initial state: one hole behind the index. The
  translation is the one that the processor computes from the tables in memory.
\<close>

theorem init_paging_maps:
  fixes s :: "'a kernel_scheme"
  assumes "kheap s = None" "placement_addr s = of_nat p" "0x1000 \<le> p" "p \<le> 0x3F0000"
    and "read32 (mem s) 0xC0080FF8 \<noteq> HEAP_MAGIC"
  shows "\<exists>t N. init_paging al s = Inr t \<and> p < 4096 * N \<and> N \<le> 1024 \<and> unat (placement_addr t) \<le> 4096 * N \<and>
    (\<forall>a. unat a < 4096 * N \<longrightarrow> walk (mem t) (cr3 t) a = Some (of_nat (unat a div 4096))) \<and>
    (\<forall>b < 0x100000. walk (mem t) (cr3 t) (of_nat (0xC0000000 + b)) = Some (of_nat (N + b div 4096))) \<and>
    paging_on t \<and> current_directory t = kernel_directory t \<and> cr3 t = kernel_directory t + 4096 \<and>
    interrupt_handler t 14 = Some Page_fault \<and> heap_state t [(True, 0x7F000)] \<and> heap_base t = 0xC0081000"
proof -
  obtain m N D h where
    run: "init_paging al s = Inr (s\<lparr>nframes := 0x10000, placement_addr := of_nat (4096 * N) + 32,
      frame_allocations := of_nat p, kernel_directory := of_nat D, mem := m, current_directory := of_nat D,
      interrupt_handler := (interrupt_handler s)(14 := Some Page_fault), cr3 := of_nat (D + 4096), paging_on := True,
      kheap := Some h\<rparr>)" (is "_ = Inr ?t")
    and heap: "heap_rep h m [(True, 0x7F000)]" "start_address h = 0xC0081000" and N: "p < D" "D + 8192 \<le> 4096 * N" "N < 1024"
    and maps: "directory_maps m D 0 (Suc N) 0" "directory_maps m D 768 256 (Suc N)"
    using init_paging_run [OF assms, of al] by blast
  have "kernel_pages (Suc N) ?t" using maps N by (intro kernel_pagesI [of _ D]) simp_all
  moreover have "unat (of_nat (4096 * N) + 32 :: u32) \<le> 4096 * Suc N"
    using N unat_of_nat32 [of "4096 * N + 32"] by simp
  moreover have "(of_nat (D + 4096) :: u32) = of_nat D + 0x1000" by simp
  ultimately show ?thesis
    using run heap N by (intro exI [of _ ?t] exI [of _ "Suc N"]) (simp add: kernel_pages_def heap_state_def heap_base_def del: of_nat_add of_nat_Suc)
qed

theorem init_paging_maps_witness:
  "\<forall>al. \<exists>t. init_paging al power_up = Inr t \<and> walk (mem t) (cr3 t) 0xB8000 = Some 0xB8 \<and> paging_on t \<and>
    (\<exists>f. walk (mem t) (cr3 t) 0xC0000000 = Some f)"
proof
  fix al :: "u32 \<Rightarrow> u8 \<Rightarrow> kernel \<Rightarrow> kerror + u32 \<times> kernel"
  have "read32 (mem power_up) 0xC0080FF8 \<noteq> HEAP_MAGIC" by (simp add: read32_def)
  from init_paging_maps [of power_up "0x200000" al, OF _ _ _ _ this] obtain t N where
    t: "init_paging al power_up = Inr t" "0x200000 < 4096 * N" "unat (placement_addr t) \<le> 4096 * N" "paging_on t"
      "\<forall>a. unat a < 4096 * N \<longrightarrow> walk (mem t) (cr3 t) a = Some (of_nat (unat a div 4096))"
      "\<forall>b < 0x100000. walk (mem t) (cr3 t) (of_nat (0xC0000000 + b)) = Some (of_nat (N + b div 4096))"
    by auto
  show "\<exists>t. init_paging al power_up = Inr t \<and> walk (mem t) (cr3 t) 0xB8000 = Some 0xB8 \<and> paging_on t \<and>
    (\<exists>f. walk (mem t) (cr3 t) 0xC0000000 = Some f)"
    using t(1,4) t(2) t(5) [rule_format, of "0xB8000"] t(6) [rule_format, of 0] by (auto simp: word_le_nat_alt)
qed

text \<open>
  C29: A page fault is reported and then final: the handler prints the cause, as the bits of the
  error code give it, and the faulting address in hexadecimal, and ends in the panic
  \<^verbatim>\<open>Page fault\<close>; it never returns to the instruction that faulted.
\<close>

theorem page_fault_reported:
  assumes "tty_ok s" "panic_room (version env) (stk env)"
  shows "\<exists>t. page_fault_message env regs s = Inr t \<and>
      screen t = fold term_put (items WHITE BLACK (fault_text (err_code regs) (cr2 env))) (screen s) \<and>
      page_fault env regs s = (Inl (Panic ''Page fault'') :: kerror + 'b)"
proof -
  have "ready (stk env) {} s" using assms by (simp add: ready_def panic_room_def)
  from page_fault_message_printed [OF this] obtain t where
    t: "page_fault_message env regs s = Inr t"
      "printed (stk env) s (items WHITE BLACK (fault_text (err_code regs) (cr2 env))) t" by blast
  then have "tty_ok t" by (simp add: printed_def)
  then have "panic (version env) (stk env) ''Page fault'' (Lit ''paging.c'') 140 t = (Inl (Panic ''Page fault'') :: kerror + 'b)"
    using panic_final [OF _ assms(2), of t "''Page fault''" "''paging.c''" 140, where ?'b = 'b] by (simp add: proper_lit_def)
  with t show ?thesis
    by (simp add: page_fault_def printed_def proper_lit_def)
qed

theorem page_fault_reported_witness:
  "page_fault demo_env (registers_for 14) power_up = (Inl (Panic ''Page fault'') :: kerror + unit)"
proof -
  have "panic_room (version demo_env) (stk demo_env)"
    by (simp add: panic_room_def demo_env_def stack_example proper_lit_def apart_def word_le_nat_alt)
  from page_fault_reported [of power_up demo_env "registers_for 14", OF _ this, where ?'b = unit] show ?thesis by auto
qed

text \<open>
  C36: The bitmap is too small: \<^verbatim>\<open>init_paging\<close> reserves a byte for every 32 frames where a word
  is needed. The words of the frames from 16384 on lie behind the block, those from number
  \<open>8 * (D - p)\<close> on in the page directory that follows it: taking that frame sets the lowest bit of the
  directory's first entry.
\<close>

theorem bitmap_overlaps_directory:
  assumes "kheap s = None" "placement_addr s = of_nat p" "0x1000 \<le> p" "p \<le> 0x3F0000" "4 dvd p"
  shows "\<exists>t D. setup_directory al s = Inr t \<and> kernel_directory t = of_nat D \<and> frame_allocations t = of_nat p \<and>
    p + 2048 \<le> D \<and> 8 * (D - p) < 65536 \<and> read32 (mem t) (of_nat D) = 0 \<and>
    read32 (mem (set_frame (of_nat (8 * (D - p)) * FRAME_SIZE) t)) (of_nat D) = 1"
proof -
  define D where "D = next_page (p + 2048)"
  note D = next_page_bounds [of "p + 2048", folded D_def]
  from setup_directory_run [OF assms(1-4), folded D_def, of al] obtain m where
    m: "setup_directory al s = Inr (s\<lparr>nframes := 0x10000, placement_addr := of_nat (D + 8192),
      frame_allocations := of_nat p, kernel_directory := of_nat D, mem := m, current_directory := of_nat D\<rparr>)" (is "_ = Inr ?t")
      "zeroed m D (D + 8192)" by blast
  have zero: "read32 m (of_nat D) = 0" using m(2) D assms by (intro zeroed_read32 [OF m(2)]) simp_all
  have small: "8 * (D - p) < 2 ^ 20" using D by simp
  have "4 dvd D" using D(3) dvd_trans [of 4 4096 D] by (simp add: mod_eq_0_iff_dvd)
  then have "4 dvd D - p" using assms(5) by (rule dvd_diff_nat)
  then obtain j where j: "D - p = 4 * j" by (rule dvdE)
  then have slot: "8 * (D - p) div 32 = j" "8 * (D - p) mod 32 = 0" by simp_all
  have "p + 4 * j = D" using j D by simp
  then have addr: "(of_nat p :: u32) + 4 * of_nat j = of_nat D" by (metis of_nat_add of_nat_mult of_nat_numeral)
  have "mem (set_frame (of_nat (8 * (D - p)) * FRAME_SIZE) ?t) = write32 m (of_nat D) (read32 m (of_nat D) OR 1)"
    unfolding set_frame_slot(1) [OF small] slot get_slot_def put_slot_def by (simp add: addr)
  then show ?thesis
    using m(1) zero D by (intro exI [of _ ?t] exI [of _ D]) (simp del: of_nat_mult)
qed

theorem bitmap_overlaps_directory_witness:
  "\<forall>al. \<exists>t f. setup_directory al power_up = Inr t \<and> f < 65536 \<and> read32 (mem t) (kernel_directory t) = 0 \<and>
    read32 (mem (set_frame (of_nat f * FRAME_SIZE) t)) (kernel_directory t) = 1"
proof
  fix al :: "u32 \<Rightarrow> u8 \<Rightarrow> kernel \<Rightarrow> kerror + u32 \<times> kernel"
  have dvd: "(4 :: nat) dvd 0x200000" by simp
  from bitmap_overlaps_directory [of power_up "0x200000" al, OF _ _ _ _ dvd] obtain t D where
    t: "setup_directory al power_up = Inr t" "kernel_directory t = of_nat D" "8 * (D - 0x200000) < 65536"
      "read32 (mem t) (of_nat D) = 0"
      "read32 (mem (set_frame (of_nat (8 * (D - 0x200000)) * FRAME_SIZE) t)) (of_nat D) = 1"
    by (auto simp del: of_nat_mult)
  show "\<exists>t f. setup_directory al power_up = Inr t \<and> f < 65536 \<and> read32 (mem t) (kernel_directory t) = 0 \<and>
    read32 (mem (set_frame (of_nat f * FRAME_SIZE) t)) (kernel_directory t) = 1"
    by (rule exI [of _ t], rule exI [of _ "8 * (D - 0x200000)"]) (use t in \<open>simp del: of_nat_mult\<close>)
qed

end
