(* ===== verification/Heap_Limits.thy ===== *)
theory Heap_Limits
  imports Heap_Spec
begin

text \<open>
  Where the heap departs from its promise: release next to a hole that is not the last chunk,
  contraction, growth without a page table. And the allocation before the heap exists.
\<close>

section \<open>The index alone\<close>

lemma heap_remove_run:
  assumes "kheap s = Some h" "oa_room (index h)" "i < unat (oa_size (index h))"
  shows "\<exists>m. heap_remove (of_nat i) s =
      Inr (s\<lparr>mem := m, kheap := Some (h\<lparr>index := index h\<lparr>oa_size := oa_size (index h) - 1\<rparr>\<rparr>)\<rparr>) \<and>
    same_outside (slots_of (index h)) (mem s) m"
  using remove_entries [OF assms(2,3), of "mem s"] assms(1)
  by (auto simp: heap_remove_def the_heap_def)

lemma heap_insert_run:
  assumes "kheap s = Some h" "oa_room (index h)"
  shows "\<exists>m. heap_insert x s =
      Inr (s\<lparr>mem := m, kheap := Some (h\<lparr>index := index h\<lparr>oa_size := oa_size (index h) + 1\<rparr>\<rparr>)\<rparr>) \<and>
    same_outside (slots_of (index h)) (mem s) m"
  using insert_entries [OF assms(2), of x "mem s"] assms(1)
  by (auto simp: heap_insert_def the_heap_def)

section \<open>A hole on the right that is not the last chunk\<close>

lemma unify_right_hole:
  fixes h :: heap_t
  defines "b \<equiv> unat (start_address h)"
  assumes k: "kheap s = Some h" and at: "heap_at h (mem s) (pre @ (True, N) # (True, k) # post) hs"
    and x: "b + total pre + N \<in># hs"
  shows "\<exists>s' h'. unify_right (of_nat (b + total pre)) (of_nat (b + total pre + N) - 8) tf s =
      Inr (tf + of_nat k - 8, s') \<and> kheap s' = Some h' \<and>
    h' = h\<lparr>index := index h\<lparr>oa_size := oa_size (index h) - 1\<rparr>\<rparr> \<and> 0 < unat (oa_size (index h)) \<and>
    head_ok (mem s') (b + total pre) True (N + k) \<and>
    heap_frame (index_region h \<union> region (b + total pre) (b + total pre + 12)) s s'"
proof -
  let ?a = "b + total pre"
  let ?m1 = "set_head_bytes (of_nat ?a) (of_nat (N + k)) (mem s)"
  have Nk: "20 \<le> N" "20 \<le> k" and heads: "head_ok (mem s) ?a True N" "head_ok (mem s) (?a + N) True k"
    using at by (simp_all add: heap_at_def b_def)
  have fit: "?a + N + k < 2 ^ 32" and top: "unat (oa_array (index h)) + 4 * unat (oa_max_size (index h)) \<le> ?a"
    using at unat32_bound [of "end_address h"] by (simp_all add: heap_at_def b_def index_ok_def)
  have head1: "head_ok ?m1 ?a True (N + k)" and out1: "same_outside (region ?a (?a + 12)) (mem s) ?m1"
    using set_head_bytes_ok(1) [OF heads(1), of "N + k"] set_head_bytes_ok(2) [OF heads(1)] Nk fit
    by simp_all
  have "head_ok ?m1 (?a + N) True k"
    using heads(2) head_ok_cong [OF out1, of "?a + N" True k] Nk fit by auto
  then have bytes1: "head_bytes ?m1 (of_nat (?a + N)) = of_nat k" by (simp add: head_ok_def)
  have same: "entries (index h) ?m1 = entries (index h) (mem s)"
    by (rule entries_above [OF at out1]) (simp add: b_def)
  have "of_nat (?a + N) \<in> set (entries (index h) ?m1)"
    using at x unfolding same by (metis heap_at_def image_eqI set_image_mset set_mset_mset)
  from find_header_spec [OF heap_at_room(1) [OF at] this] obtain i where
    i: "i < unat (oa_size (index h))" "find_header (of_nat (?a + N)) h ?m1 = Inr (of_nat i)" by blast
  have i32: "(of_nat i :: u32) < oa_size (index h)"
    using i(1) unat32_bound [of "oa_size (index h)"] by (simp add: word_less_nat_alt)
  let ?h' = "h\<lparr>index := index h\<lparr>oa_size := oa_size (index h) - 1\<rparr>\<rparr>"
  obtain m2 where rem: "heap_remove (of_nat i) (s\<lparr>mem := ?m1\<rparr>) = Inr (s\<lparr>mem := m2, kheap := Some ?h'\<rparr>)"
      and out2: "same_outside (slots_of (index h)) ?m1 m2"
    using heap_remove_run [of "s\<lparr>mem := ?m1\<rparr>" h i] k heap_at_room(1) [OF at] i(1) by auto
  have idx: "same_outside (index_region h) ?m1 m2"
    by (rule same_outside_mono [OF out2 heap_at_room(2) [OF at]])
  have "head_ok m2 ?a True (N + k)"
    using head1 head_ok_cong [OF idx [unfolded index_region_def], of ?a True "N + k"] top fit Nk by auto
  moreover have "heap_frame (index_region h \<union> region ?a (?a + 12)) s (s\<lparr>mem := m2, kheap := Some ?h'\<rparr>)"
    by (intro heap_frameI same_outside_trans [OF same_outside_mono [OF out1] same_outside_mono [OF idx]]) auto
  moreover have head: "head_magic (mem s) (of_nat (?a + N)) = HEAP_MAGIC"
    "head_is_hole (mem s) (of_nat (?a + N)) = 1" "head_bytes (mem s) (of_nat (?a + N)) = of_nat k"
    "head_bytes (mem s) (of_nat ?a) = of_nat N"
    using heads by (simp_all add: head_ok_def)
  have sum: "of_nat N + of_nat k = (of_nat (N + k) :: u32)" by simp
  have foot: "of_nat (?a + N) - 8 + 8 = (of_nat (?a + N) :: u32)" by simp
  have "unify_right (of_nat ?a) (of_nat (?a + N) - 8) tf s =
      Inr (tf + of_nat k - 8, s\<lparr>mem := m2, kheap := Some ?h'\<rparr>)"
    unfolding unify_right_def Let_def foot head sum the_heap_def k option.case bindE_simps i(2) bytes1
    using rem i32 by simp
  ultimately show ?thesis using i(1) by (intro exI [of _ "s\<lparr>mem := m2, kheap := Some ?h'\<rparr>"] exI [of _ ?h']) simp
qed

text \<open>
  The block between a block (or the start of the heap) and a hole with more chunks behind:
  the merged hole has the right header, but the footer in its last bytes still points to the
  header of the swallowed hole.
\<close>

lemma free_stale_footer:
  fixes h :: heap_t
  defines "b \<equiv> unat (start_address h)"
  assumes k: "kheap s = Some h" and rep: "heap_rep h (mem s) (pre @ (False, n) # (True, k) # c # post)"
    and left: "\<not> left_hole pre"
  shows "\<exists>s'. free (of_nat (b + total pre + 12)) s = Inr s' \<and>
    head_ok (mem s') (b + total pre) True (n + k) \<and>
    foot_magic (mem s') (of_nat (b + total pre + (n + k)) - 8) = HEAP_MAGIC \<and>
    foot_header (mem s') (of_nat (b + total pre + (n + k)) - 8) = of_nat (b + total pre + n) \<and>
    head_ok (mem s') (b + total pre + n) True k"
proof -
  let ?a = "b + total pre" and ?cs = "pre @ (False, n) # (True, k) # c # post"
  let ?hs = "mset (holes b ?cs)" and ?foot = "of_nat (b + total pre + n) - 8 :: u32"
  have at: "heap_at h (mem s) ?cs ?hs" using rep by (simp add: heap_rep_def b_def)
  have head: "head_ok (mem s) ?a False n" "head_ok (mem s) (?a + n) True k"
    and foot: "foot_ok (mem s) ?a n" "foot_ok (mem s) (?a + n) k" and nk: "20 \<le> n" "20 \<le> k"
    using at by (simp_all add: heap_at_def b_def add.assoc)
  have fit: "?a + n + k < 2 ^ 32" "?a + n + k + snd c + total post = unat (end_address h)"
    using at unat32_bound [of "end_address h"] by (simp_all add: heap_at_def b_def)
  have top: "unat (oa_array (index h)) + 4 * unat (oa_max_size (index h)) \<le> ?a" "8 \<le> b"
    using at by (simp_all add: heap_at_def b_def index_ok_def)
  let ?m1 = "set_head_is_hole (of_nat ?a) 1 (mem s)"
  have head1: "head_ok ?m1 ?a True n" and out1: "same_outside (region ?a (?a + 12)) (mem s) ?m1"
    using set_head_is_hole_ok(1) [OF head(1)] set_head_is_hole_ok(2) [OF head(1)] nk fit by simp_all
  have foot1: "foot_ok ?m1 ?a n" using foot(1) foot_ok_cong [OF out1, of ?a n] nk fit by auto
  have out1': "same_outside (region ?a (?a + n)) (mem s) ?m1"
    by (rule same_outside_region_mono [OF out1]) (use nk in auto)
  have at1: "heap_at h ?m1 (pre @ (True, n) # (True, k) # c # post) ?hs"
    using heap_at_replace [where h = h and m = "mem s" and pre = pre and old = "[(False, n)]" and
        post = "(True, k) # c # post" and hs = ?hs and m' = ?m1 and new = "[(True, n)]"] at out1' head1 foot1 nk
    by (simp add: b_def)
  let ?s1 = "s\<lparr>mem := ?m1\<rparr>"
  have k1: "kheap ?s1 = Some h" and at1': "heap_at h (mem ?s1) (pre @ (True, n) # (True, k) # c # post) ?hs"
    using k at1 by simp_all
  have x: "?a + n \<in># ?hs" by (simp add: add.assoc)
  from unify_right_hole [OF k1 at1', folded b_def, OF x, of "of_nat ?a - 8"] obtain s2 h2 where
    r: "unify_right (of_nat ?a) ?foot (of_nat ?a - 8) ?s1 = Inr (of_nat ?a - 8 + of_nat k - 8, s2)"
      "kheap s2 = Some h2" "h2 = h\<lparr>index := index h\<lparr>oa_size := oa_size (index h) - 1\<rparr>\<rparr>"
      "0 < unat (oa_size (index h))" "head_ok (mem s2) ?a True (n + k)"
      "heap_frame (index_region h \<union> region ?a (?a + 12)) ?s1 s2" by blast
  have ne: "of_nat ?a - 8 + of_nat k - 8 + 8 \<noteq> end_address h2"
  proof
    assume "of_nat ?a - 8 + of_nat k - 8 + 8 = end_address h2"
    moreover have "end_address h2 = of_nat (?a + n + k + snd c + total post)" using fit(2) r(3) by simp
    ultimately have "(of_nat (n + snd c + total post + 8) :: u32) = of_nat 0" by (simp add: algebra_simps)
    moreover have "n + snd c + total post + 8 < 2 ^ 32" using fit(2) top(2) unat32_bound [of "end_address h"] by simp
    ultimately show False using of_nat_eq32 [of "n + snd c + total post + 8" 0] by simp
  qed
  have size2: "unat (oa_size (index h) - 1) + 1 = unat (oa_size (index h))"
    using r(4) by (subst unat_sub32) simp_all
  have room2: "oa_room (index h2)"
    using heap_at_room(1) [OF at] size2 r(3) by (simp add: oa_room_def)
  obtain m3 where ins: "heap_insert (of_nat ?a) s2 =
      Inr (s2\<lparr>mem := m3, kheap := Some (h2\<lparr>index := index h2\<lparr>oa_size := oa_size (index h2) + 1\<rparr>\<rparr>)\<rparr>)"
    and out3: "same_outside (slots_of (index h2)) (mem s2) m3"
    using heap_insert_run [OF r(2) room2, of "of_nat ?a"] by blast
  have "slots_of (index h2) \<subseteq> slots_of (index h)"
  proof -
    have "unat (oa_size (index h)) + 2 \<le> unat (oa_max_size (index h))"
      "oa_max_size (index h) < 2 ^ 30" using heap_at_room(3) [OF at] at by (simp_all add: heap_at_def index_ok_def)
    then have "unat (oa_size (index h)) + 2 \<le> 2 ^ 30" by (simp add: word_less_nat_alt)
    then have "4 * oa_size (index h) \<le> 4 * (oa_size (index h) + 1)"
      by (simp add: word_le_nat_alt unat_word_ariths)
    then show ?thesis using r(3) by (simp add: slots_of_def span_mono)
  qed
  then have idx3: "same_outside (index_region h) (mem s2) m3"
    using out3 heap_at_room(2) [OF at] by (blast intro: same_outside_mono)
  have o2: "same_outside (index_region h \<union> region ?a (?a + 12)) ?m1 (mem s2)"
    using r(6) by (simp add: heap_frame_def)
  have out: "same_outside (region (unat (oa_array (index h))) (?a + 12)) (mem s) m3"
  proof (intro same_outside_trans [OF same_outside_mono [OF out1] same_outside_trans [OF same_outside_mono [OF o2]
          same_outside_mono [OF idx3]]])
    show "region ?a (?a + 12) \<subseteq> region (unat (oa_array (index h))) (?a + 12)"
      "index_region h \<union> region ?a (?a + 12) \<subseteq> region (unat (oa_array (index h))) (?a + 12)"
      "index_region h \<subseteq> region (unat (oa_array (index h))) (?a + 12)"
      using top(1) by (auto simp: index_region_def region_def)
  qed
  have minus: "of_nat (?a + 12) - 12 = (of_nat ?a :: u32)" "of_nat ?a + of_nat n - 8 = ?foot" by simp_all
  have start: "of_nat (?a + 12) \<noteq> (0 :: u32)"
    using of_nat_eq32 [of "?a + 12" 0] nk fit by simp
  have ul: "unify_left (of_nat ?a) ?foot ?m1 = (of_nat ?a, True, ?m1)"
    using unify_left_none [OF at1 left] by (simp add: b_def)
  have "free (of_nat (?a + 12)) s = heap_insert (of_nat ?a) s2"
    unfolding free_def Let_def minus
    using start head(1) foot(1) ul r(1,2) ne
    by (simp add: head_ok_def foot_ok_def minus the_heap_def del: of_nat_add)
  moreover have "head_ok m3 ?a True (n + k)"
    using r(5) head_ok_cong [OF idx3 [unfolded index_region_def], of ?a True "n + k"] top fit nk by auto
  moreover have "foot_ok m3 (?a + n) k" "head_ok m3 (?a + n) True k"
    using foot(2) head(2) foot_ok_cong [OF out, of "?a + n" k] head_ok_cong [OF out, of "?a + n" True k] nk fit
    by auto
  ultimately show ?thesis using ins by (simp add: foot_ok_def add.assoc)
qed

section \<open>Contraction\<close>

lemma get_page_existing: "\<exists>p. get_page no_alloc a 0 dir s = Inr (p, s)"
  by (simp add: get_page_def Let_def)

lemma free_frame_kheap [simp]: "kheap (free_frame p s) = kheap s"
  by (simp add: free_frame_def clear_frame_def Let_def)

text \<open>
  The new size as the code computes it: the bit that is tested and kept is bit 12, instead of
  the bits from 12 on.
\<close>

definition contracted :: "u32 \<Rightarrow> u32" where
  "contracted n = (if n AND 0x1000 \<noteq> 0 then 0x70000 else max n 0x70000)"

lemma contract_rounding:
  "(let n = (if n AND 0x1000 \<noteq> 0 then (n AND 0x1000) + 0x1000 else n)
    in if n < HEAP_MIN_SIZE then HEAP_MIN_SIZE else n) = contracted n"
proof (cases "n AND 0x1000 = 0")
  case False
  have "unat (n AND 0x1000) \<le> 0x1000" using word_and_le1 [of n "0x1000"] by (simp add: word_le_nat_alt)
  then have "unat ((n AND 0x1000) + 0x1000) < 0x70000" by (subst unat_add32) auto
  then have "(n AND 0x1000) + 0x1000 < 0x70000" by (simp add: word_less_nat_alt)
  then show ?thesis using False by (simp add: contracted_def)
qed (auto simp: contracted_def max_def)

lemma contract_run:
  assumes k: "kheap s = Some h" and less: "n < end_address h - start_address h"
  shows "\<exists>s'. contract n s = Inr (contracted n, s') \<and>
    kheap s' = Some (h\<lparr>end_address := start_address h + contracted n\<rparr>)"
proof -
  let ?loop = "while_res (\<lambda>(it, s). contracted n < it)
         (\<lambda>(it, s). bindE (get_page no_alloc (start_address h + it) 0 (kernel_directory s) s)
            (\<lambda>(page, s1). Inr (it - 0x1000, free_frame page s1)))"
  have min: "0x70000 \<le> contracted n" by (simp add: contracted_def)
  let ?it = "end_address h - start_address h - 0x1000"
  have "\<exists>r. ?loop (?it, s) = Inr r \<and> kheap (snd r) = Some h \<and> \<not> (case r of (it, s) \<Rightarrow> contracted n < it)"
  proof (rule while_res_rule [where P = "\<lambda>r. kheap (snd r) = Some h" and f = "\<lambda>r. unat (fst r)"])
    fix r :: "u32 \<times> 'a mm_scheme"
    assume "kheap (snd r) = Some h" "case r of (it, s) \<Rightarrow> contracted n < it"
    moreover obtain it t where r: "r = (it, t)" by fastforce
    ultimately have it: "kheap t = Some h" "0x1000 \<le> it"
      using min by (auto simp: word_less_nat_alt word_le_nat_alt)
    obtain p where "get_page no_alloc (start_address h + it) 0 (kernel_directory t) t = Inr (p, t)"
      using get_page_existing by blast
    moreover have "unat (it - 0x1000) < unat it" using it(2) by (simp add: unat_sub word_le_nat_alt)
    ultimately show "\<exists>r'. (case r of (it, s) \<Rightarrow>
        bindE (get_page no_alloc (start_address h + it) 0 (kernel_directory s) s)
          (\<lambda>(page, s1). Inr (it - 0x1000, free_frame page s1))) = Inr r' \<and>
        kheap (snd r') = Some h \<and> unat (fst r') < unat (fst r)"
      using r it(1) by simp
  qed (use k in simp)
  then obtain it t where "?loop (?it, s) = Inr (it, t)" "kheap t = Some h" by auto
  then show ?thesis
    using k less unfolding contract_def Let_def
    by (simp add: the_heap_def contract_rounding [unfolded Let_def])
qed

section \<open>Growth without a page table\<close>

definition must_grow :: "heap_t \<Rightarrow> memory \<Rightarrow> u32 \<Rightarrow> u8 \<Rightarrow> bool" where
  "must_grow h m sz al \<longleftrightarrow>
     (let n = sz + header_size + footer_size; old = end_address h - start_address h;
          new = (if (old + n) AND 0xFFFFF000 \<noteq> 0 then ((old + n) AND 0xFFFFF000) + 0x1000 else old + n)
      in find_smallest_hole n al h m = Inr (-1) \<and> old < old + n \<and> old < new \<and>
         start_address h + new \<le> max_address h)"

lemma alloc_endless:
  assumes k: "kheap s = Some h"
    and missing: "read32 (mem s) (page_tables_virtual (kernel_directory s)
      (end_address h div 0x1000 div 1024)) = 0"
    and table: "must_grow h (mem s) 4096 1" and req: "must_grow h (mem s) sz al"
  shows "alloc d sz al s = Inl Diverges"
  using req
proof (induction d arbitrary: sz al)
  case (Suc d)
  let ?n = "sz + header_size + footer_size" and ?old = "end_address h - start_address h"
  let ?new = "if (?old + ?n) AND 0xFFFFF000 \<noteq> 0 then ((?old + ?n) AND 0xFFFFF000) + 0x1000 else ?old + ?n"
  have g: "find_smallest_hole ?n al h (mem s) = Inr (-1)" "?old < ?old + ?n" "?old < ?new"
    "start_address h + ?new \<le> max_address h"
    using Suc.prems unfolding must_grow_def Let_def by blast+
  have "alloc d 4096 1 s = Inl Diverges" by (rule Suc.IH [OF table])
  then have "kmalloc_ap (alloc d) 4096 s = Inl Diverges"
    using k by (simp add: kmalloc_ap_def kmalloc_int_def)
  then have page: "get_page (kmalloc_ap (alloc d) 4096) (start_address h + ?old) 1 (kernel_directory s) s = Inl Diverges"
    using missing by (simp add: get_page_def Let_def)
  have "expand (alloc d) (?old + ?n) s = Inl Diverges"
    unfolding expand_def Let_def the_heap_def k option.case bindE_simps
    by (subst while_res_fail [where e = Diverges]) (use g(2-4) page k in \<open>simp_all del: diff_add_eq\<close>)
  then have "alloc_grow (alloc d) ?n s = Inl Diverges"
    using k by (simp add: alloc_grow_def the_heap_def Let_def)
  then show ?case using g(1) k by (simp add: alloc_body_def the_heap_def Let_def)
qed simp

section \<open>Allocation before the heap exists\<close>

lemma kmalloc_early:
  fixes s :: "'a mm_scheme" and align :: u32
  assumes "kheap s = None"
  defines "p \<equiv> (if align = 1 \<and> placement_addr s AND 0xFFFFF000 \<noteq> 0
    then placement_addr s - placement_addr s mod 0x1000 + 0x1000 else placement_addr s)"
  shows "kmalloc_int al sz align phys s =
    Inr (p, if phys then p else 0, s\<lparr>placement_addr := p + sz\<rparr>)"
  using assms(1) by (simp add: kmalloc_int_def Let_def p_def page_floor)

section \<open>A page-aligned block\<close>

text \<open>
  \<^verbatim>\<open>write_block\<close> on any stretch of memory: what it writes, and the chunk that it makes.
\<close>

lemma write_block_raw:
  assumes k: "kheap s = Some h" and room: "oa_room (index h)" and n: "unat sz + 20 = n" "n + 20 \<le> k"
    and fit: "a + k < 2 ^ 32" "a + k \<le> unat (end_address h)"
    and below: "slots_of (index h) \<subseteq> region 0 lo" "lo \<le> a"
  shows "\<exists>m t h'. write_block (of_nat a) sz (of_nat k) s = Inr (of_nat (a + 12), t) \<and> kheap t = Some h' \<and> same_heap h h' \<and>
    head_ok (mem t) a False n \<and> same_outside (region a (a + k)) (mem s) m \<and> same_outside (region 0 lo) m (mem t)"
proof -
  have words: "sz + 12 + 8 = of_nat n" "of_nat a + 12 + sz = of_nat (a + n) - 8"
    "of_nat (a + n) - 8 + 8 = (of_nat (a + n) :: u32)"
    unfolding n(1) [symmetric] by (simp_all add: algebra_simps)
  let ?m1 = "write_header (of_nat a) 0 (of_nat n) (mem s)"
  let ?m2 = "write_footer (of_nat (a + n) - 8) (of_nat a) ?m1"
  let ?m3 = "write_header (of_nat (a + n)) 1 (of_nat (k - n)) ?m2"
  let ?m4 = "write_footer (of_nat (a + n + (k - n)) - 8) (of_nat (a + n)) ?m3"
  have less: "n < k" "20 \<le> k - n" using n by auto
  have blk: "tiles ?m2 a True [(False, n)]" "same_outside (region a (a + n)) (mem s) ?m2"
    using n fit by (intro block_tiles; simp)+
  have rest: "same_outside (region (a + n) (a + k)) ?m2 ?m4"
    using hole_tiles(2) [where n = "k - n" and a = "a + n" and m = ?m2] less fit by simp
  have head4: "head_ok ?m4 a False n"
    using blk(1) head_ok_cong [OF rest, of a False n] n fit by simp
  have out: "same_outside (region a (a + k)) (mem s) ?m4"
    using less by (intro same_outside_trans [OF same_outside_region_mono [OF blk(2)] same_outside_region_mono [OF rest]]) auto
  let ?h' = "h\<lparr>index := index h\<lparr>oa_size := oa_size (index h) + 1\<rparr>\<rparr>"
  obtain m5 where ins: "heap_insert (of_nat (a + n)) (s\<lparr>mem := ?m4\<rparr>) = Inr (s\<lparr>mem := m5, kheap := Some ?h'\<rparr>)"
      "same_outside (slots_of (index h)) ?m4 m5"
    using heap_insert_run [of "s\<lparr>mem := ?m4\<rparr>" h "of_nat (a + n)"] k room by auto
  have low5: "same_outside (region 0 lo) ?m4 m5" using ins(2) below(1) by (rule same_outside_mono)
  then have head5: "head_ok m5 a False n" using head_ok_cong [of 0 lo ?m4 m5 a False n] head4 fit n below(2) by simp
  have diff: "of_nat k - of_nat n = (of_nat (k - n) :: u32)" by (rule of_nat_diff32) (use less in simp)
  have pos: "0 < (of_nat (k - n) :: u32)"
    using of_nat_less32 [of 0 "k - n"] less fit by (simp del: of_nat_diff)
  have foot: "of_nat (a + n) + of_nat k - of_nat n - 8 = (of_nat (a + n + (k - n)) - 8 :: u32)"
    unfolding of_nat_add diff [symmetric] by simp
  have "unat (of_nat (a + n + (k - n)) - 8 :: u32) = a + k - 8"
    using unat_of_nat_minus [of 8 "a + n + (k - n)"] less fit by simp
  then have low: "(of_nat (a + n + (k - n)) - 8 :: u32) < end_address h"
    using fit less by (simp add: word_less_nat_alt)
  have "write_block (of_nat a) sz (of_nat k) s = Inr (of_nat (a + 12), s\<lparr>mem := m5, kheap := Some ?h'\<rparr>)"
    unfolding write_block_def Let_def words diff foot
    using pos low k ins(1)
    by (simp add: the_heap_def add.commute del: of_nat_diff of_nat_add) (simp add: add.commute)
  moreover have "same_heap h ?h'" by (auto simp: same_heap_def)
  ultimately show ?thesis using head5 low5 out
    by (intro exI [of _ ?m4] exI [of _ "s\<lparr>mem := m5, kheap := Some ?h'\<rparr>"] exI [of _ ?h']) simp
qed

text \<open>Page alignment of addresses.\<close>

lemma low_bits: "(x :: u32) AND 0xFFF = x mod 0x1000"
proof -
  have "(0xFFF :: u32) = mask 12" by (simp add: mask_eq_exp_minus_1)
  then show ?thesis using take_bit_eq_mod [of 12 x] by (simp add: take_bit_eq_mask)
qed

text \<open>The first aligned block of a heap that is one hole and starts at a page.\<close>

lemma aligned_fits:
  assumes b: "unat w mod 4096 = 0" "unat w \<noteq> 0" "unat w + k < 2 ^ 32"
    and bytes: "head_bytes m w = of_nat k" and fit: "unat sz + 4136 \<le> k"
  shows "hole_fits (sz + 20) 1 m w" "w AND 0xFFFFF000 \<noteq> 0" "w AND 0xFFF = 0"
proof -
  have nz: "w \<noteq> 0" using b(2) by auto
  have w0: "w mod 0x1000 = 0" using b(1) by (simp add: word_unat_eq_iff unat_mod)
  then show "w AND 0xFFFFF000 \<noteq> 0" "w AND 0xFFF = 0" using nz by (simp_all add: page_floor low_bits)
  have u: "unat (w + 12) = unat w + 12" using b(3) fit by (intro unat_add32 [THEN trans]) simp_all
  have "(unat w + 12) mod 4096 = 12" using b(1) mod_add_left_eq [of "unat w" 4096 12] by simp
  then have "(w + 12) mod 0x1000 = 12" using u by (simp add: word_unat_eq_iff unat_mod)
  then have "(w + 12) AND 0xFFFFF000 = w" by (simp add: page_floor)
  moreover have "sz + 20 \<le> of_nat k - 4084"
  proof -
    have "unat (of_nat k - 4084 :: u32) = k - 4084"
      using unat_of_nat_minus [of 4084 k] b(3) fit by simp
    moreover have "unat (sz + 20) = unat sz + 20" using b(3) fit by (intro unat_add32 [THEN trans]) simp_all
    ultimately show ?thesis using fit by (simp add: word_le_nat_alt)
  qed
  ultimately show "hole_fits (sz + 20) 1 m w" using nz \<open>(w + 12) mod 0x1000 = 12\<close> bytes by (simp add: hole_fits_def Let_def)
qed

lemma aligned_split:
  assumes b: "b mod 4096 = 0" "b + k < 2 ^ 32" "4136 \<le> k"
  shows "\<exists>m'. split_aligned (of_nat b) (of_nat k) m = (of_nat (b + 4084), of_nat (k - 4084), m') \<and>
    head_ok m' b True 4084 \<and> read32 m' (of_nat (b + 4076)) = of_nat b \<and> same_outside (region b (b + 4084)) m m'"
proof -
  let ?m1 = "write_header (of_nat b) 1 (of_nat 4084) m" and ?w = "of_nat b :: u32"
  let ?m2 = "write_footer (of_nat (b + 4072)) ?w ?m1"
  have w: "unat ?w = b" using b by (intro unat_of_nat32) simp
  then have mask: "?w AND 0xFFF = 0" using b(1) by (simp add: low_bits word_unat_eq_iff unat_mod)
  have f: "of_nat (b + 4072) = (of_nat (b + 4080) - 8 :: u32)" by simp
  have head1: "head_ok ?m1 b True 4084" "same_outside (region b (b + 12)) m ?m1"
    using write_header_ok(1) [of b True 4084 m] write_header_ok(2) [of b m 1 "of_nat 4084"] b by simp_all
  have out2: "same_outside (region (b + 4080 - 8) (b + 4080)) ?m1 ?m2"
    unfolding f using write_footer_ok(2) [of b 4080 ?m1 ?w] b by simp
  have head2: "head_ok ?m2 b True 4084"
    using head_ok_cong [OF out2, of b True 4084] head1(1) b by simp
  have "of_nat (b + 4072) + 4 = (of_nat (b + 4076) :: u32)" by simp
  then have "read32 ?m2 (of_nat (b + 4076)) = ?w" by (simp add: write_footer_def add.commute)
  moreover have "same_outside (region b (b + 4084)) m ?m2"
    by (rule same_outside_trans [OF same_outside_region_mono [OF head1(2)] same_outside_region_mono [OF out2]]) simp_all
  moreover have "of_nat k - (of_nat 4084 :: u32) = of_nat (k - 4084)" by (rule of_nat_diff32) (use b in simp)
  then have "split_aligned ?w (of_nat k) m = (of_nat (b + 4084), of_nat (k - 4084), ?m2)"
    using head2 mask by (simp add: split_aligned_def Let_def head_ok_def add.commute)
  ultimately show ?thesis using head2 by blast
qed

lemma aligned_alloc:
  fixes h :: heap_t
  defines "b \<equiv> unat (start_address h)"
  assumes k: "kheap s = Some h" and rep: "heap_rep h (mem s) [(True, k)]"
    and page: "b mod 4096 = 0" and fit: "unat sz + 4136 \<le> k"
  shows "\<exists>t h'. alloc (Suc d) sz 1 s = Inr (of_nat (b + 4096), t) \<and> kheap t = Some h' \<and> same_heap h h' \<and>
    head_ok (mem t) b True 4084 \<and> head_ok (mem t) (b + 4084) False (unat sz + 20) \<and>
    foot_magic (mem t) (of_nat (b + 4084) - 8) = of_nat b"
proof -
  let ?w = "start_address h"
  have w: "?w = of_nat b" by (simp add: b_def)
  have at: "heap_at h (mem s) [(True, k)] {#b#}" using rep by (simp add: heap_rep_def b_def)
  have len: "b + k = unat (end_address h)" "b + k < 2 ^ 32" and top: "8 \<le> b"
    "unat (oa_array (index h)) + 4 * unat (oa_max_size (index h)) \<le> b"
    using at unat32_bound [of "end_address h"] by (simp_all add: heap_at_def b_def index_ok_def)
  have room: "oa_room (index h)" and slots: "slots_of (index h) \<subseteq> region 0 b"
    using heap_at_room(1,2) [OF at] top(2) by (auto simp: index_region_def region_def)
  have head: "head_bytes (mem s) ?w = of_nat k" using at by (simp add: heap_at_def head_ok_def b_def)
  have es: "entries (index h) (mem s) = [?w]" "oa_size (index h) = 1"
  proof -
    have "mset (entries (index h) (mem s)) = {#?w#}" using at by (simp add: heap_at_def w)
    then show e: "entries (index h) (mem s) = [?w]" by (metis mset_single_iff_right)
    from arg_cong [OF e, of length] show "oa_size (index h) = 1" by (simp add: word_unat_eq_iff)
  qed
  note al = aligned_fits [of ?w k "mem s" sz, folded b_def, OF page _ len(2) head fit]
  have nz: "b \<noteq> 0" using top(1) by simp
  have find: "find_smallest_hole (sz + 20) 1 h (mem s) = Inr 0"
    using find_smallest_hole_spec [OF room, of "sz + 20" 1 "mem s"] al(1) [OF nz] es by auto
  have "unat (fit_size sz (of_nat k)) + 20 = unat sz + 20"
    using fit_size_block [of sz k] fit len(2) by (simp add: block_size_def)
  then have fs: "fit_size sz (of_nat k) = sz" by (simp add: word_unat_eq_iff)
  obtain m where m: "split_aligned ?w (of_nat k) (mem s) = (of_nat (b + 4084), of_nat (k - 4084), m)"
      "head_ok m b True 4084" "read32 m (of_nat (b + 4076)) = of_nat b"
    using aligned_split [OF page len(2), of "mem s"] fit unfolding w by auto
  let ?s = "s\<lparr>mem := m\<rparr>"
  have pre: "kheap ?s = Some h" "unat sz + 20 + 20 \<le> k - 4084" "b + 4084 + (k - 4084) < 2 ^ 32"
    "b + 4084 + (k - 4084) \<le> unat (end_address h)" "b \<le> b + 4084" using k fit len by simp_all
  have sums: "b + 4084 + (k - 4084) = b + k" "b + 4084 + 12 = b + 4096" using fit by simp_all
  from write_block_raw [OF pre(1) room refl pre(2-4) slots pre(5), unfolded sums] obtain m4 t h' where
    t: "write_block (of_nat (b + 4084)) sz (of_nat (k - 4084)) ?s = Inr (of_nat (b + 4096), t)"
      "kheap t = Some h'" "same_heap h h'" "head_ok (mem t) (b + 4084) False (unat sz + 20)"
      "same_outside (region (b + 4084) (b + k)) (mem ?s) m4" "same_outside (region 0 b) m4 (mem t)" by blast
  have t5: "same_outside (region (b + 4084) (b + k)) m m4" using t(5) by simp
  have lk: "lookup_ordered_array 0 (index h) (mem s) = ?w"
    using lookup_entries [of 0 "index h" "mem s"] es by simp
  have "alloc_carve sz 1 0 s = Inr (of_nat (b + 4096), t)"
    unfolding alloc_carve_def the_heap_def k option.case bindE_simps Let_def lk head fs
    using al(2) [OF nz] m(1) t(1) by simp
  then have "alloc (Suc d) sz 1 s = Inr (of_nat (b + 4096), t)"
    using find k by (simp add: alloc_body_def the_heap_def Let_def add.commute)
  moreover have "head_ok (mem t) b True 4084"
    using m(2) head_ok_cong [OF t5, of b True 4084] head_ok_cong [OF t(6), of b True 4084] len fit by simp
  moreover have "foot_magic (mem t) (of_nat (b + 4084) - 8) = of_nat b"
  proof -
    have u: "unat (of_nat (b + 4076) :: u32) = b + 4076" using len fit by (intro unat_of_nat32) simp
    have "read32 (mem t) (of_nat (b + 4076)) = read32 m4 (of_nat (b + 4076))"
      using u len fit by (intro same_outside_read32 [OF t(6)]) simp_all
    moreover have "read32 m4 (of_nat (b + 4076)) = read32 m (of_nat (b + 4076))"
      using u len fit by (intro same_outside_read32 [OF t5]) simp_all
    moreover have "of_nat (b + 4084) - 8 = (of_nat (b + 4076) :: u32)" by simp
    ultimately show ?thesis using m(3) by (simp add: foot_magic_def add.commute)
  qed
  ultimately show ?thesis using t(2-4) by blast
qed

text \<open>Without the footer of its first hole, memory stands for no list of chunks.\<close>

lemma no_chunks:
  assumes "kheap t = Some h" "head_ok (mem t) (unat (start_address h)) True n" "n < 2 ^ 32"
    and "foot_magic (mem t) (of_nat (unat (start_address h) + n) - 8) \<noteq> HEAP_MAGIC"
    and "unat (start_address h) + n < unat (end_address h)"
  shows "\<not> heap_state t cs"
proof
  assume "heap_state t cs"
  with assms(1) have rep: "heap_rep h (mem t) cs" by (simp add: heap_state_def)
  then obtain c cs' where cs: "cs = c # cs'" by (cases cs) (auto simp: heap_rep_def)
  with rep have c: "head_ok (mem t) (unat (start_address h)) (fst c) (snd c)"
    "foot_ok (mem t) (unat (start_address h)) (snd c) \<or> cs' = []"
    "unat (start_address h) + (snd c + total cs') = unat (end_address h)"
    by (auto simp: heap_rep_def heap_at_def)
  then have "(of_nat (snd c) :: u32) = of_nat n" using assms(2) by (simp add: head_ok_def)
  then have "snd c = n" using c(3) assms(3) unat32_bound [of "end_address h"] by (subst (asm) of_nat_eq32) simp_all
  with c assms(4,5) show False by (auto simp: foot_ok_def)
qed

end
