(* ===== verification/Heap_Props.thy ===== *)
theory Heap_Props
  imports Heap_Limits
begin

text \<open>
  What the heap of the kernel guarantees, as theorems about \<open>create_heap\<close>, \<open>alloc\<close>
  and \<open>kfree\<close>, and where the guarantees end. \<open>chunk_step\<close> is the abstract allocator, on
  lists of chunks; \<open>heap_step\<close> is a call of the kernel's allocator, or a step of other code,
  on the state of the machine. The first simulates the second, and the invariant of all
  reachable states follows from the abstract one.
\<close>

section \<open>The abstract allocator\<close>

inductive chunk_step :: "chunk list \<Rightarrow> chunk list \<Rightarrow> bool" where
  take_hole: "n + 20 \<le> k \<Longrightarrow>
    chunk_step (pre @ (True, k) # post) (pre @ carved (block_size n k) k @ post)"
| give_back: "post \<noteq> [] \<Longrightarrow> (fst (hd post) \<longrightarrow> tl post = []) \<Longrightarrow>
    chunk_step (pre @ (False, n) # post) (released pre n post)"

inductive_cases chunk_stepE: "chunk_step cs cs'"




text \<open>A state of the machine stands for at most one list of chunks.\<close>

lemma tiles_unique:
  "tiles m a r cs \<Longrightarrow> tiles m a r cs' \<Longrightarrow> total cs = total cs' \<Longrightarrow> total cs < 2 ^ 32 \<Longrightarrow> cs = cs'"
proof (induction cs arbitrary: a cs')
  case Nil
  then show ?case by (cases cs') auto
next
  case (Cons c cs)
  then obtain d ds where cs': "cs' = d # ds" by (cases cs') auto
  have "(of_nat (snd c) :: u32) = of_nat (snd d)" "fst c = fst d"
    using Cons.prems(1,2) cs' by (auto simp: head_ok_def split: if_splits)
  then have "c = d" using Cons.prems(3,4) cs' of_nat_eq32 [of "snd c" "snd d"] by (simp add: prod_eq_iff)
  with Cons cs' show ?case by auto
qed

lemma heap_state_unique: "heap_state s cs \<Longrightarrow> heap_state s cs' \<Longrightarrow> cs = cs'"
proof -
  assume "heap_state s cs" "heap_state s cs'"
  then obtain h where h: "heap_rep h (mem s) cs" "heap_rep h (mem s) cs'" by (auto simp: heap_state_def)
  then have "unat (start_address h) + total cs = unat (end_address h)"
    "unat (start_address h) + total cs' = unat (end_address h)"
    "tiles (mem s) (unat (start_address h)) False cs" "tiles (mem s) (unat (start_address h)) False cs'"
    by (simp_all add: heap_rep_def heap_at_def)
  with unat32_bound [of "end_address h"] show "cs = cs'" by (intro tiles_unique) auto
qed

section \<open>The calls of the kernel\<close>

definition fits :: "u32 \<Rightarrow> chunk list \<Rightarrow> bool" where
  "fits sz cs \<longleftrightarrow> (\<exists>k. (True, k) \<in> set cs \<and> unat sz + 20 \<le> k)"

text \<open>
  The pointer \<open>p\<close> is a block in use, it is not the last chunk, and if a hole follows, it is
  the last chunk.
\<close>

definition releasable :: "u32 \<Rightarrow> 'a mm_scheme \<Rightarrow> bool" where
  "releasable p s \<longleftrightarrow> (\<exists>pre n post. heap_state s (pre @ (False, n) # post) \<and>
     p = of_nat (heap_base s + total pre + 12) \<and> post \<noteq> [] \<and> (fst (hd post) \<longrightarrow> tl post = []))"

inductive heap_step :: "'a mm_scheme \<Rightarrow> 'a mm_scheme \<Rightarrow> bool" where
  call_alloc: "heap_state s cs \<Longrightarrow> fits sz cs \<Longrightarrow> alloc (Suc d) sz 0 s = Inr (p, s') \<Longrightarrow> heap_step s s'"
| call_free: "releasable p s \<Longrightarrow> kfree p s = Inr s' \<Longrightarrow> heap_step s s'"
| other_code: "heap_idle s s' \<Longrightarrow> heap_step s s'"

inductive_cases heap_stepE: "heap_step s s'"

lemma heap_step_simulation:
  assumes "heap_step s s'" and st: "heap_state s cs"
  shows "\<exists>cs'. heap_state s' cs' \<and> heap_base s' = heap_base s \<and> (cs' = cs \<or> chunk_step cs cs')"
  using assms(1)
proof (cases rule: heap_step.cases)
  case (call_alloc cs1 sz d p)
  then have "fits sz cs" using heap_state_unique [OF st] by simp
  then obtain k0 where "(True, k0) \<in> set cs" "unat sz + 20 \<le> k0" by (auto simp: fits_def)
  from heap.obtain_spec [OF st this, of d] obtain pre k post s1 where
    r: "cs = pre @ (True, k) # post" "unat sz + 20 \<le> k"
      "alloc (Suc d) sz 0 s = Inr (of_nat (heap_base s + total pre + 12), s1)"
      "heap_state s1 (pre @ carved (block_size (unat sz) k) k @ post)" "heap_base s1 = heap_base s" by blast
  with call_alloc(3) have "s' = s1" by simp
  with r take_hole [of "unat sz" k pre post] show ?thesis by blast
next
  case (call_free p)
  then obtain pre n post where r: "heap_state s (pre @ (False, n) # post)"
    "p = of_nat (heap_base s + total pre + 12)" "post \<noteq> []" "fst (hd post) \<longrightarrow> tl post = []"
    by (auto simp: releasable_def)
  have cs: "cs = pre @ (False, n) # post" by (rule heap_state_unique [OF st r(1)])
  from heap.release_spec [OF r(1,3,4)] obtain s1 where
    "kfree p s = Inr s1" "heap_state s1 (released pre n post)" "heap_base s1 = heap_base s"
    unfolding r(2) by blast
  with call_free give_back [OF r(3,4), of pre n] cs show ?thesis by auto
next
  case other_code
  from heap.idle_rep [OF this st] show ?thesis by blast
qed

lemma heap_run_simulation:
  assumes "heap_step\<^sup>*\<^sup>* s s'" and "heap_state s cs"
  shows "\<exists>cs'. heap_state s' cs' \<and> heap_base s' = heap_base s \<and> chunk_step\<^sup>*\<^sup>* cs cs'"
  using assms(1)
proof (induction rule: rtranclp_induct)
  case base
  with assms(2) show ?case by blast
next
  case (step t t')
  then obtain cs1 where 1: "heap_state t cs1" "heap_base t = heap_base s" "chunk_step\<^sup>*\<^sup>* cs cs1" by blast
  from heap_step_simulation [OF step.hyps(2) 1(1)] obtain cs2 where
    2: "heap_state t' cs2" "heap_base t' = heap_base t" "cs2 = cs1 \<or> chunk_step cs1 cs2" by blast
  from 2(3) 1(3) have "chunk_step\<^sup>*\<^sup>* cs cs2" by auto
  with 1 2 show ?case by auto
qed

section \<open>Properties\<close>

lemma user_region:
  "user_bytes a (pre @ carved (block_size n k) k @ post) \<supseteq> region (a + total pre + 12) (a + total pre + 12 + n)"
  if "n + 20 \<le> k"
  using block_size_bounds [OF that] by (auto simp: carved_def region_def)

lemma user_bytes_above: "heap_rep h m cs \<Longrightarrow> user_bytes (unat (start_address h)) cs \<inter> index_region h = {}"
  using user_bytes_within [of "unat (start_address h)" cs]
  by (auto simp: heap_rep_def heap_at_def index_ok_def index_region_def region_def)

text \<open>
  C18: A heap that has been initialised as \<^verbatim>\<open>init_paging\<close> does it (before there is a
  heap, page-aligned bounds, room for the index array of 0x20000 items) is a single hole that
  reaches from the first page boundary after the index array (0x81000 bytes above the start) up
  to the end. The calls of \<^verbatim>\<open>create_heap\<close> cannot fail. In the memory of the model they write exactly the
  index array and the header of the hole, not the gap between them; the structure \<^verbatim>\<open>heap_t\<close> itself is a record of the
  model with the fields that were passed, and its 32 bytes in the kernel's memory are only reserved, at the placement address.
\<close>

theorem create_heap_correct:
  assumes "kheap s = None" "start mod 0x1000 = 0" "end_addr mod 0x1000 = 0"
    and "unat start + 0x81014 \<le> unat end_addr" "unat end_addr \<le> unat start + 0x300000"
    and "read32 (mem s) (start + 0x80FF8) \<noteq> HEAP_MAGIC"
  shows "\<exists>h s'. create_heap al start end_addr mx super ro s = Inr (h, s') \<and>
    heap_state (s'\<lparr>kheap := Some h\<rparr>) [(True, unat end_addr - (unat start + 0x81000))] \<and>
    heap_base (s'\<lparr>kheap := Some h\<rparr>) = unat start + 0x81000 \<and> end_address h = end_addr \<and>
    max_address h = mx \<and> supervisor h = super \<and> readonly h = ro \<and>
    same_outside (region (unat start) (unat start + 0x80000) \<union> region (unat start + 0x81000) (unat start + 0x8100C))
      (mem s) (mem s') \<and>
    s' = s\<lparr>mem := mem s', placement_addr := placement_addr s + 32\<rparr>"
proof -
  have room: "unat start + 0x81000 + 20 \<le> unat end_addr"
    "unat end_addr - (unat start + 0x81000) + 40 \<le> 20 * 0x20000" using assms(4,5) by simp_all
  have "unat (start + 0x81000) = unat start + 0x81000"
    using assms(4) unat32_bound [of end_addr] by (subst unat_add32) auto
  with create_heap_rep [OF assms(1-3) room assms(6), of al mx super ro] show ?thesis
    by (fastforce simp: heap_state_def heap_base_def add.assoc)
qed

text \<open>The memory before the kernel's heap exists, all zero, and the heap it creates.\<close>

definition blank_mm :: mm where
  "blank_mm = \<lparr>mem = (\<lambda>a. 0), port_out = [], port_in = (\<lambda>n p. 0), port_reads = 0,
     interrupts_on = False, fb_col = 1, fb_row = 0, placement_addr = 0x200000, kheap = None,
     frame_allocations = 0, nframes = 0, kernel_directory = 0, current_directory = 0\<rparr>"

theorem create_heap_correct_witness:
  "\<exists>h s'. create_heap (alloc 0) KHEAP_START (KHEAP_START + KHEAP_INITIAL_SIZE) 0xCFFFF000 0 0 blank_mm =
      Inr (h, s') \<and> heap_state (s'\<lparr>kheap := Some h\<rparr>) [(True, 0x7F000)] \<and>
    heap_base (s'\<lparr>kheap := Some h\<rparr>) = 0xC0081000"
  using create_heap_correct [of blank_mm KHEAP_START "KHEAP_START + KHEAP_INITIAL_SIZE" "alloc 0" "0xCFFFF000" 0 0]
  by (auto simp: blank_mm_def read32_def)

text \<open>A state with the kernel's heap, as it is after \<open>init_paging\<close>, for the examples.\<close>

lemma fresh_heap:
  "\<exists>s :: mm. heap_state s [(True, 0x7F000)] \<and> heap_base s = 0xC0081000"
proof -
  obtain h m where "heap_rep h m [(True, 0x7F000)]" "start_address h = 0xC0081000"
    using create_heap_rep [of blank_mm KHEAP_START "KHEAP_START + KHEAP_INITIAL_SIZE" "alloc 0" "0xCFFFF000" 0 0]
    by (auto simp: blank_mm_def read32_def)
  then show ?thesis
    by (intro exI [of _ "blank_mm\<lparr>mem := m, kheap := Some h\<rparr>"]) (simp add: heap_state_def heap_base_def)
qed

text \<open>One allocation, and one release.\<close>

lemma alloc_run:
  assumes "heap_state s cs" "fits sz cs"
  shows "\<exists>pre k post p s'. alloc (Suc d) sz 0 s = Inr (of_nat p, s') \<and>
    cs = pre @ (True, k) # post \<and> p = heap_base s + total pre + 12 \<and> unat sz + 20 \<le> k \<and>
    heap_state s' (pre @ carved (block_size (unat sz) k) k @ post) \<and> heap_base s' = heap_base s \<and>
    region p (p + unat sz) \<subseteq> user_bytes (heap_base s) (pre @ carved (block_size (unat sz) k) k @ post) \<and>
    region p (p + unat sz) \<inter> user_bytes (heap_base s) cs = {} \<and>
    (\<forall>x \<in> user_bytes (heap_base s) cs. mem s' x = mem s x) \<and>
    (\<forall>h. kheap s = Some h \<longrightarrow> sorted (map (head_bytes (mem s)) (entries (index h) (mem s))) \<longrightarrow>
      (\<forall>k'. (True, k') \<in> set cs \<longrightarrow> unat sz + 20 \<le> k' \<longrightarrow> k \<le> k'))"
proof -
  obtain h where h: "kheap s = Some h" "heap_rep h (mem s) cs" using assms(1) by (auto simp: heap_state_def)
  have base: "heap_base s = unat (start_address h)" using h(1) by (simp add: heap_base_def)
  obtain k0 where "(True, k0) \<in> set cs" "unat sz + 20 \<le> k0" using assms(2) by (auto simp: fits_def)
  from alloc_rep [OF h this, of d] obtain pre k post s' h' where
    r: "cs = pre @ (True, k) # post" "unat sz + 20 \<le> k"
      "alloc (Suc d) sz 0 s = Inr (of_nat (heap_base s + total pre + 12), s')"
      "kheap s' = Some h'" "same_heap h h'"
      "heap_rep h' (mem s') (pre @ carved (block_size (unat sz) k) k @ post)"
      "heap_frame (index_region h \<union> region (heap_base s + total pre) (heap_base s + total pre + k)) s s'"
      "sorted (map (head_bytes (mem s)) (entries (index h) (mem s))) \<longrightarrow>
       (\<forall>k'. (True, k') \<in> set cs \<longrightarrow> unat sz + 20 \<le> k' \<longrightarrow> k \<le> k')"
    unfolding base by blast
  let ?p = "heap_base s + total pre + 12"
  have "heap_base s + total cs < 2 ^ 32"
    using h(2) unat32_bound [of "end_address h"] by (simp add: base heap_rep_def heap_at_def)
  then have apart: "user_bytes (heap_base s) cs \<inter> region (heap_base s + total pre) (heap_base s + total pre + k) = {}"
    using user_bytes_apart [of "heap_base s" pre "(True, k)" post] r(1) by simp
  have "mem s' x = mem s x" if "x \<in> user_bytes (heap_base s) cs" for x
    using that apart user_bytes_above [OF h(2)] r(7) unfolding base heap_frame_def same_outside_def by blast
  moreover have "region ?p (?p + unat sz) \<subseteq> region (heap_base s + total pre) (heap_base s + total pre + k)"
    using r(2) by (auto simp: region_def)
  with apart have "region ?p (?p + unat sz) \<inter> user_bytes (heap_base s) cs = {}" by blast
  moreover have "heap_base s' = heap_base s" using r(4) same_heapD(1) [OF r(5)] base by (simp add: heap_base_def)
  moreover have "heap_state s' (pre @ carved (block_size (unat sz) k) k @ post)"
    using r(4,6) by (auto simp: heap_state_def)
  ultimately show ?thesis
    using r(1-3,8) user_region [OF r(2), of "heap_base s" pre post] h(1)
    by (intro exI [of _ pre] exI [of _ k] exI [of _ post] exI [of _ ?p] exI [of _ s'] conjI) auto
qed

text \<open>
  C5: A request that need not be page-aligned (\<^verbatim>\<open>page_align\<close> = 0, as \<^verbatim>\<open>kmalloc\<close> and \<^verbatim>\<open>kmalloc_p\<close> make
  it; aligned requests are not covered, they break the heap): if some hole has room for it, header and footer included, \<^verbatim>\<open>alloc\<close>
  returns without growing the heap (so at any call depth), and the block it returns lies in
  such a hole: the block is a new user block, none of its bytes belonged to a user before, the
  bytes of every other user are unchanged, and the rest of the hole, if it can hold a header and
  a footer, is a hole again. If the index is sorted by size, the hole is the smallest possible.
\<close>

theorem alloc_correct:
  assumes "heap_state s cs" "fits sz cs"
  shows "\<exists>pre k post p s'. alloc (Suc d) sz 0 s = Inr (of_nat p, s') \<and>
    cs = pre @ (True, k) # post \<and> p = heap_base s + total pre + 12 \<and> unat sz + 20 \<le> k \<and>
    heap_state s' (pre @ carved (block_size (unat sz) k) k @ post) \<and> heap_base s' = heap_base s \<and>
    region p (p + unat sz) \<subseteq> user_bytes (heap_base s) (pre @ carved (block_size (unat sz) k) k @ post) \<and>
    region p (p + unat sz) \<inter> user_bytes (heap_base s) cs = {} \<and>
    (\<forall>x \<in> user_bytes (heap_base s) cs. mem s' x = mem s x) \<and>
    (\<forall>h. kheap s = Some h \<longrightarrow> sorted (map (head_bytes (mem s)) (entries (index h) (mem s))) \<longrightarrow>
      (\<forall>k'. (True, k') \<in> set cs \<longrightarrow> unat sz + 20 \<le> k' \<longrightarrow> k \<le> k'))"
  by (rule alloc_run [OF assms])

theorem alloc_correct_witness:
  "\<exists>(s :: mm) s'. alloc 1 32 0 s = Inr (0xC008100C, s') \<and>
    heap_state s' [(False, 52), (True, 0x7EFCC)]"
proof -
  obtain s :: mm where s: "heap_state s [(True, 0x7F000)]" "heap_base s = 0xC0081000"
    using fresh_heap by blast
  have "fits 32 [(True, 0x7F000)]" by (simp add: fits_def)
  from alloc_correct [OF s(1) this, of 0] obtain pre k post p s' where
    r: "alloc 1 32 0 s = Inr (of_nat p, s')" "[(True, 0x7F000)] = pre @ (True, k) # post"
      "p = heap_base s + total pre + 12" "heap_state s' (pre @ carved (block_size (unat (32 :: u32)) k) k @ post)"
    by auto
  from r(2) have "pre = []" "post = []" "k = 0x7F000" by (auto simp: Cons_eq_append_conv)
  with r s(2) show ?thesis
    by (intro exI [of _ s] exI [of _ s']) (simp add: carved_def block_size_def)
qed

lemma user_bytes_released:
  assumes "coalesce pre n = (pre', N)" "post \<noteq> []" "fst (hd post) \<longrightarrow> tl post = []"
  shows "user_bytes b (released pre n post) = user_bytes b pre \<union> user_bytes (b + total pre + n) post"
    and "user_bytes b pre \<union> user_bytes (b + total pre + n) post \<subseteq> - region (b + total pre') (b + total pre + n)"
proof -
  have pre': "user_bytes b pre' = user_bytes b pre \<and> total pre' + N = total pre + n \<and> total pre' \<le> total pre"
    using assms(1) by (rule_tac left_hole_cases [of pre n]) auto
  from assms show "user_bytes b (released pre n post) = user_bytes b pre \<union> user_bytes (b + total pre + n) post"
    by (cases rule: released_cases) (use pre' in \<open>auto simp: add.assoc\<close>)
  have "user_bytes b pre \<subseteq> region b (b + total pre')" "user_bytes (b + total pre + n) post \<subseteq>
      region (b + total pre + n) (b + total pre + n + total post)"
    using user_bytes_within [of b pre'] pre' user_bytes_within by auto
  then show "user_bytes b pre \<union> user_bytes (b + total pre + n) post \<subseteq> - region (b + total pre') (b + total pre + n)"
    by (auto simp: region_def)
qed

lemma free_run:
  assumes "heap_state s (pre @ (False, n) # post)" "post \<noteq> []" "fst (hd post) \<longrightarrow> tl post = []"
  shows "\<exists>s'. kfree (of_nat (heap_base s + total pre + 12)) s = Inr s' \<and>
    heap_state s' (released pre n post) \<and> heap_base s' = heap_base s \<and>
    user_bytes (heap_base s) (released pre n post) =
      user_bytes (heap_base s) pre \<union> user_bytes (heap_base s + total pre + n) post \<and>
    (\<forall>x \<in> user_bytes (heap_base s) (released pre n post). mem s' x = mem s x)"
proof -
  obtain h where h: "kheap s = Some h" "heap_rep h (mem s) (pre @ (False, n) # post)"
    using assms(1) by (auto simp: heap_state_def)
  have base: "heap_base s = unat (start_address h)" using h(1) by (simp add: heap_base_def)
  obtain pre' N where co: "coalesce pre n = (pre', N)" by fastforce
  from free_rep [OF h assms(2,3) co] obtain s' h' where
    r: "kfree (of_nat (heap_base s + total pre + 12)) s = Inr s'" "kheap s' = Some h'" "same_heap h h'"
      "heap_rep h' (mem s') (released pre n post)"
      "heap_frame (index_region h \<union> region (heap_base s + total pre') (heap_base s + total pre + n)) s s'"
    unfolding base kfree_def by blast
  note users = user_bytes_released [OF co assms(2,3), of "heap_base s"]
  have "index_region h' = index_region h" "start_address h' = start_address h"
    using same_heapD [OF r(3)] by blast+
  then have above: "user_bytes (heap_base s) (released pre n post) \<inter> index_region h = {}"
    using user_bytes_above [OF r(4)] base by simp
  have "mem s' x = mem s x" if x: "x \<in> user_bytes (heap_base s) (released pre n post)" for x
  proof -
    have "x \<notin> index_region h \<union> region (heap_base s + total pre') (heap_base s + total pre + n)"
      using above users(2) x unfolding users(1) by blast
    then show ?thesis using r(5) unfolding heap_frame_def same_outside_def by blast
  qed
  moreover have "heap_base s' = heap_base s" using r(2) same_heapD(1) [OF r(3)] base by (simp add: heap_base_def)
  ultimately show ?thesis using r(1,2,4) users(1)
    by (intro exI [of _ s']) (auto simp: heap_state_def)
qed

text \<open>
  C6: Releasing a block that is not the last chunk, and that is followed by a block or by
  the hole at the end of the heap, succeeds: the block becomes a hole, merged with a hole to its
  left and with the hole at the end, the heap stays well formed, only the bytes of the released
  block stop being user bytes, and the bytes of the other users do not change.
\<close>

theorem free_correct:
  assumes "heap_state s (pre @ (False, n) # post)" "post \<noteq> []" "fst (hd post) \<longrightarrow> tl post = []"
  shows "\<exists>s'. kfree (of_nat (heap_base s + total pre + 12)) s = Inr s' \<and>
    heap_state s' (released pre n post) \<and> heap_base s' = heap_base s \<and>
    user_bytes (heap_base s) (released pre n post) =
      user_bytes (heap_base s) pre \<union> user_bytes (heap_base s + total pre + n) post \<and>
    (\<forall>x \<in> user_bytes (heap_base s) (released pre n post). mem s' x = mem s x)"
  by (rule free_run [OF assms])

lemma one_block: "\<exists>s :: mm. heap_state s [(False, 52), (True, 0x7EFCC)] \<and> heap_base s = 0xC0081000"
proof -
  obtain s :: mm where s: "heap_state s [(True, 0x7F000)]" "heap_base s = 0xC0081000"
    using fresh_heap by blast
  from heap.obtain_last [of s "[]" "0x7F000" 32] s show ?thesis by fastforce
qed

theorem free_correct_witness:
  "\<exists>(s :: mm) s'. kfree 0xC008100C s = Inr s' \<and> heap_state s' [(True, 0x7F000)]"
proof -
  obtain s :: mm where s: "heap_state s ([] @ (False, 52) # [(True, 0x7EFCC)])" "heap_base s = 0xC0081000"
    using one_block by auto
  show ?thesis
    using free_correct [OF s(1)] s(2)
    by (rule_tac exI [of _ s]) (auto simp: released_def coalesce_def left_hole_def)
qed

text \<open>
  No two holes are neighbours. The heap starts like that, and every step of the abstract allocator keeps it.
\<close>

definition spaced :: "chunk list \<Rightarrow> bool" where
  "spaced cs \<longleftrightarrow> successively (\<lambda>c d. \<not> (fst c \<and> fst d)) cs"

lemma spaced_simps [simp]:
  "spaced []" "spaced (c # cs) \<longleftrightarrow> (cs = [] \<or> \<not> (fst c \<and> fst (hd cs))) \<and> spaced cs"
  by (auto simp: spaced_def successively_Cons)

lemma spaced_append: "spaced (xs @ ys) \<longleftrightarrow> spaced xs \<and> spaced ys \<and> (xs = [] \<or> ys = [] \<or> \<not> (fst (last xs) \<and> fst (hd ys)))"
  by (auto simp: spaced_def successively_append_iff)

lemma same_prefix:
  "xs @ c # ys = xs' @ c' # ys' \<Longrightarrow> total xs = total xs' \<Longrightarrow> \<forall>d \<in> set (xs @ c # ys). 0 < snd d \<Longrightarrow>
   xs = xs' \<and> c = c' \<and> ys = ys'"
proof (induction xs arbitrary: xs')
  case Nil
  then show ?case by (cases xs') auto
next
  case (Cons x xs)
  then show ?case by (cases xs') auto
qed

lemma take_and_give:
  assumes "spaced (pre @ (True, k) # post)" "n \<le> k"
    and "pre @ carved n k @ post = pre @ (False, m) # rest" "rest \<noteq> []" "fst (hd rest) \<longrightarrow> tl rest = []"
  shows "released pre m rest = pre @ (True, k) # post"
proof -
  have left: "\<not> left_hole pre"
    using assms(1) by (cases pre rule: rev_cases) (auto simp: left_hole_def spaced_append)
  show ?thesis
  proof (cases "n < k")
    case True
    with assms(3,5) have "m = n" "rest = [(True, k - n)]" "post = []" by (auto simp: carved_def)
    with left True show ?thesis by (simp add: released_def coalesce_def)
  next
    case False
    with assms(2,3) have "m = k" "rest = post" by (auto simp: carved_def)
    moreover have "\<not> fst (hd post)" if "post \<noteq> []" using assms(1) that by (auto simp: spaced_append neq_Nil_conv)
    ultimately show ?thesis
      using left assms(4) by (cases post) (auto simp: released_def coalesce_def split: list.splits bool.splits)
  qed
qed

lemma chunk_step_spaced: "chunk_step cs cs' \<Longrightarrow> spaced cs \<Longrightarrow> spaced cs'"
proof (erule chunk_stepE)
  fix n k pre post
  assume "cs' = pre @ carved (block_size n k) k @ post" "cs = pre @ (True, k) # post" "spaced cs"
  then show "spaced cs'"
    by (auto simp: carved_def spaced_append neq_Nil_conv)
next
  fix post pre n
  assume post: "post \<noteq> []" "fst (hd post) \<longrightarrow> tl post = []"
    and eq: "cs = pre @ (False, n) # post" "cs' = released pre n post" and sp: "spaced cs"
  obtain pre' N where co: "coalesce pre n = (pre', N)" by fastforce
  have pre': "spaced pre' \<and> (pre' = [] \<or> \<not> fst (last pre'))"
  proof (cases "left_hole pre")
    case True
    then obtain q k where "pre = q @ [(True, k)]" by (cases pre rule: rev_cases) (auto simp: left_hole_def)
    with co True sp eq(1) show ?thesis by (auto simp: coalesce_def spaced_append)
  next
    case False
    with co sp eq(1) show ?thesis by (auto simp: coalesce_def spaced_append left_hole_def)
  qed
  from co post show "spaced cs'"
    unfolding eq(2) by (cases rule: released_cases) (use pre' sp eq(1) in \<open>auto simp: spaced_append\<close>)
qed

lemma heap_state_fit: "heap_state s cs \<Longrightarrow> heap_base s + total cs < 2 ^ 32 \<and> (\<forall>c \<in> set cs. 20 \<le> snd c)"
  using tiles_sizes unat32_bound by (fastforce simp: heap_state_def heap_rep_def heap_at_def heap_base_def)

text \<open>
  C7: Allocation and release undo each other: if no two holes are neighbours, a block that was allocated (not page-aligned,
  from a hole with room for it) and that may be released is released without an error, and afterwards the heap
  consists of exactly the chunks that it had before the allocation; no byte of any user has changed in
  between.
\<close>

theorem alloc_free_roundtrip:
  assumes "heap_state s cs" "spaced cs" "fits sz cs" "alloc (Suc d) sz 0 s = Inr (p, t)" "releasable p t"
  shows "\<exists>u. kfree p t = Inr u \<and> heap_state u cs \<and> heap_base u = heap_base s \<and>
    (\<forall>x \<in> user_bytes (heap_base s) cs. mem u x = mem s x)"
proof -
  from alloc_run [OF assms(1,3), of d] assms(4) obtain pre k post where
    a: "p = of_nat (heap_base s + total pre + 12)" "cs = pre @ (True, k) # post" "unat sz + 20 \<le> k"
      "heap_state t (pre @ carved (block_size (unat sz) k) k @ post)" "heap_base t = heap_base s"
      "\<forall>x \<in> user_bytes (heap_base s) cs. mem t x = mem s x" by auto
  from assms(5) obtain pre' m rest where
    r: "heap_state t (pre' @ (False, m) # rest)" "p = of_nat (heap_base t + total pre' + 12)" "rest \<noteq> []"
      "fst (hd rest) \<longrightarrow> tl rest = []" by (auto simp: releasable_def)
  let ?n = "block_size (unat sz) k"
  have n: "?n \<le> k" using block_size_bounds [OF a(3)] by blast
  note same = heap_state_unique [OF a(4) r(1)]
  note bound = heap_state_fit [OF r(1)] heap_state_fit [OF a(4)]
  have "total (carved ?n k) = k" by (rule total_carved [OF n])
  then have "heap_base s + total pre + 12 < 2 ^ 32" "heap_base s + total pre' + 12 < 2 ^ 32"
    using bound a(3,5) by auto
  moreover have "(of_nat (heap_base s + total pre + 12) :: u32) = of_nat (heap_base s + total pre' + 12)"
    using a(1,5) r(2) by (simp only:)
  ultimately have "heap_base s + total pre + 12 = heap_base s + total pre' + 12" by (subst (asm) of_nat_eq32)
  then have tot: "total pre = total pre'" by simp
  obtain c cs' where c: "carved ?n k @ post = c # cs'" by (auto simp: carved_def)
  have "pre = pre'"
    using same_prefix [of pre c cs' pre' "(False, m)" rest] same tot bound(2) unfolding c by fastforce
  with same a(2) assms(2) n r(3,4) have again: "released pre m rest = cs" "pre' = pre" 
    using take_and_give [of pre k post ?n m rest] by simp_all
  from free_run [OF r(1,3,4)] obtain u where
    "kfree p t = Inr u" "heap_state u cs" "heap_base u = heap_base s" "\<forall>x \<in> user_bytes (heap_base s) cs. mem u x = mem t x"
    using a(5) again r(2) by auto
  with a(6) show ?thesis by auto
qed

theorem alloc_free_roundtrip_witness:
  "\<exists>(s :: mm) t u. alloc 1 32 0 s = Inr (0xC008100C, t) \<and> kfree 0xC008100C t = Inr u \<and> heap_state s [(True, 0x7F000)] \<and>
    heap_state t [(False, 52), (True, 0x7EFCC)] \<and> heap_state u [(True, 0x7F000)]"
proof -
  obtain s :: mm where s: "heap_state s [(True, 0x7F000)]" "heap_base s = 0xC0081000"
    using fresh_heap by blast
  from heap.obtain_last [of s "[]" "0x7F000" 32 0] s obtain t where
    t: "alloc (Suc 0) 32 0 s = Inr (0xC008100C, t)" "heap_state t ([] @ (False, 52) # [(True, 0x7EFCC)])"
      "heap_base t = heap_base s" by auto
  have "releasable 0xC008100C t" unfolding releasable_def
    using t(2,3) s(2) by (intro exI [of _ "[]"] exI [of _ 52] exI [of _ "[(True, 0x7EFCC)]"]) simp
  from alloc_free_roundtrip [OF s(1) _ _ t(1) this] obtain u where
    "kfree 0xC008100C t = Inr u" "heap_state u [(True, 0x7F000)]" by (auto simp: fits_def)
  with s(1) t show ?thesis by (intro exI [of _ s] exI [of _ t] exI [of _ u]) (simp del: alloc.simps)
qed

text \<open>
  The kernel's allocator refines the abstract one: whatever sequence of fitting
  allocations, legal releases and steps of other code the kernel performs, the heap in memory is
  at every moment the list of chunks that the abstract allocator computes.
\<close>

theorem heap_refines:
  assumes "heap_step\<^sup>*\<^sup>* s s'" "heap_state s cs"
  shows "\<exists>cs'. chunk_step\<^sup>*\<^sup>* cs cs' \<and> heap_state s' cs'"
  using heap_run_simulation [OF assms] by blast

theorem heap_refines_witness:
  "\<exists>(s :: mm) s' cs'. heap_step s s' \<and> chunk_step\<^sup>*\<^sup>* [(True, 0x7F000)] cs' \<and> heap_state s' cs'"
proof -
  obtain s :: mm where s: "heap_state s [(True, 0x7F000)]" using fresh_heap by blast
  have "(True, 0x7F000) \<in> set [(True, 0x7F000)]" "unat (32 :: u32) + 20 \<le> 0x7F000" by simp_all
  from heap.obtain_spec [OF s this, of 0] obtain p s' where "alloc 1 32 0 s = Inr (p, s')" by auto
  then have step: "heap_step s s'"
    using call_alloc [OF s, of 32 0] by (simp add: fits_def)
  then have "heap_step\<^sup>*\<^sup>* s s'" by blast
  from heap_refines [OF this s] step show ?thesis by blast
qed



section \<open>Limits\<close>

text \<open>
  C33: Growth does not return when it needs a new page table: if no hole fits the request and
  none fits an aligned page table, the heap may still grow, and the page table for its end
  is missing, then \<^verbatim>\<open>alloc\<close>, \<^verbatim>\<open>expand\<close>, \<^verbatim>\<open>get_page\<close> and \<^verbatim>\<open>kmalloc_ap\<close> call
  each other without end, at every call depth.
\<close>

theorem alloc_never_returns:
  assumes "kheap s = Some h"
    and "read32 (mem s) (page_tables_virtual (kernel_directory s)
      (end_address h div 0x1000 div 1024)) = 0"
    and "must_grow h (mem s) 4096 1" "must_grow h (mem s) sz al"
  shows "\<forall>d. alloc d sz al s = Inl Diverges"
  using alloc_endless [OF assms] by blast

definition full_heap :: heap_t where
  "full_heap = \<lparr>index = \<lparr>oa_array = KHEAP_START, oa_size = 0, oa_max_size = HEAP_INDEX_SIZE,
     oa_less_than = header_t_less_than\<rparr>, start_address = 0xC0081000, end_address = 0xC0400000,
     max_address = 0xCFFFF000, supervisor = 0, readonly = 0\<rparr>"

theorem alloc_never_returns_witness:
  "\<forall>d. alloc d 100 0 (blank_mm\<lparr>kheap := Some full_heap\<rparr>) = Inl Diverges"
proof (rule alloc_never_returns)
  have none: "find_smallest_hole n al full_heap m = Inr (-1)" for n al m
    by (simp add: find_smallest_hole_def full_heap_def)
  show "must_grow full_heap (mem (blank_mm\<lparr>kheap := Some full_heap\<rparr>)) 4096 1"
    "must_grow full_heap (mem (blank_mm\<lparr>kheap := Some full_heap\<rparr>)) 100 0"
    by (simp_all add: must_grow_def none) (simp_all add: full_heap_def)
qed (simp_all add: blank_mm_def read32_def)





text \<open>
  C32: A page-aligned allocation breaks the heap. From a heap that is a single hole and starts at a page (as
  \<^verbatim>\<open>create_heap\<close> leaves it) \<^verbatim>\<open>alloc\<close> returns the next page boundary, and the space in front of
  the block becomes a hole of 4084 bytes; but its footer is written four bytes too low, so that the word where its magic number should be holds
  the address of its header. Releasing the block will not unify it with that hole, and no list of chunks
  describes the heap any more.
\<close>

theorem aligned_alloc_breaks_heap:
  assumes "heap_state s [(True, k)]" "heap_base s mod 4096 = 0" "unat sz + 4136 \<le> k"
  shows "\<exists>t. alloc (Suc d) sz 1 s = Inr (of_nat (heap_base s + 4096), t) \<and> heap_base t = heap_base s \<and>
    head_ok (mem t) (heap_base s) True 4084 \<and> head_ok (mem t) (heap_base s + 4084) False (unat sz + 20) \<and>
    foot_magic (mem t) (of_nat (heap_base s + 4084) - 8) = of_nat (heap_base s) \<and>
    (\<forall>foot. unify_left (of_nat (heap_base s + 4084)) foot (mem t) = (of_nat (heap_base s + 4084), True, mem t)) \<and>
    (\<forall>cs. \<not> heap_state t cs)"
proof -
  obtain h where h: "kheap s = Some h" "heap_rep h (mem s) [(True, k)]" using assms(1) by (auto simp: heap_state_def)
  have base: "heap_base s = unat (start_address h)" using h(1) by (simp add: heap_base_def)
  from aligned_alloc [OF h assms(2) [unfolded base] assms(3), of d, folded base] obtain t h' where
    t: "alloc (Suc d) sz 1 s = Inr (of_nat (heap_base s + 4096), t)" "kheap t = Some h'" "same_heap h h'"
      "head_ok (mem t) (heap_base s) True 4084" "head_ok (mem t) (heap_base s + 4084) False (unat sz + 20)"
      "foot_magic (mem t) (of_nat (heap_base s + 4084) - 8) = of_nat (heap_base s)" by blast
  note same = same_heapD [OF t(3)]
  have "heap_base s + k = unat (end_address h)" using h(2) base by (simp add: heap_rep_def heap_at_def)
  moreover have magic: "(of_nat (heap_base s) :: u32) \<noteq> HEAP_MAGIC" using assms(2) unfolding base by (auto simp: unat_mod)
  ultimately have "\<not> heap_state t cs" for cs
    using no_chunks [OF t(2), of 4084 cs] t(4,6) same assms(3) base by simp
  moreover have "unify_left (of_nat (heap_base s + 4084)) foot (mem t) = (of_nat (heap_base s + 4084), True, mem t)" for foot
    using t(6) magic by (simp add: unify_left_def Let_def)
  moreover have "heap_base t = heap_base s" using t(2) same base by (simp add: heap_base_def)
  ultimately show ?thesis using t(1,4-6) by blast
qed

theorem aligned_alloc_breaks_heap_witness:
  "\<exists>(s :: mm) t. heap_state s [(True, 0x7F000)] \<and> alloc 1 0x1000 1 s = Inr (0xC0082000, t) \<and>
    foot_magic (mem t) 0xC0081FEC = 0xC0081000 \<and> (\<forall>cs. \<not> heap_state t cs)"
proof -
  obtain s :: mm where s: "heap_state s [(True, 0x7F000)]" "heap_base s = 0xC0081000"
    using fresh_heap by blast
  from aligned_alloc_breaks_heap [OF s(1), of "0x1000" 0] s obtain t where
    "alloc (Suc 0) 0x1000 1 s = Inr (of_nat (heap_base s + 4096), t)" "\<forall>cs. \<not> heap_state t cs"
    "foot_magic (mem t) (of_nat (heap_base s + 4084) - 8) = of_nat (heap_base s)" by auto
  with s show ?thesis by (intro exI [of _ s] exI [of _ t]) (simp del: alloc.simps)
qed

text \<open>
  Contraction rounds wrongly: \<^verbatim>\<open>contract\<close> masks the new size with \<open>0x1000\<close>
  instead of \<open>0xFFFFF000\<close>. The loop ends and the heap gets a size between the minimum
  0x70000 and the size requested, or, if bit 12 of the requested size is set, exactly the minimum:
  so the space from \<open>start_address + 0x70000\<close> on is given up even if it is in use.
\<close>

theorem contract_cuts_off:
  assumes "kheap s = Some h" "n < end_address h - start_address h"
  shows "\<exists>s'. contract n s = Inr (if n AND 0x1000 \<noteq> 0 then 0x70000 else max n 0x70000, s') \<and>
    kheap s' = Some (h\<lparr>end_address := start_address h + (if n AND 0x1000 \<noteq> 0 then 0x70000 else max n 0x70000)\<rparr>)"
  using contract_run [OF assms] by (simp only: contracted_def)

theorem contract_cuts_off_witness:
  "\<exists>s' :: mm. contract 0x201000 (blank_mm\<lparr>kheap := Some full_heap\<rparr>) = Inr (0x70000, s') \<and>
    kheap s' = Some (full_heap\<lparr>end_address := 0xC00F1000\<rparr>)"
proof -
  have "(0x201000 :: u32) < end_address full_heap - start_address full_heap"
    "(0x201000 AND 0x1000 :: u32) \<noteq> 0" "start_address full_heap + 0x70000 = 0xC00F1000"
    by (simp_all add: full_heap_def)
  with contract_cuts_off [of "blank_mm\<lparr>kheap := Some full_heap\<rparr>" full_heap "0x201000"] show ?thesis by simp
qed

text \<open>
  Before the heap exists, allocation is a bump allocator: the block starts at or above the
  placement address, page-aligned if that was asked for, the next block starts behind it, the
  physical address is the address itself, and memory is not touched.
\<close>

theorem kmalloc_bumps:
  fixes align :: u32
  assumes "kheap s = None" "unat (placement_addr s) + 0x1000 + unat sz < 2 ^ 32"
    and "0x1000 \<le> placement_addr s"
  shows "\<exists>p s'. kmalloc_int al sz align phys s = Inr (p, if phys then p else 0, s') \<and>
    unat (placement_addr s) \<le> unat p \<and> unat p \<le> unat (placement_addr s) + 0x1000 \<and>
    (align = 1 \<longrightarrow> p mod 0x1000 = 0 \<and> placement_addr s < p) \<and> (align \<noteq> 1 \<longrightarrow> p = placement_addr s) \<and>
    unat (placement_addr s') = unat p + unat sz \<and> mem s' = mem s"
proof -
  let ?a = "placement_addr s" and ?p = "if align = 1 \<and> placement_addr s AND 0xFFFFF000 \<noteq> 0
    then placement_addr s - placement_addr s mod 0x1000 + 0x1000 else placement_addr s"
  have mod: "unat (?a mod 0x1000) = unat ?a mod 0x1000" by (simp add: unat_mod)
  have less: "unat ?a mod 0x1000 < 0x1000" by simp
  have floor: "unat (?a - ?a mod 0x1000) = unat ?a - unat ?a mod 0x1000"
    using mod by (subst unat_sub32) simp_all
  then have up: "unat (?a - ?a mod 0x1000 + 0x1000) = unat ?a - unat ?a mod 0x1000 + 0x1000"
    using assms(2) by (subst unat_add32) simp_all
  have "0x1000 \<le> unat ?a" using assms(3) by (simp add: word_le_nat_alt)
  with floor less have "?a AND 0xFFFFF000 \<noteq> 0" unfolding page_floor by (metis diff_is_0_eq not_le unat_0 order_less_le_trans)
  then have p: "?p = (if align = 1 then ?a - ?a mod 0x1000 + 0x1000 else ?a)" by simp
  have "(?a - ?a mod 0x1000 + 0x1000) mod 0x1000 = 0"
    unfolding word_unat_eq_iff unat_mod up by (simp add: minus_mod_eq_mult_div)
  with up less have facts: "unat ?a \<le> unat ?p" "unat ?p \<le> unat ?a + 0x1000" "align = 1 \<longrightarrow> ?p mod 0x1000 = 0 \<and> ?a < ?p"
    "align \<noteq> 1 \<longrightarrow> ?p = ?a"
    unfolding p word_less_nat_alt by auto
  then have "unat (?p + sz) = unat ?p + unat sz" using assms(2) by (intro unat_add32) linarith
  with facts show ?thesis
    unfolding kmalloc_early [OF assms(1)] by (intro exI [of _ ?p] exI [of _ "s\<lparr>placement_addr := ?p + sz\<rparr>"]) auto
qed

theorem kmalloc_bumps_witness:
  "\<exists>p s'. kmalloc_int (alloc 0) 0x2000 1 True blank_mm = Inr (p, p, s') \<and> p mod 0x1000 = 0 \<and> 0x200000 < p"
  using kmalloc_bumps [of blank_mm "0x2000" "alloc 0" 1 True]
  by (simp add: blank_mm_def del: alloc.simps) (elim exE conjE, intro exI conjI, assumption, simp_all)

end
