(* ===== verification/Heap_Growth.thy ===== *)
theory Heap_Growth
  imports Paging_Init Heap_Props
begin

text \<open>
  The heap that grows: what \<^verbatim>\<open>alloc\<close> does first when no hole is large enough, with the page table
  of the heap and free frames at hand. The search for the topmost hole, the new pages (\<^verbatim>\<open>expand\<close>) and
  the new chunks. \<open>growing\<close> and \<open>growable\<close> say what room there is.
\<close>

section \<open>The topmost hole\<close>

lemma topmost_hole_spec:
  assumes room: "oa_room (index h)" and pos: "\<forall>e \<in> set (entries (index h) m). 0 < e"
  shows "entries (index h) m = [] \<and> topmost_hole h m = Inr (-1) \<or>
    (\<exists>i < unat (oa_size (index h)). topmost_hole h m = Inr (of_nat i) \<and> (of_nat i :: u32) \<noteq> -1 \<and>
      (\<forall>e \<in> set (entries (index h) m). e \<le> entries (index h) m ! i))"
proof -
  let ?n = "oa_size (index h)" and ?es = "entries (index h) m"
  have small: "unat ?n < 2 ^ 30" using room by (simp add: oa_room_def)
  have look: "lookup_ordered_array it (index h) m = ?es ! unat it" if "it < ?n" for it
    using lookup_entries [OF that] .
  define P where "P = (\<lambda>(it :: u32, idx :: u32, value :: u32). it \<le> ?n \<and> (\<forall>j < unat it. ?es ! j \<le> value) \<and>
    (it = 0 \<and> idx = -1 \<and> value = 0 \<or> (\<exists>i < unat it. idx = of_nat i \<and> value = ?es ! i)))"
  let ?b = "\<lambda>(it, idx, value). let tmp = lookup_ordered_array it (index h) m
           in (Inr (if tmp > value then (it + 1, it, tmp) else (it + 1, idx, value)) :: kerror + u32 \<times> u32 \<times> u32)"
  have "\<exists>r. while_res (\<lambda>(it, idx, value). it < ?n) ?b (0, -1, 0) = Inr r \<and> P r \<and> \<not> (case r of (it, idx, value) \<Rightarrow> it < ?n)"
  proof (rule while_res_rule [where f = "\<lambda>(it, _). unat ?n - unat it"])
    show "P (0, -1, 0)" by (simp add: P_def)
    fix r assume "P r" "case r of (it, idx, value) \<Rightarrow> it < ?n"
    moreover obtain it idx v where r: "r = (it, idx, v)" by (cases r)
    ultimately have inv: "\<forall>j < unat it. ?es ! j \<le> v" "it < ?n"
      "it = 0 \<and> idx = -1 \<and> v = 0 \<or> (\<exists>i < unat it. idx = of_nat i \<and> v = ?es ! i)" by (simp_all add: P_def)
    let ?e = "?es ! unat it"
    have it: "unat it < unat ?n" using inv(2) by (simp add: word_less_nat_alt)
    have Suc: "unat (it + 1) = Suc (unat it)" by (rule unat_less_Suc [OF inv(2)])
    then have le: "it + 1 \<le> ?n" using it by (simp add: word_le_nat_alt)
    have e: "0 < ?e" using pos it by (simp add: nth_mem)
    have "P (if ?e > v then (it + 1, it, ?e) else (it + 1, idx, v))"
    proof (cases "?e > v")
      case True
      then have "\<forall>j < Suc (unat it). ?es ! j \<le> ?e" using inv(1) by (auto simp: less_Suc_eq)
      then show ?thesis using True le by (auto simp: P_def Suc intro!: exI [of _ "unat it"])
    next
      case False
      with e have "v \<noteq> 0" by auto
      then obtain i where "i < unat it" "idx = of_nat i" "v = ?es ! i" using inv(3) by auto
      moreover have "\<forall>j < Suc (unat it). ?es ! j \<le> v" using inv(1) False by (auto simp: less_Suc_eq)
      ultimately show ?thesis using False le by (auto simp: P_def Suc intro!: exI [of _ i])
    qed
    moreover have "unat ?n - unat (it + 1) < unat ?n - unat it" using it Suc by simp
    ultimately show "\<exists>r'. ?b r = Inr r' \<and> P r' \<and>
        (case r' of (it, _) \<Rightarrow> unat ?n - unat it) < (case r of (it, _) \<Rightarrow> unat ?n - unat it)"
      unfolding r by (auto simp: look [OF inv(2)] Let_def split: if_splits)
  qed
  then obtain it idx v where run: "while_res (\<lambda>(it, idx, value). it < ?n) ?b (0, -1, 0) = Inr (it, idx, v)"
    "P (it, idx, v)" "\<not> it < ?n" by auto
  then have top: "topmost_hole h m = Inr idx" by (simp add: topmost_hole_def)
  from run(2,3) have it: "it = ?n" by (simp add: P_def)
  show ?thesis
  proof (cases "?n = 0")
    case True
    then have "?es = []" by (simp flip: length_0_conv)
    moreover from run(2) have "idx = -1" using it True by (auto simp: P_def)
    ultimately show ?thesis using top by simp
  next
    case False
    with run(2) it obtain i where i: "i < unat ?n" "idx = of_nat i" "v = ?es ! i" by (auto simp: P_def)
    have "(of_nat i :: u32) \<noteq> -1"
    proof
      assume "(of_nat i :: u32) = - 1"
      moreover have "unat (of_nat i :: u32) = i" using i(1) small by (intro unat_of_nat32) simp
      ultimately have "i = 2 ^ 32 - 1" using unat_minus32 [of 1] by simp
      with i(1) small show False by simp
    qed
    moreover have "\<forall>e \<in> set ?es. e \<le> ?es ! i"
      using run(2) it i by (auto simp: P_def in_set_conv_nth)
    ultimately show ?thesis using i top by blast
  qed
qed

section \<open>New pages\<close>

lemma page_floor_nat: "p < 2 ^ 32 \<Longrightarrow> (of_nat p :: u32) AND 0xFFFFF000 = of_nat (p div 4096 * 4096)"
proof -
  assume "p < 2 ^ 32"
  then have "(of_nat p :: u32) mod 0x1000 = of_nat (p mod 4096)" using div_mod_step(1) [of p "0x1000"] by simp
  moreover have "p - p mod 4096 = p div 4096 * 4096" by (simp add: minus_mod_eq_div_mult)
  ultimately show ?thesis
    by (simp only: page_floor of_nat_diff32 [symmetric] mod_less_eq_dividend flip: \<open>p - p mod 4096 = p div 4096 * 4096\<close>)
qed

text \<open>The new size of a heap of \<open>L\<close> bytes (whole pages) that grows by \<open>r\<close> bytes.\<close>

lemma rounded_size:
  fixes L r :: nat
  defines "n \<equiv> r div 4096 + 1"
  assumes "L mod 4096 = 0" "0 < L" "L + 4096 * n < 2 ^ 32"
  shows "(if (of_nat (L + r) :: u32) AND 0xFFFFF000 \<noteq> 0 then ((of_nat (L + r) :: u32) AND 0xFFFFF000) + 0x1000 else of_nat (L + r)) =
    of_nat (L + 4096 * n)"
proof -
  have r: "r < 4096 * n" "4096 * (r div 4096) \<le> r" by (simp_all add: n_def) 
  have L: "L = L div 4096 * 4096" "0 < L div 4096" using assms(2,3) by (auto simp: div_greater_zero_iff)
  have lt: "L + r < 2 ^ 32" using r(1) assms(4) by simp
  have "(L + r) div 4096 = L div 4096 + r div 4096" using assms(2) by (simp add: div_plus_div_distrib_dvd_left mod_eq_0_iff_dvd)
  then have fl: "(of_nat (L + r) :: u32) AND 0xFFFFF000 = of_nat (L + 4096 * (r div 4096))"
    unfolding page_floor_nat [OF lt] using L(1) by (metis distrib_right mult.commute)
  have "L + 4096 * (r div 4096) < 2 ^ 32" using lt r(2) by simp
  then have "(of_nat (L + 4096 * (r div 4096)) :: u32) \<noteq> 0" using of_nat_eq32 [of "L + 4096 * (r div 4096)" 0] assms(3) by simp
  moreover have "(of_nat (L + 4096 * (r div 4096)) :: u32) + 0x1000 = of_nat (L + 4096 * n)" by (simp add: n_def algebra_simps)
  ultimately show ?thesis unfolding fl by (simp del: of_nat_add of_nat_mult)
qed

lemma expand_run:
  fixes s :: "'a mm_scheme"
  assumes k: "kheap s = Some h" and r0: "0 < r" and sp: "spare_pages fa D T q x f s"
    and top: "unat (end_address h) = page_addr q x" "unat (start_address h) mod 4096 = 0" "unat (start_address h) < page_addr q x"
    and room: "x + (r div 4096 + 1) \<le> 1024" "f + (r div 4096 + 1) \<le> 16384"
      "page_addr q (x + (r div 4096 + 1)) \<le> unat (max_address h)"
  defines "n \<equiv> r div 4096 + 1"
  shows "\<exists>m. expand al (end_address h - start_address h + of_nat r) s =
      Inr (s\<lparr>mem := m, kheap := Some (h\<lparr>end_address := of_nat (page_addr q (x + n))\<rparr>)\<rparr>) \<and>
    bitmap fa (s\<lparr>mem := m\<rparr>) (f + n) \<and> holds_frames (if readonly h \<noteq> 0 then 0 else 1) m T x n f \<and>
    same_outside (map_writes fa T x n) (mem s) m"
proof -
  let ?b = "unat (start_address h)"
  define L where "L = page_addr q x - ?b"
  have pn: "page_addr q (x + i) = page_addr q x + 4096 * i" for i by (simp add: page_addr_def)
  have lay: "layout_ok fa D T" and bm: "bitmap fa s f" and dir: "kernel_directory s = of_nat D" and q: "q < 1024"
    and slot: "read32 (mem s) (of_nat (D + 4 * q)) = of_nat T"
    and zero: "\<And>i. x \<le> i \<Longrightarrow> i < 1024 \<Longrightarrow> read32 (mem s) (of_nat (T + 4 * i)) = 0"
    using sp by (simp_all add: spare_pages_def del: of_nat_add of_nat_mult)
  have lt: "page_addr q (x + n) < 2 ^ 32" using room(3) unat32_bound [of "max_address h"] by (simp add: n_def)
  have "page_addr q x mod 4096 = 0" by (simp add: page_addr_def)
  then have L: "L mod 4096 = 0" "0 < L" "L + ?b = page_addr q x" "L + 4096 * n < 2 ^ 32"
    using top(2,3) lt pn [of n] by (simp_all add: L_def mod_eq_0_iff_dvd)
  have old: "end_address h - start_address h = of_nat L"
  proof -
    have "end_address h = of_nat (page_addr q x)" unfolding top(1) [symmetric] by simp
    then show ?thesis unfolding L(3) [symmetric] by simp
  qed
  have u: "unat (of_nat L :: u32) = L" using L(4) by (intro unat_of_nat32) simp
  have r: "r < 4096 * n" by (simp add: n_def)
  have ne: "(of_nat (L + r) :: u32) > of_nat L" using r L(4) r0 by (subst of_nat_less32) simp_all
  let ?new = "of_nat (L + 4096 * n) :: u32"
  have new: "(if (of_nat (L + r) :: u32) AND 0xFFFFF000 \<noteq> 0 then (of_nat (L + r) AND 0xFFFFF000) + 0x1000 else of_nat (L + r)) = ?new"
    using rounded_size [OF L(1,2), of r] L(4) by (simp add: n_def del: of_nat_add of_nat_mult)
  have start: "start_address h + of_nat (L + 4096 * i) = of_nat (page_addr q (x + i))" for i
  proof -
    have "(of_nat (page_addr q (x + i)) :: u32) = of_nat (?b + (L + 4096 * i))"
      using L(3) pn [of i] by (intro arg_cong [of _ _ of_nat]) simp
    then show ?thesis by simp
  qed
  have max: "start_address h + ?new \<le> max_address h"
    unfolding start using room(3) lt by (simp add: word_le_nat_alt n_def)
  let ?w = "if readonly h \<noteq> 0 then 0 else 1 :: int" and ?su = "if supervisor h \<noteq> 0 then 1 else 0 :: int"
  let ?pos = "\<lambda>y. of_nat (page_addr q y) - start_address h"
  let ?B = "\<lambda>(it, s). bindE (the_heap s) (\<lambda>h.
            bindE (get_page (kmalloc_ap al 4096) (start_address h + it) 1 (kernel_directory s) s)
              (\<lambda>(page, s1).
            bindE (alloc_frame page (if supervisor h \<noteq> 0 then 1 else 0) (if readonly h \<noteq> 0 then 0 else 1) s1)
              (\<lambda>s2. Inr (it + 0x1000, s2))))"
  have pos: "?pos (x + i) = of_nat (L + 4096 * i)" for i
    unfolding start [symmetric] by simp
  have "\<exists>m. while_res (\<lambda>(it, s). it < ?new) ?B (?pos x, s) = Inr (?pos (x + n), s\<lparr>mem := m\<rparr>) \<and>
      bitmap fa (s\<lparr>mem := m\<rparr>) (f + n) \<and> holds_frames ?w m T x n f \<and> same_outside (map_writes fa T x n) (mem s) m"
  proof (rule frames_loop [OF lay, where H = "Some h"])
    fix x' k' and s' :: "'a mm_scheme"
    assume st: "kheap s' = Some h" "bitmap fa s' k'" "k' < 16384" "table_ready D T q x' s'"
    have "?pos x' + 0x1000 = ?pos (Suc x')" by (simp add: page_addr_def algebra_simps)
    with frame_for [OF lay st(2-4), of ?su ?w] table_page [OF lay st(4), of "kmalloc_ap al 4096"] st(1)
    show "\<exists>m. ?B (?pos x', s') = Inr (?pos (Suc x'), s'\<lparr>mem := m\<rparr>) \<and> bitmap fa (s'\<lparr>mem := m\<rparr>) (Suc k') \<and>
        load_page m (of_nat (T + 4 * x')) = frame_entry ?w k' \<and> same_outside (map_writes fa T x' 1) (mem s') m"
      by (auto simp: the_heap_def)
  next
    fix y m assume y: "x \<le> y" "y \<le> x + n"
    then obtain i where i: "y = x + i" "i \<le> n" by (metis add_le_cancel_left le_add_diff_inverse)
    then show "(case (?pos y, s\<lparr>mem := m\<rparr>) of (it, s) \<Rightarrow> it < ?new) \<longleftrightarrow> y < x + n"
      using L(4) unfolding i(1) pos by (simp add: of_nat_less32 del: of_nat_add of_nat_mult)
  next
    fix i assume "i < n"
    then show "read32 (mem s) (of_nat (T + 4 * (x + i))) = 0" using zero [of "x + i"] room(1) by (simp add: n_def)
  qed (use k q room bm slot dir in \<open>simp_all add: n_def del: of_nat_add of_nat_mult\<close>)
  then obtain m where m: "while_res (\<lambda>(it, s). it < ?new) ?B (of_nat L, s) = Inr (?new, s\<lparr>mem := m\<rparr>)"
    "bitmap fa (s\<lparr>mem := m\<rparr>) (f + n)" "holds_frames ?w m T x n f" "same_outside (map_writes fa T x n) (mem s) m"
    using pos [of 0] pos [of n] by auto
  have "expand al (of_nat (L + r)) s =
      Inr (s\<lparr>mem := m, kheap := Some (h\<lparr>end_address := of_nat (page_addr q (x + n))\<rparr>)\<rparr>)"
    unfolding expand_def Let_def the_heap_def k option.case bindE_simps old new
    using ne max m(1) k start [of n] by (simp add: the_heap_def del: of_nat_add of_nat_mult)
  moreover have "end_address h - start_address h + of_nat r = of_nat (L + r)" using old by simp
  ultimately show ?thesis using m(2-4) by auto
qed

section \<open>Room to grow\<close>

text \<open>
  The heap ends where the pages of its table end that have frames; \<open>M\<close> more pages fit into the
  table, the frames of the bitmap, the maximal address and the index.
\<close>

definition growing :: "nat \<Rightarrow> nat \<Rightarrow> nat \<Rightarrow> nat \<Rightarrow> nat \<Rightarrow> nat \<Rightarrow> nat \<Rightarrow> heap_t \<Rightarrow> 'a mm_scheme \<Rightarrow> bool" where
  "growing fa D T q x f M h s \<longleftrightarrow> kheap s = Some h \<and> spare_pages fa D T q x f s \<and>
     T + 4096 \<le> unat (oa_array (index h)) \<and> unat (end_address h) = page_addr q x \<and>
     unat (start_address h) mod 4096 = 0 \<and> x + M \<le> 1024 \<and> f + M \<le> 16384 \<and>
     page_addr q (x + M) \<le> unat (max_address h) \<and>
     page_addr q (x + M) + 40 \<le> unat (start_address h) + 20 * unat (oa_max_size (index h))"

definition growable :: "nat \<Rightarrow> 'a mm_scheme \<Rightarrow> bool" where
  "growable M s \<longleftrightarrow> (\<exists>fa D T q x f h. growing fa D T q x f M h s)"

lemma growableI: "growing fa D T q x f M h s \<Longrightarrow> growable M s"
  unfolding growable_def by blast

lemma page_addr_add: "page_addr q (x + n) = page_addr q x + 4096 * n"
  by (simp add: page_addr_def)

lemma growing_later:
  assumes "growing fa D T q x f M h s" "kheap t = Some h'" "same_heap h h'"
    and "same_outside (region lo hi) (mem s) (mem t)" "unat (oa_array (index h)) \<le> lo"
    and "frame_allocations t = frame_allocations s" "nframes t = nframes s" "kernel_directory t = kernel_directory s"
  shows "growing fa D T q x f M h' t"
proof -
  have "spare_pages fa D T q x f t"
    using assms(1,5-8) by (intro spare_pages_keep [OF _ assms(4)]) (simp_all add: growing_def)
  then show ?thesis using assms(1,2) same_heapD [OF assms(3)] by (simp add: growing_def)
qed

text \<open>After the pages: \<open>s1\<close> has the new end of the heap and the new pages, but still the old chunks.\<close>

lemma expand_grows:
  fixes s :: "'a mm_scheme"
  assumes g: "growing fa D T q x f M h s" and lt: "start_address h < end_address h" and r: "0 < r" "r div 4096 + 1 \<le> M"
  defines "n \<equiv> r div 4096 + 1"
  defines "h' \<equiv> h\<lparr>end_address := of_nat (page_addr q (x + n))\<rparr>"
  shows "\<exists>m. expand al (end_address h - start_address h + of_nat r) s = Inr (s\<lparr>mem := m, kheap := Some h'\<rparr>) \<and>
    unat (end_address h') = unat (end_address h) + 4096 * n \<and> growing fa D T q (x + n) (f + n) (M - n) h' (s\<lparr>mem := m, kheap := Some h'\<rparr>) \<and>
    holds_frames (if readonly h \<noteq> 0 then 0 else 1) m T x n f \<and> same_outside (region 0 (unat (oa_array (index h)))) (mem s) m"
proof -
  have sp: "spare_pages fa D T q x f s" and k: "kheap s = Some h"
    and geo: "unat (end_address h) = page_addr q x" "unat (start_address h) mod 4096 = 0" "x + M \<le> 1024" "f + M \<le> 16384"
      "page_addr q (x + M) \<le> unat (max_address h)" "T + 4096 \<le> unat (oa_array (index h))"
      "page_addr q (x + M) + 40 \<le> unat (start_address h) + 20 * unat (oa_max_size (index h))"
    using g by (simp_all add: growing_def)
  have n: "n \<le> M" using r by (simp add: n_def)
  have below: "unat (start_address h) < page_addr q x" using lt geo(1) by (simp add: word_less_nat_alt)
  have room: "x + n \<le> 1024" "f + n \<le> 16384" "page_addr q (x + n) \<le> unat (max_address h)"
    using n geo(3-5) by (simp_all add: page_addr_add)
  from expand_run [OF k r(1) sp geo(1,2) below room [unfolded n_def], of al, folded n_def] obtain m where
    m: "expand al (end_address h - start_address h + of_nat r) s = Inr (s\<lparr>mem := m, kheap := Some h'\<rparr>)"
      "bitmap fa (s\<lparr>mem := m\<rparr>) (f + n)" "holds_frames (if readonly h \<noteq> 0 then 0 else 1) m T x n f"
      "same_outside (map_writes fa T x n) (mem s) m" unfolding h'_def by blast
  have lay: "layout_ok fa D T" and q: "q < 1024" and slots: "read32 (mem s) (of_nat (D + 4 * q)) = of_nat T"
    "read32 (mem s) (of_nat (D + 4 * (1024 + q))) = of_nat T OR 7"
    and zero: "\<And>i. x \<le> i \<Longrightarrow> i < 1024 \<Longrightarrow> read32 (mem s) (of_nat (T + 4 * i)) = 0"
    using sp by (simp_all add: spare_pages_def add.assoc del: of_nat_add of_nat_mult)
  have T: "T + 4096 < 2 ^ 32" using lay by (simp add: layout_ok_def)
  have new: "read32 m (of_nat (D + 4 * q)) = of_nat T" "read32 m (of_nat (D + 4 * (1024 + q))) = of_nat T OR 7"
    using slot_keep [OF m(4) lay, of q] slot_keep [OF m(4) lay, of "1024 + q"] slots q by simp_all
  have zero': "read32 m (of_nat (T + 4 * i)) = 0" if "x + n \<le> i" "i < 1024" for i
    using table_keep [OF m(4) lay, of "T + 4 * i"] zero [of i] that T by simp
  have "spare_pages fa D T q (x + n) (f + n) (s\<lparr>mem := m\<rparr>)"
    using sp m(2) new zero' by (simp add: spare_pages_def add.assoc del: of_nat_add of_nat_mult)
  then have sp': "spare_pages fa D T q (x + n) (f + n) (s\<lparr>mem := m, kheap := Some h'\<rparr>)"
    by (rule spare_pages_state) simp_all
  have "page_addr q (x + n) < 2 ^ 32" using room(3) unat32_bound [of "max_address h"] by simp
  then have e: "unat (end_address h') = page_addr q (x + n)" by (simp add: h'_def)
  have "growing fa D T q (x + n) (f + n) (M - n) h' (s\<lparr>mem := m, kheap := Some h'\<rparr>)"
    using sp' e geo n by (simp add: growing_def) (simp add: h'_def)
  moreover have "unat (end_address h') = unat (end_address h) + 4096 * n" using e geo(1) by (simp add: page_addr_add)
  moreover have "map_writes fa T x n \<subseteq> region 0 (unat (oa_array (index h)))"
    using lay geo(6) room(1) by (auto simp: region_def layout_ok_def)
  ultimately show ?thesis using m same_outside_mono by blast
qed

section \<open>New chunks\<close>

lemma tiles_used: "\<forall>c \<in> set cs. \<not> fst c \<Longrightarrow> tiles m a r cs = tiles m a r' cs"
  by (induction cs arbitrary: a) auto

lemma holes_used: "\<forall>c \<in> set cs. \<not> fst c \<Longrightarrow> holes a cs = []"
  by (induction cs arbitrary: a) auto

lemma low_heap:
  assumes "heap_rep h m cs" "same_outside (region 0 (unat (oa_array (index h)))) m m'"
  shows "heap_rep h m' cs"
proof -
  let ?s = "blank_mm\<lparr>mem := m, kheap := Some h\<rparr>" and ?t = "blank_mm\<lparr>mem := m', kheap := Some h\<rparr>"
  have "heap_idle ?s ?t" using assms(2) by (auto simp: heap_idle_def)
  moreover have "heap_state ?s cs" using assms(1) by (simp add: heap_state_def)
  ultimately have "heap_state ?t cs" using heap_idle_rep by blast
  then show ?thesis by (simp add: heap_state_def)
qed

text \<open>The header of the hole with its new size, and the footer that the code writes for it.\<close>

definition enlarged :: "nat \<Rightarrow> nat \<Rightarrow> memory \<Rightarrow> memory" where
  "enlarged a k m = write_footer (of_nat (a + k) - 8) (of_nat a) (set_head_bytes (of_nat a) (of_nat k) m)"

lemma enlarged_ok:
  assumes "head_ok m a hole j" "20 \<le> k" "a + k < 2 ^ 32"
  shows "head_ok (enlarged a k m) a hole k" "foot_ok (enlarged a k m) a k"
    "same_outside (region a (a + k)) m (enlarged a k m)"
proof -
  let ?m1 = "set_head_bytes (of_nat a) (of_nat k) m"
  have a: "a + 12 < 2 ^ 32" using assms(2,3) by simp
  have h: "head_ok ?m1 a hole k" "same_outside (region a (a + 12)) m ?m1"
    using set_head_bytes_ok [OF assms(1) a] by simp_all
  have f: "foot_ok (enlarged a k m) a k" "same_outside (region (a + k - 8) (a + k)) ?m1 (enlarged a k m)"
    using write_footer_ok [of a k] assms(2,3) by (simp_all add: enlarged_def)
  show "head_ok (enlarged a k m) a hole k" using h(1) head_ok_cong [OF f(2), of a hole k] assms(2,3) by auto
  show "same_outside (region a (a + k)) m (enlarged a k m)"
    using assms(2) by (intro same_outside_trans [OF same_outside_region_mono [OF h(2)] same_outside_region_mono [OF f(2)]]) auto
qed (use write_footer_ok [of a k] assms(2,3) in \<open>simp add: enlarged_def\<close>)

lemma enlarge_last:
  assumes rep: "heap_rep h m (pre @ [(True, j)])" and e: "unat e = unat (end_address h) + g"
    and room: "total pre + j + g + 40 \<le> 20 * unat (oa_max_size (index h))"
  shows "heap_rep (h\<lparr>end_address := e\<rparr>) (enlarged (unat (start_address h) + total pre) (j + g) m) (pre @ [(True, j + g)])"
proof -
  let ?b = "unat (start_address h)" and ?m = "enlarged (unat (start_address h) + total pre) (j + g) m"
  let ?a = "?b + total pre" and ?hs = "mset (holes ?b (pre @ [(True, j)]))"
  have at: "heap_at h m (pre @ [(True, j)]) ?hs" using rep by (simp add: heap_rep_def)
  have len: "?a + j + g = unat e" "20 \<le> j" using at e by (simp_all add: heap_at_def)
  then have fit: "?a + (j + g) < 2 ^ 32" "20 \<le> j + g" using unat32_bound [of e] by simp_all
  have "head_ok m ?a True j" using at by (simp add: heap_at_def)
  note new = enlarged_ok [OF this fit(2,1)]
  have "tiles m ?b True pre" using at by (simp add: heap_at_def)
  then have "tiles ?m ?b True pre" using fit by (intro tiles_cong [OF new(3)]) auto
  then have "tiles ?m ?b False (pre @ [(True, j + g)])" using new fit(2) by simp
  moreover have "entries (index h) ?m = entries (index h) m" by (rule entries_above [OF at new(3)]) simp
  moreover have "sentinel h ?m = sentinel h m" using at by (intro sentinel_cong [OF new(3)]) (auto simp: heap_at_def index_ok_def)
  ultimately show ?thesis
    using at len room by (simp add: heap_rep_def heap_at_def index_ok_def sentinel_def add.assoc)
qed

lemma append_hole:
  assumes rep: "heap_rep h m cs" and used: "\<forall>c \<in> set cs. \<not> fst c"
    and e: "unat e = unat (end_address h) + g" and g: "20 \<le> g"
    and room: "total cs + g + 40 \<le> 20 * unat (oa_max_size (index h))"
  defines "a \<equiv> unat (end_address h)"
  defines "m' \<equiv> write_footer (of_nat (a + g) - 8) (of_nat a) (write_header (of_nat a) 1 (of_nat g) m)"
  shows "heap_at (h\<lparr>end_address := e\<rparr>) m' (cs @ [(True, g)]) {#}"
proof -
  let ?b = "unat (start_address h)"
  have at: "heap_at h m cs {#}" using rep by (simp add: heap_rep_def holes_used [OF used])
  have len: "a = ?b + total cs" "a + g < 2 ^ 32" using at e unat32_bound [of e] by (simp_all add: heap_at_def a_def)
  have new: "tiles m' a False [(True, g)]" "same_outside (region a (a + g)) m m'"
    unfolding m'_def using g len by (intro hole_tiles; simp)+
  have "tiles m ?b True cs" using at tiles_used [OF used, of m ?b True False] by (simp add: heap_at_def)
  then have "tiles m' ?b True cs" using len by (intro tiles_cong [OF new(2)]) auto
  then have "tiles m' ?b False (cs @ [(True, g)])" using new(1) len(1) by simp
  moreover have "entries (index h) m' = entries (index h) m" by (rule entries_above [OF at new(2)]) (simp add: len)
  moreover have "sentinel h m' = sentinel h m" using at len by (intro sentinel_cong [OF new(2)]) (auto simp: heap_at_def index_ok_def)
  ultimately show ?thesis using at len e room by (simp add: heap_at_def index_ok_def sentinel_def)
qed

text \<open>The search finds the last hole.\<close>

lemma topmost_last:
  assumes rep: "heap_rep h m (pre @ (True, j) # mid)" and used: "\<forall>c \<in> set mid. \<not> fst c" and idx: "index h' = index h"
  obtains i where "topmost_hole h' m = Inr i" "i \<noteq> -1"
    "lookup_ordered_array i (index h') m = of_nat (unat (start_address h) + total pre)"
proof -
  let ?b = "unat (start_address h)" and ?cs = "pre @ (True, j) # mid"
  let ?hs = "mset (holes ?b ?cs)" and ?a = "?b + total pre"
  have at: "heap_at h m ?cs ?hs" using rep by (simp add: heap_rep_def)
  have hs: "holes ?b ?cs = holes ?b pre @ [?a]" using holes_used [OF used] by simp
  have "tiles m ?b False ?cs" using at by (simp only: heap_at_def)
  from tiles_sizes [OF this] have sizes: "\<forall>c \<in> set ?cs. 20 \<le> snd c" .
  have small: "?b + total ?cs < 2 ^ 32" "8 \<le> ?b"
    using at unat32_bound [of "end_address h"] by (simp_all add: heap_at_def index_ok_def)
  have bounds: "?b \<le> x \<and> x \<le> ?a" if "x \<in> set (holes ?b ?cs)" for x
    using that holes_bounds [of x ?b pre] sizes unfolding hs by auto
  have set: "set (entries (index h) m) = of_nat ` set (holes ?b ?cs)"
    using at by (metis heap_at_def set_image_mset set_mset_mset)
  have pos: "\<forall>e \<in> set (entries (index h) m). 0 < e"
  proof
    fix e assume "e \<in> set (entries (index h) m)"
    then obtain x where "e = of_nat x" "?b \<le> x" "x \<le> ?a" unfolding set using bounds by blast
    then show "0 < e" using small of_nat_less32 [of 0 x] by simp
  qed
  have room: "oa_room (index h')" using heap_at_room(1) [OF at] idx by simp
  have "of_nat ?a \<in> set (entries (index h) m)" unfolding set hs by (simp add: image_Un)
  then have "entries (index h') m \<noteq> []" using idx by auto
  with topmost_hole_spec [OF room, of m] pos idx obtain i where
    i: "i < unat (oa_size (index h))" "topmost_hole h' m = Inr (of_nat i)" "(of_nat i :: u32) \<noteq> - 1"
      "\<forall>e \<in> set (entries (index h) m). e \<le> entries (index h) m ! i" by auto
  then have "entries (index h) m ! i \<in> set (entries (index h) m)" by simp
  then obtain x where x: "entries (index h) m ! i = of_nat x" "x \<le> ?a" unfolding set using bounds by blast
  moreover have "(of_nat ?a :: u32) \<le> of_nat x" using i(4) \<open>of_nat ?a \<in> _\<close> x(1) by metis
  then have "?a \<le> x" using small x(2) by (subst (asm) of_nat_le32) auto
  ultimately have "entries (index h) m ! i = of_nat ?a" by simp
  moreover have "unat (of_nat i :: u32) = i" using i(1) unat32_bound [of "oa_size (index h)"] by (intro unat_of_nat32) simp
  ultimately have "lookup_ordered_array (of_nat i) (index h') m = of_nat ?a"
    using lookup_entries [of "of_nat i" "index h" m] i(1) idx by (simp add: word_less_nat_alt)
  with i(2,3) that show thesis by blast
qed

section \<open>The growth of the heap\<close>

lemma grow_over:
  fixes s :: "'a mm_scheme"
  assumes g: "growing fa D T q x f M h s" and rep: "heap_rep h (mem s) (pre @ (True, j) # mid)"
    and used: "\<forall>c \<in> set mid. \<not> fst c" and r: "0 < r" "r div 4096 + 1 \<le> M"
  defines "n \<equiv> r div 4096 + 1" and "a \<equiv> unat (start_address h) + total pre"
  defines "h' \<equiv> h\<lparr>end_address := of_nat (page_addr q (x + n))\<rparr>"
  shows "\<exists>m. alloc_grow al (of_nat r) s = Inr (s\<lparr>mem := enlarged a (j + 4096 * n) m, kheap := Some h'\<rparr>) \<and>
    heap_rep h m (pre @ (True, j) # mid) \<and> unat (end_address h') = unat (end_address h) + 4096 * n \<and>
    growing fa D T q (x + n) (f + n) (M - n) h' (s\<lparr>mem := m, kheap := Some h'\<rparr>) \<and>
    holds_frames (if readonly h \<noteq> 0 then 0 else 1) m T x n f \<and> same_outside (region 0 (unat (oa_array (index h)))) (mem s) m"
proof -
  have at: "heap_at h (mem s) (pre @ (True, j) # mid) (mset (holes (unat (start_address h)) (pre @ (True, j) # mid)))"
    using rep by (simp add: heap_rep_def)
  have kh: "kheap s = Some h" using g by (simp add: growing_def)
  have "unat (start_address h) < unat (end_address h)" using hole_header(3,4) [OF at] by simp
  then have lt: "start_address h < end_address h" by (simp add: word_less_nat_alt)
  from expand_grows [OF g lt r, of al, folded n_def, folded h'_def] obtain m where
    m: "expand al (end_address h - start_address h + of_nat r) s = Inr (s\<lparr>mem := m, kheap := Some h'\<rparr>)"
      "unat (end_address h') = unat (end_address h) + 4096 * n"
      "growing fa D T q (x + n) (f + n) (M - n) h' (s\<lparr>mem := m, kheap := Some h'\<rparr>)"
      "holds_frames (if readonly h \<noteq> 0 then 0 else 1) m T x n f"
      "same_outside (region 0 (unat (oa_array (index h)))) (mem s) m" by blast
  have rep': "heap_rep h m (pre @ (True, j) # mid)" by (rule low_heap [OF rep m(5)])
  then have at': "heap_at h m (pre @ (True, j) # mid) (mset (holes (unat (start_address h)) (pre @ (True, j) # mid)))"
    by (simp add: heap_rep_def)
  have idx: "index h' = index h" "start_address h' = start_address h" by (simp_all add: h'_def)
  from topmost_last [OF rep' used idx(1)] obtain i where
    i: "topmost_hole h' m = Inr i" "i \<noteq> -1" "lookup_ordered_array i (index h) m = of_nat a"
    unfolding a_def idx by blast
  have hb: "head_bytes m (of_nat a) = of_nat j" using hole_header(1) [OF at'] by (simp add: a_def)
  have "(of_nat (unat (end_address h')) :: u32) = of_nat (unat (end_address h) + 4096 * n)" using m(2) by (rule arg_cong)
  then have "end_address h' = end_address h + of_nat (4096 * n)" by simp
  then have d: "end_address h' - start_address h - (end_address h - start_address h) = of_nat (4096 * n)" by simp
  have jn: "of_nat j + of_nat (4096 * n) = (of_nat (j + 4096 * n) :: u32)" by simp
  have fa: "of_nat a + head_bytes (set_head_bytes (of_nat a) (of_nat (j + 4096 * n)) m) (of_nat a) - 8 = of_nat (a + (j + 4096 * n)) - 8"
    by (simp add: layout)
  have "alloc_grow al (of_nat r) s = Inr (s\<lparr>mem := enlarged a (j + 4096 * n) m, kheap := Some h'\<rparr>)"
    unfolding alloc_grow_def Let_def the_heap_def kh option.case bindE_simps m(1)
    using i by (simp add: idx d hb jn fa enlarged_def del: of_nat_add of_nat_mult)
  with m(2-5) rep' show ?thesis by (intro exI [of _ m]) simp
qed

text \<open>The chunks after growth by \<open>g\<close> bytes: the last hole is enlarged, or a hole is added.\<close>

definition extensible :: "chunk list \<Rightarrow> bool" where
  "extensible cs \<longleftrightarrow> fst (last cs) \<or> (\<forall>c \<in> set cs. \<not> fst c)"

definition grown :: "nat \<Rightarrow> chunk list \<Rightarrow> chunk list" where
  "grown g cs = (if fst (last cs) then butlast cs @ [(True, snd (last cs) + g)] else cs @ [(True, g)])"

lemma above_index:
  assumes "heap_at h m cs hs" "unat (start_address h) + total cs \<le> e"
  shows "index_region h \<subseteq> region (unat (oa_array (index h))) (2 ^ 32)" "unat (oa_array (index h)) \<le> unat (start_address h)"
  using assms unat32_bound [of "start_address h"] by (auto simp: heap_at_def index_ok_def index_region_def region_def)

lemma grow_none:
  fixes s :: "'a mm_scheme"
  assumes g: "growing fa D T q x f M h s" and rep: "heap_rep h (mem s) cs"
    and used: "\<forall>c \<in> set cs. \<not> fst c" and r: "0 < r" "r div 4096 + 1 \<le> M"
  defines "n \<equiv> r div 4096 + 1"
  defines "h' \<equiv> h\<lparr>end_address := of_nat (page_addr q (x + n))\<rparr>"
  shows "\<exists>m t h2. alloc_grow al (of_nat r) s = Inr t \<and> heap_rep h2 (mem t) (cs @ [(True, 4096 * n)]) \<and>
    kheap t = Some h2 \<and> same_heap h' h2 \<and> unat (end_address h') = unat (end_address h) + 4096 * n \<and>
    growing fa D T q (x + n) (f + n) (M - n) h' (s\<lparr>mem := m, kheap := Some h'\<rparr>) \<and>
    holds_frames (if readonly h \<noteq> 0 then 0 else 1) m T x n f \<and> same_outside (region 0 (unat (oa_array (index h)))) (mem s) m \<and>
    heap_frame (index_region h \<union> region (unat (end_address h)) (unat (end_address h) + 4096 * n)) (s\<lparr>mem := m\<rparr>) t"
proof -
  let ?b = "unat (start_address h)" and ?g = "4096 * n" and ?e = "unat (end_address h)"
  have at: "heap_at h (mem s) cs {#}" using rep by (simp add: heap_rep_def holes_used [OF used])
  have kh: "kheap s = Some h" using g by (simp add: growing_def)
  have cs: "0 < total cs" using rep at by (cases cs) (auto simp: heap_rep_def heap_at_def)
  then have lt: "start_address h < end_address h" using at by (auto simp: heap_at_def word_less_nat_alt)
  from expand_grows [OF g lt r, of al, folded n_def, folded h'_def] obtain m where
    m: "expand al (end_address h - start_address h + of_nat r) s = Inr (s\<lparr>mem := m, kheap := Some h'\<rparr>)"
      "unat (end_address h') = ?e + ?g"
      "growing fa D T q (x + n) (f + n) (M - n) h' (s\<lparr>mem := m, kheap := Some h'\<rparr>)"
      "holds_frames (if readonly h \<noteq> 0 then 0 else 1) m T x n f"
      "same_outside (region 0 (unat (oa_array (index h)))) (mem s) m" by blast
  have rep': "heap_rep h m cs" by (rule low_heap [OF rep m(5)])
  then have at1: "heap_at h m cs {#}" by (simp add: heap_rep_def holes_used [OF used])
  have idx: "index h' = index h" "start_address h' = start_address h" "index_region h' = index_region h"
    by (simp_all add: h'_def index_region_def)
  have "entries (index h) m = []" using at1 by (simp add: heap_at_def)
  with topmost_hole_spec [of h' m] heap_at_room(1) [OF at1] idx have none: "topmost_hole h' m = Inr (-1)"
    by (auto simp flip: length_0_conv)
  have "(of_nat (unat (end_address h')) :: u32) = of_nat (?e + ?g)" using m(2) by (rule arg_cong)
  then have "end_address h' = end_address h + of_nat ?g" by simp
  then have d: "end_address h' - start_address h - (end_address h - start_address h) = of_nat ?g" by simp
  let ?m1 = "write_header (end_address h) 1 (of_nat ?g) m"
  let ?m2 = "write_footer (of_nat (?e + ?g) - 8) (end_address h) ?m1"
  have foot: "end_address h + head_bytes ?m1 (end_address h) - 8 = of_nat (?e + ?g) - 8" by (simp add: layout)
  have room: "total cs + ?g + 40 \<le> 20 * unat (oa_max_size (index h))"
    using g r at by (simp add: growing_def page_addr_add heap_at_def n_def)
  have g20: "20 \<le> ?g" by (simp add: n_def)
  have at2: "heap_at h' ?m2 (cs @ [(True, ?g)]) {#}"
    using append_hole [OF rep' used m(2) [unfolded h'_def, simplified] g20 room] m(2) by (simp add: h'_def)
  let ?s = "s\<lparr>mem := ?m2, kheap := Some h'\<rparr>"
  from heap_at_insert [of ?s h' "cs @ [(True, ?g)]" "{#}" ?e] at2 g20 obtain t h2 where
    t: "heap_insert (end_address h) ?s = Inr t" "kheap t = Some h2" "same_heap h' h2"
      "heap_at h2 (mem t) (cs @ [(True, ?g)]) {#?e#}" "heap_frame (index_region h') ?s t" by auto
  have swap: "s\<lparr>kheap := Some h', mem := ?m2\<rparr> = ?s" by simp
  have run: "alloc_grow al (of_nat r) s = Inr t"
    unfolding alloc_grow_def Let_def the_heap_def kh option.case bindE_simps m(1)
    using t(1) [folded swap] by (simp add: none idx d foot del: of_nat_add of_nat_mult)
  have "holes (unat (start_address h2)) (cs @ [(True, ?g)]) = [?e]"
    using same_heapD(1) [OF t(3)] idx at holes_used [OF used] by (simp add: heap_at_def)
  then have "heap_rep h2 (mem t) (cs @ [(True, ?g)])" using t(4) by (simp add: heap_rep_def)
  moreover have "same_outside (region ?e (?e + ?g)) m ?m2"
    using hole_tiles(2) [of ?g ?e m] g20 m(2) unat32_bound [of "end_address h'"] by simp
  then have "heap_frame (index_region h \<union> region ?e (?e + ?g)) (s\<lparr>mem := m\<rparr>) ?s"
    using heap_frameI [of _ "s\<lparr>mem := m\<rparr>" ?m2 "Some h'"] by (auto intro: heap_frame_mono)
  then have "heap_frame (index_region h \<union> region ?e (?e + ?g)) (s\<lparr>mem := m\<rparr>) t"
    using heap_frame_trans heap_frame_mono [OF t(5)] idx(3) by blast
  ultimately show ?thesis using run t(2,3) m(2-5) by blast
qed

lemma holds_frames_keep:
  assumes "holds_frames w m T x n f" "same_outside (region lo hi) m m'" "T + 4096 \<le> lo" "x + n \<le> 1024" "lo < 2 ^ 32"
  shows "holds_frames w m' T x n f"
  unfolding holds_frames_def
proof (intro allI impI)
  fix i assume i: "i < n"
  have e: "T + 4 * (x + i) + 4 \<le> lo" using i assms(3,4) by simp
  then have "unat (of_nat (T + 4 * (x + i)) :: u32) = T + 4 * (x + i)" using assms(5) by (intro unat_of_nat32) simp
  then have "read32 m' (of_nat (T + 4 * (x + i))) = read32 m (of_nat (T + 4 * (x + i)))"
    using e assms(5) by (intro read32_keep [OF assms(2)]) (auto simp: region_def)
  then show "load_page m' (of_nat (T + 4 * (x + i))) = frame_entry w (f + i)"
    using assms(1) i by (simp add: holds_frames_def load_page_def)
qed

lemma grow_rep:
  fixes s :: "'a mm_scheme"
  assumes g: "growing fa D T q x f M h s" and rep: "heap_rep h (mem s) cs" and ext: "extensible cs"
    and r: "0 < r" "r div 4096 + 1 \<le> M"
  defines "n \<equiv> r div 4096 + 1"
  shows "\<exists>t h2. alloc_grow al (of_nat r) s = Inr t \<and> heap_rep h2 (mem t) (grown (4096 * n) cs) \<and>
    start_address h2 = start_address h \<and> oa_array (index h2) = oa_array (index h) \<and> growing fa D T q (x + n) (f + n) (M - n) h2 t \<and>
    holds_frames (if readonly h \<noteq> 0 then 0 else 1) (mem t) T x n f \<and>
    (\<forall>y \<in> user_bytes (unat (start_address h)) cs. mem t y = mem s y) \<and> kernel_directory t = kernel_directory s"
proof -
  let ?b = "unat (start_address h)" and ?oa = "unat (oa_array (index h))" and ?e = "unat (end_address h)"
  let ?h1 = "h\<lparr>end_address := of_nat (page_addr q (x + n))\<rparr>" and ?w = "if readonly h \<noteq> 0 then 0 else 1 :: int"
  have at: "heap_at h (mem s) cs (mset (holes ?b cs))" using rep by (simp add: heap_rep_def)
  have T: "T + 4096 \<le> ?oa" "x + n \<le> 1024" "?oa < 2 ^ 32"
    using g r unat32_bound [of "oa_array (index h)"] by (simp_all add: growing_def n_def)
  have low: "?oa \<le> ?b" "index_region h \<subseteq> region ?oa (2 ^ 32)" "?b + total cs = ?e"
    using above_index [OF at order_refl] at by (simp_all add: heap_at_def)
  have users: "user_bytes ?b cs \<inter> (region 0 ?oa \<union> index_region h) = {}"
    using user_bytes_above [OF rep] user_bytes_within [of ?b cs] low(1) by (auto simp: region_def)
  show ?thesis
  proof (cases "fst (last cs)")
    case True
    define pre j where "pre = butlast cs" and "j = snd (last cs)"
    have "cs \<noteq> []" using rep by (simp add: heap_rep_def)
    then have cs: "cs = pre @ [(True, j)]" using True unfolding pre_def j_def by (metis append_butlast_last_id prod.collapse)
    let ?a = "?b + total pre"
    from grow_over [OF g rep [unfolded cs] _ r, of al, folded n_def] obtain m where
      m: "alloc_grow al (of_nat r) s = Inr (s\<lparr>mem := enlarged ?a (j + 4096 * n) m, kheap := Some ?h1\<rparr>)" (is "_ = Inr ?t")
        "heap_rep h m cs" "unat (end_address ?h1) = ?e + 4096 * n"
        "growing fa D T q (x + n) (f + n) (M - n) ?h1 (s\<lparr>mem := m, kheap := Some ?h1\<rparr>)"
        "holds_frames ?w m T x n f" "same_outside (region 0 ?oa) (mem s) m" unfolding cs by auto
    have at1: "heap_at h m (pre @ [(True, j)]) (mset (holes ?b (pre @ [(True, j)])))" using m(2) by (simp add: heap_rep_def cs)
    have "total pre + j + 4096 * n + 40 \<le> 20 * unat (oa_max_size (index h))"
      using g r low(3) by (simp add: growing_def page_addr_add n_def cs)
    from enlarge_last [OF m(2) [unfolded cs] _ this] m(3)
    have rep2: "heap_rep ?h1 (mem ?t) (grown (4096 * n) cs)" by (simp add: cs grown_def)
    have "?a + (j + 4096 * n) < 2 ^ 32" using m(3) low(3) unat32_bound [of "end_address ?h1"] by (simp add: cs)
    moreover have "head_ok m ?a True j" "20 \<le> j" using at1 by (simp_all add: heap_at_def)
    ultimately have out: "same_outside (region ?a (?a + (j + 4096 * n))) m (mem ?t)" using enlarged_ok(3) by simp
    have "growing fa D T q (x + n) (f + n) (M - n) ?h1 ?t"
      by (rule growing_later [OF m(4) _ same_heap_refl, where lo = ?a and hi = "?a + (j + 4096 * n)"])
        (use out low(1) in simp_all)
    moreover have "holds_frames ?w (mem ?t) T x n f"
      by (rule holds_frames_keep [OF m(5) out]) (use T low(1,3) unat32_bound [of "end_address h"] in \<open>simp_all add: cs\<close>)
    moreover have "mem ?t y = mem s y" if "y \<in> user_bytes ?b cs" for y
    proof -
      have "y \<notin> region 0 ?oa" using that users by blast
      moreover have "y \<in> user_bytes ?b pre" using that by (simp add: cs)
      then have "y \<notin> region ?a (?a + (j + 4096 * n))" using user_bytes_within [of ?b pre] by (auto simp: region_def)
      ultimately show ?thesis using m(6) out by (simp add: same_outside_def)
    qed
    ultimately show ?thesis using m(1) rep2 by (intro exI [of _ ?t] exI [of _ ?h1]) simp
  next
    case False
    then have used: "\<forall>c \<in> set cs. \<not> fst c" using ext by (simp add: extensible_def)
    let ?R = "index_region h \<union> region ?e (?e + 4096 * n)"
    from grow_none [OF g rep used r, of al, folded n_def] obtain m t h2 where
      t: "alloc_grow al (of_nat r) s = Inr t" "heap_rep h2 (mem t) (cs @ [(True, 4096 * n)])" "kheap t = Some h2" "same_heap ?h1 h2"
        "unat (end_address ?h1) = ?e + 4096 * n" "growing fa D T q (x + n) (f + n) (M - n) ?h1 (s\<lparr>mem := m, kheap := Some ?h1\<rparr>)"
        "holds_frames ?w m T x n f" "same_outside (region 0 ?oa) (mem s) m" "heap_frame ?R (s\<lparr>mem := m\<rparr>) t" by blast
    have "?R \<subseteq> region ?oa (2 ^ 32)" using low unat32_bound by (auto simp: region_def)
    then have out: "same_outside (region ?oa (2 ^ 32)) m (mem t)" using t(9) by (auto simp: heap_frame_def intro: same_outside_mono)
    obtain m' k' where t': "t = s\<lparr>mem := m, mem := m', kheap := k'\<rparr>" using t(9) by (auto simp: heap_frame_def)
    have "growing fa D T q (x + n) (f + n) (M - n) h2 t"
      by (rule growing_later [OF t(6,3,4), where lo = ?oa and hi = "2 ^ 32"]) (use out in \<open>simp_all add: t'\<close>)
    moreover have "holds_frames ?w (mem t) T x n f" by (rule holds_frames_keep [OF t(7) out T])
    moreover have "mem t y = mem s y" if "y \<in> user_bytes ?b cs" for y
    proof -
      have "y \<notin> region 0 ?oa \<union> index_region h" using that users by blast
      moreover have "y \<notin> region ?e (?e + 4096 * n)" using that user_bytes_within [of ?b cs] low(3) by (auto simp: region_def)
      ultimately show ?thesis using t(8,9) by (simp add: same_outside_def heap_frame_def)
    qed
    moreover have "kernel_directory t = kernel_directory s" by (simp add: t')
    ultimately show ?thesis
      using t(1,2) same_heapD [OF t(4)] False by (intro exI [of _ t] exI [of _ h2]) (simp add: grown_def)
  qed
qed

end
