(* ===== verification/Growth_Props.thy ===== *)
theory Growth_Props
  imports Heap_Growth
begin

text \<open>
  Allocation when no hole is large enough: the heap grows and the request is tried again. What holds
  where the last chunk is a hole or there is none, what happens where a block lies behind the topmost
  hole, and the room that calls and the initialisation leave. \<open>arena_step\<close> is the abstract allocator
  with growth, \<open>client_step\<close> all calls of the kernel's, the first simulates the second.
\<close>

section \<open>Allocation with growth\<close>

lemma no_fit:
  assumes rep: "heap_rep h m cs" and "\<not> fits sz cs" "unat sz + 20 < 2 ^ 32"
  shows "find_smallest_hole (sz + 20) 0 h m = Inr (-1)"
proof -
  have at: "heap_at h m cs (mset (holes (unat (start_address h)) cs))" using rep by (simp add: heap_rep_def)
  have u: "unat (sz + 20) = unat sz + 20" using assms(3) by (subst unat_add32) auto
  have "\<not> hole_fits (sz + 20) 0 m e" if e: "e \<in> set (entries (index h) m)" for e
  proof -
    obtain i where i: "i < unat (oa_size (index h))" "e = entries (index h) m ! i" using e by (auto simp: in_set_conv_nth)
    from hole_entry [OF rep i(1)] obtain pre k post where
      cs: "cs = pre @ (True, k) # post" "e = of_nat (unat (start_address h) + total pre)" unfolding i(2) by blast
    then have "head_bytes m e = of_nat k" "k < 2 ^ 32" using hole_header(1,2) [OF at [unfolded cs(1)]] by simp_all
    moreover have "k < unat sz + 20" using assms(2) by (auto simp: fits_def cs(1))
    ultimately show ?thesis using u by (simp add: hole_fits_0 word_le_nat_alt)
  qed
  with find_smallest_hole_spec [OF heap_at_room(1) [OF at], of "sz + 20" 0 m] show ?thesis by fastforce
qed

lemma alloc_again:
  assumes "kheap s = Some h" "find_smallest_hole (sz + 20) 0 h (mem s) = Inr (-1)" "alloc_grow (alloc d) (sz + 20) s = Inr t"
  shows "alloc (Suc d) sz 0 s = alloc d sz 0 t"
proof -
  have sz: "sz + 12 + 8 = sz + 20" by simp
  show ?thesis using assms by (simp add: alloc_body_def the_heap_def Let_def sz)
qed

text \<open>The part of the page tables that maps the pages from address \<open>a\<close> on.\<close>

lemma growing_walk:
  assumes "growing fa D T q y f' M h t" "holds_frames w (mem t) T x n f" "x + n \<le> y" "b < 4096 * n" "y \<le> 1024"
  shows "walk (mem t) (kernel_directory t + 4096) (of_nat (page_addr q x + b)) = Some (of_nat (f + b div 4096))"
proof -
  have sp: "read32 (mem t) (of_nat (D + 4096 + 4 * q)) = of_nat T OR 7" "T mod 4096 = 0" "T + 4096 < 2 ^ 32" "q < 1024"
    "kernel_directory t = of_nat D"
    using assms(1) by (simp_all add: growing_def spare_pages_def layout_ok_def del: of_nat_add of_nat_mult)
  have b: "b div 4096 < n" using assms(4) by (simp add: less_mult_imp_div_less mult.commute)
  then have "load_page (mem t) (of_nat (T + 4 * (x + b div 4096))) = frame_entry w (f + b div 4096)"
    using assms(2) by (simp add: holds_frames_def)
  from walk_entry [OF sp(1-3) this _ sp(4), of "b mod 4096"] b assms(3,5)
  have "walk (mem t) (of_nat (D + 4096)) (of_nat (page_addr q (x + b div 4096) + b mod 4096)) = Some (of_nat (f + b div 4096))"
    by simp
  moreover have "page_addr q (x + b div 4096) + b mod 4096 = page_addr q x + b" by (simp add: page_addr_add)
  moreover have "(of_nat (D + 4096) :: u32) = kernel_directory t + 4096" using sp(5) by simp
  ultimately show ?thesis by (simp del: of_nat_add)
qed

lemma grown_last:
  assumes "cs \<noteq> []" "20 \<le> g"
  obtains bs k where "grown g cs = bs @ [(True, k)]" "g \<le> k" "set bs \<subseteq> set cs" "user_bytes a bs = user_bytes a cs"
proof (cases "fst (last cs)")
  case True
  then have "cs = butlast cs @ [(True, snd (last cs))]" using assms(1) by (metis append_butlast_last_id prod.collapse)
  then have "user_bytes a cs = user_bytes a (butlast cs @ [(True, snd (last cs))])" by (rule arg_cong)
  then show thesis using True that [of "butlast cs" "snd (last cs) + g"] by (auto simp: grown_def dest: in_set_butlastD)
next
  case False
  then show thesis using that [of cs g] by (simp add: grown_def)
qed

text \<open>Growth and the second attempt together, with the tables in view.\<close>

lemma grow_and_take:
  fixes s :: "'a mm_scheme"
  assumes g: "growing fa D T q x f M h s" and rep: "heap_rep h (mem s) cs" and ext: "extensible cs" and fit: "\<not> fits sz cs"
    and n: "n = (unat sz + 20) div 4096 + 1" "n \<le> M"
  shows "\<exists>bs k t h2. grown (4096 * n) cs = bs @ [(True, k)] \<and> unat sz + 20 \<le> k \<and>
    alloc (Suc (Suc d)) sz 0 s = Inr (of_nat (unat (start_address h) + total bs + 12), t) \<and>
    heap_rep h2 (mem t) (bs @ carved (block_size (unat sz) k) k) \<and> start_address h2 = start_address h \<and>
    growing fa D T q (x + n) (f + n) (M - n) h2 t \<and> holds_frames (if readonly h \<noteq> 0 then 0 else 1) (mem t) T x n f \<and>
    user_bytes (unat (start_address h)) cs \<inter> region (unat (start_address h) + total bs) (unat (start_address h) + total bs + k) = {} \<and>
    (\<forall>y \<in> user_bytes (unat (start_address h)) cs. mem t y = mem s y)"
proof -
  let ?b = "unat (start_address h)" and ?r = "unat sz + 20" and ?oa = "unat (oa_array (index h))"
  have h: "kheap s = Some h" "cs \<noteq> []" using g rep by (simp_all add: growing_def heap_rep_def)
  have r: "0 < ?r" "?r div 4096 + 1 \<le> M" "?r < 4096 * n" "20 \<le> 4096 * n" using n by simp_all
  have "page_addr q (x + n) \<le> unat (max_address h)" using g n(2) by (simp add: growing_def page_addr_add)
  then have small: "?r < 2 ^ 32" using r(3) unat32_bound [of "max_address h"] by (simp add: page_addr_add)
  have sz: "sz + 20 = of_nat ?r" by simp
  from grow_rep [OF g rep ext r(1,2), of "alloc (Suc d)", folded n(1)] obtain s1 h1 where
    s1: "alloc_grow (alloc (Suc d)) (sz + 20) s = Inr s1" "heap_rep h1 (mem s1) (grown (4096 * n) cs)" "start_address h1 = start_address h"
      "oa_array (index h1) = oa_array (index h)" "growing fa D T q (x + n) (f + n) (M - n) h1 s1"
      "holds_frames (if readonly h \<noteq> 0 then 0 else 1) (mem s1) T x n f" "\<forall>y \<in> user_bytes ?b cs. mem s1 y = mem s y"
    unfolding sz by blast
  have again: "alloc (Suc (Suc d)) sz 0 s = alloc (Suc d) sz 0 s1"
    by (rule alloc_again [OF h(1) no_fit [OF rep fit small] s1(1)])
  from grown_last [OF h(2) r(4), of ?b] obtain bs k where
    bs: "grown (4096 * n) cs = bs @ [(True, k)]" "4096 * n \<le> k" "set bs \<subseteq> set cs" "user_bytes ?b bs = user_bytes ?b cs" by blast
  have kh1: "kheap s1 = Some h1" using s1(5) by (simp add: growing_def)
  have k: "(True, k) \<in> set (bs @ [(True, k)])" "unat sz + 20 \<le> k" using r(3) bs(2) by simp_all
  from alloc_rep [OF kh1 s1(2) [unfolded bs(1)] this, of d] obtain pre k' post t h2 where
    a: "bs @ [(True, k)] = pre @ (True, k') # post" "unat sz + 20 \<le> k'"
      "alloc (Suc d) sz 0 s1 = Inr (of_nat (?b + total pre + 12), t)" "kheap t = Some h2" "same_heap h1 h2"
      "heap_rep h2 (mem t) (pre @ carved (block_size (unat sz) k') k' @ post)"
      "heap_frame (index_region h1 \<union> region (?b + total pre) (?b + total pre + k')) s1 t" unfolding s1(3) by blast
  have "post = []"
  proof (cases post rule: rev_cases)
    case (snoc post' c)
    with a(1) have "(True, k') \<in> set bs" by simp
    with bs(3) a(2) fit show ?thesis by (auto simp: fits_def)
  qed
  with a(1) have pre: "pre = bs" "k' = k" "post = []" by simp_all
  let ?R = "index_region h1 \<union> region (?b + total bs) (?b + total bs + k)"
  have at1: "heap_at h1 (mem s1) (bs @ [(True, k)]) (mset (holes (unat (start_address h1)) (bs @ [(True, k)])))"
    using s1(2) bs(1) by (simp add: heap_rep_def)
  have low: "index_region h1 \<subseteq> region ?oa (2 ^ 32)" "?oa \<le> ?b"
    using above_index [OF at1 order_refl] s1(3,4) by simp_all
  then have "?R \<subseteq> region ?oa (2 ^ 32)" using unat32_bound by (auto simp: region_def)
  then have out: "same_outside (region ?oa (2 ^ 32)) (mem s1) (mem t)"
    using a(7) by (auto simp: heap_frame_def pre intro: same_outside_mono)
  obtain m' kh' where t': "t = s1\<lparr>mem := m', kheap := kh'\<rparr>" using a(7) by (auto simp: heap_frame_def)
  have gt: "growing fa D T q (x + n) (f + n) (M - n) h2 t"
    by (rule growing_later [OF s1(5) a(4,5), where lo = ?oa and hi = "2 ^ 32"]) (use out s1(4) in \<open>simp_all add: t'\<close>)
  have "T + 4096 \<le> ?oa" "x + n \<le> 1024" "?oa < 2 ^ 32"
    using g n(2) unat32_bound [of "oa_array (index h)"] by (simp_all add: growing_def)
  from holds_frames_keep [OF s1(6) out this]
  have hf: "holds_frames (if readonly h \<noteq> 0 then 0 else 1) (mem t) T x n f" .
  have apart: "user_bytes ?b cs \<inter> region (?b + total bs) (?b + total bs + k) = {}"
    using user_bytes_within [of ?b bs] bs(4) by (auto simp: region_def)
  have "user_bytes ?b cs \<inter> index_region h1 = {}"
    using user_bytes_above [OF s1(2)] s1(3) bs(1,4) by auto
  then have "mem t y = mem s y" if "y \<in> user_bytes ?b cs" for y
    using that apart a(7) s1(7) by (auto simp: heap_frame_def same_outside_def pre)
  then show ?thesis
    using bs(1) k(2) again a(3,6) pre gt hf apart same_heapD(1) [OF a(5)] s1(3)
    by (intro exI [of _ bs] exI [of _ k] exI [of _ t] exI [of _ h2]) simp
qed

section \<open>Properties\<close>

text \<open>
  C8: When no hole has room for a request that need not be page-aligned (\<^verbatim>\<open>page_align\<close> = 0), the heap
  grows by as many pages as it takes, and
  the request is served from the new space. (The conditions besides: the last chunk is a hole or there is no
  hole, and the page table of the heap, the frames and the index have room.) The last hole is enlarged, or
  a hole is added, and the block is taken from it; the heap stays well formed, no user's byte changes, each
  new page has a frame of its own that was free and is used now, and this is how the processor translates the
  addresses of the new pages. Two levels of calls are enough, and what room is left serves the next growth.
\<close>

theorem alloc_grows:
  assumes "heap_state s cs" "extensible cs" "\<not> fits sz cs" "growable M s" "n = (unat sz + 20) div 4096 + 1" "n \<le> M"
  shows "\<exists>bs k t f. grown (4096 * n) cs = bs @ [(True, k)] \<and>
    alloc (Suc (Suc d)) sz 0 s = Inr (of_nat (heap_base s + total bs + 12), t) \<and>
    heap_state t (bs @ carved (block_size (unat sz) k) k) \<and> heap_base t = heap_base s \<and> growable (M - n) t \<and>
    region (heap_base s + total bs + 12) (heap_base s + total bs + 12 + unat sz) \<inter> user_bytes (heap_base s) cs = {} \<and>
    (\<forall>x \<in> user_bytes (heap_base s) cs. mem t x = mem s x) \<and>
    (\<forall>g. f \<le> g \<and> g < f + n \<longrightarrow> \<not> used s g \<and> used t g) \<and>
    (\<forall>b < 4096 * n. walk (mem t) (kernel_directory t + 4096) (of_nat (heap_base s + total cs + b)) = Some (of_nat (f + b div 4096)))"
proof -
  obtain h where h: "kheap s = Some h" "heap_rep h (mem s) cs" using assms(1) by (auto simp: heap_state_def)
  obtain fa D T q x f h0 where "growing fa D T q x f M h0 s" using assms(4) unfolding growable_def by blast
  with h(1) have g: "growing fa D T q x f M h s" by (simp add: growing_def)
  have base: "heap_base s = unat (start_address h)" using h(1) by (simp add: heap_base_def)
  from grow_and_take [OF g h(2) assms(2,3,5,6), of d, folded base] obtain bs k t h2 where
    r: "grown (4096 * n) cs = bs @ [(True, k)]" "unat sz + 20 \<le> k" "alloc (Suc (Suc d)) sz 0 s = Inr (of_nat (heap_base s + total bs + 12), t)"
      "heap_rep h2 (mem t) (bs @ carved (block_size (unat sz) k) k)" "start_address h2 = start_address h"
      "growing fa D T q (x + n) (f + n) (M - n) h2 t" "holds_frames (if readonly h \<noteq> 0 then 0 else 1) (mem t) T x n f"
      "user_bytes (heap_base s) cs \<inter> region (heap_base s + total bs) (heap_base s + total bs + k) = {}"
      "\<forall>y \<in> user_bytes (heap_base s) cs. mem t y = mem s y" by blast
  have geo: "x + n \<le> 1024" "f + n \<le> 16384" "heap_base s + total cs = page_addr q x"
    using g h(2) assms(6) base by (simp_all add: growing_def heap_rep_def heap_at_def)
  have "walk (mem t) (kernel_directory t + 4096) (of_nat (heap_base s + total cs + b)) = Some (of_nat (f + b div 4096))" if "b < 4096 * n" for b
    unfolding geo(3) by (rule growing_walk [OF r(6,7) order_refl that geo(1)])
  moreover have "\<not> used s g \<and> used t g" if "f \<le> g \<and> g < f + n" for g
    using that g r(6) geo(2) by (simp add: growing_def spare_pages_def bitmap_def)
  moreover have "kheap t = Some h2" using r(6) by (simp add: growing_def)
  then have "heap_state t (bs @ carved (block_size (unat sz) k) k)" "heap_base t = heap_base s"
    using r(4,5) base by (simp_all add: heap_state_def heap_base_def)
  moreover have "region (heap_base s + total bs + 12) (heap_base s + total bs + 12 + unat sz) \<inter> user_bytes (heap_base s) cs = {}"
    using r(2,8) by (fastforce simp: region_def)
  moreover have "growable (M - n) t" using r(6) by (rule growableI)
  ultimately show ?thesis
    using r(1,3,9) by (intro exI [of _ bs] exI [of _ k] exI [of _ t] exI [of _ f]) simp
qed

section \<open>Calls keep the room\<close>

lemma growing_frame:
  assumes g: "growing fa D T q x f M h s" and rep: "heap_rep h (mem s) cs" and st: "kheap t = Some h'" "same_heap h h'"
    and fr: "heap_frame (index_region h \<union> region lo hi) s t" "unat (start_address h) \<le> lo"
  shows "growing fa D T q x f M h' t"
proof -
  let ?oa = "unat (oa_array (index h))"
  have at: "heap_at h (mem s) cs (mset (holes (unat (start_address h)) cs))" using rep by (simp add: heap_rep_def)
  have "index_region h \<union> region lo hi \<subseteq> region ?oa (2 ^ 32)"
    using above_index [OF at order_refl] fr(2) unat32_bound by (auto simp: region_def)
  then have out: "same_outside (region ?oa (2 ^ 32)) (mem s) (mem t)"
    using fr(1) by (auto simp: heap_frame_def intro: same_outside_mono)
  obtain m k where t: "t = s\<lparr>mem := m, kheap := k\<rparr>" using fr(1) by (auto simp: heap_frame_def)
  show ?thesis by (rule growing_later [OF g st out order_refl]) (simp_all add: t)
qed

lemma growable_alloc:
  assumes "growable M s" "heap_state s cs" "fits sz cs" "alloc (Suc d) sz 0 s = Inr (p, t)"
  shows "growable M t"
proof -
  obtain h where h: "kheap s = Some h" "heap_rep h (mem s) cs" using assms(2) by (auto simp: heap_state_def)
  obtain fa D T q x f h0 where "growing fa D T q x f M h0 s" using assms(1) unfolding growable_def by blast
  with h(1) have g: "growing fa D T q x f M h s" by (simp add: growing_def)
  obtain k0 where "(True, k0) \<in> set cs" "unat sz + 20 \<le> k0" using assms(3) by (auto simp: fits_def)
  from alloc_rep [OF h this, of d] obtain pre k t' h' where
    r: "alloc (Suc d) sz 0 s = Inr (of_nat (unat (start_address h) + total pre + 12), t')" "kheap t' = Some h'" "same_heap h h'"
      "heap_frame (index_region h \<union> region (unat (start_address h) + total pre) (unat (start_address h) + total pre + k)) s t'" by blast
  have "t' = t" using r(1) assms(4) by simp
  with growing_frame [OF g h(2) r(2-4)] show ?thesis by (simp add: growableI)
qed

lemma growable_free:
  assumes "growable M s" "heap_state s (pre @ (False, n) # post)" "post \<noteq> []" "fst (hd post) \<longrightarrow> tl post = []"
    and "kfree (of_nat (heap_base s + total pre + 12)) s = Inr t"
  shows "growable M t"
proof -
  obtain h where h: "kheap s = Some h" "heap_rep h (mem s) (pre @ (False, n) # post)" using assms(2) by (auto simp: heap_state_def)
  obtain fa D T q x f h0 where "growing fa D T q x f M h0 s" using assms(1) unfolding growable_def by blast
  with h(1) have g: "growing fa D T q x f M h s" by (simp add: growing_def)
  have base: "heap_base s = unat (start_address h)" using h(1) by (simp add: heap_base_def)
  obtain pre' N where co: "coalesce pre n = (pre', N)" by fastforce
  from free_rep [OF h assms(3,4) co] obtain t' h' where
    r: "free (of_nat (unat (start_address h) + total pre + 12)) s = Inr t'" "kheap t' = Some h'" "same_heap h h'"
      "heap_frame (index_region h \<union> region (unat (start_address h) + total pre') (unat (start_address h) + total pre + n)) s t'" by blast
  have "t' = t" using r(1) assms(5) base by (simp add: kfree_def)
  with growing_frame [OF g h(2) r(2-4)] show ?thesis by (simp add: growableI)
qed

text \<open>The room that the initialisation leaves.\<close>

lemma init_growable:
  fixes s :: "'a kernel_scheme"
  assumes "kheap s = None" "placement_addr s = of_nat p" "0x1000 \<le> p" "p \<le> 0x3F0000" "read32 (mem s) 0xC0080FF8 \<noteq> HEAP_MAGIC"
  shows "\<exists>t. init_paging al s = Inr t \<and> heap_state t [(True, 0x7F000)] \<and> heap_base t = 0xC0081000 \<and> growable 512 t"
proof -
  from init_paging_run [OF assms, of al] obtain m N D h T where
    run: "init_paging al s = Inr (s\<lparr>nframes := 0x10000, placement_addr := of_nat (4096 * N) + 32,
      frame_allocations := of_nat p, kernel_directory := of_nat D, mem := m, current_directory := of_nat D,
      interrupt_handler := (interrupt_handler s)(14 := Some Page_fault), cr3 := of_nat (D + 4096), paging_on := True,
      kheap := Some h\<rparr>)" (is "_ = Inr ?t")
    and heap: "heap_rep h m [(True, 0x7F000)]" "start_address h = 0xC0081000" "oa_array (index h) = KHEAP_START"
      "end_address h = 0xC0100000" "max_address h = 0xCFFFF000" "oa_max_size (index h) = HEAP_INDEX_SIZE" "N < 1024"
    and T: "T + 4096 \<le> 4096 * N" "\<forall>t :: 'a kernel_scheme. frame_allocations t = of_nat p \<and> nframes t = 0x10000 \<and>
      kernel_directory t = of_nat D \<and> mem t = m \<longrightarrow> spare_pages p D T 768 256 (N + 257) t" by blast
  have "spare_pages p D T 768 256 (N + 257) ?t" using T(2) by simp
  then have "growing p D T 768 256 (N + 257) 512 h ?t"
    using heap T(1) by (simp add: growing_def page_addr_def)
  then have "growable 512 ?t" by (rule growableI)
  then show ?thesis using run heap by (intro exI [of _ ?t]) (simp add: heap_state_def heap_base_def)
qed

section \<open>All calls, with growth\<close>

text \<open>
  The abstract allocator with a budget of \<open>M\<close> pages: what the heap does without growing
  (\<open>chunk_step\<close>), and a request that no hole can serve, for which the heap grows by \<open>n\<close> pages.
\<close>

inductive arena_step :: "nat \<times> chunk list \<Rightarrow> nat \<times> chunk list \<Rightarrow> bool" where
  within: "chunk_step cs cs' \<Longrightarrow> arena_step (M, cs) (M, cs')"
| beyond: "n = (z + 20) div 4096 + 1 \<Longrightarrow> n \<le> M \<Longrightarrow> extensible cs \<Longrightarrow> (\<forall>k. (True, k) \<in> set cs \<longrightarrow> k < z + 20) \<Longrightarrow>
    grown (4096 * n) cs = bs @ [(True, k)] \<Longrightarrow> arena_step (M, cs) (M - n, bs @ carved (block_size z k) k)"

inductive_cases arena_stepE: "arena_step (M, cs) (M', cs')"









section \<open>A block behind the topmost hole\<close>

lemma write_block_any:
  assumes "kheap s = Some h" "oa_room (index h)"
  shows "\<exists>t. write_block p z hs s = Inr (p + 12, t)"
proof -
  have "\<exists>t. bindE (heap_insert x (s\<lparr>mem := m\<rparr>)) (\<lambda>s1. Inr (p + 12, s1)) = Inr (p + 12, t)" for x m
    using heap_insert_run [of "s\<lparr>mem := m\<rparr>" h x] assms by auto
  then show ?thesis
    unfolding write_block_def Let_def the_heap_def assms(1) option.case bindE_simps by (simp only: split: if_split) blast
qed

lemma carve_any:
  assumes k: "kheap s = Some h" and room: "oa_room (index h)" and i: "i < unat (oa_size (index h))"
    and p: "lookup_ordered_array (of_nat i) (index h) (mem s) = p"
  shows "\<exists>t. alloc_carve sz 0 (of_nat i) s = Inr (p + 12, t)"
proof -
  obtain m where rem: "heap_remove (of_nat i) s =
      Inr (s\<lparr>mem := m, kheap := Some (h\<lparr>index := index h\<lparr>oa_size := oa_size (index h) - 1\<rparr>\<rparr>)\<rparr>)" (is "_ = Inr ?s1")
    using heap_remove_run [OF k room i] by blast
  have "unat (oa_size (index h) - 1) + 1 = unat (oa_size (index h))" using i by (subst unat_sub32) simp_all
  then have room1: "oa_room (index (h\<lparr>index := index h\<lparr>oa_size := oa_size (index h) - 1\<rparr>\<rparr>))" (is "oa_room (index ?h1)")
    using room by (simp add: oa_room_def)
  have "\<exists>t. write_block p z hs ?s1 = Inr (p + 12, t)" for z hs by (rule write_block_any [OF _ room1]) simp
  then show ?thesis using rem k p by (simp add: alloc_carve_def the_heap_def Let_def)
qed

text \<open>The hole that was enlarged to \<open>K\<close> bytes is the one that the search finds.\<close>

lemma enlarged_found:
  assumes rep: "heap_rep h m (pre @ (True, j) # mid)" and used: "\<forall>c \<in> set mid. \<not> fst c" and idx: "index h' = index h"
    and no: "\<not> fits sz (pre @ (True, j) # mid)" and K: "unat sz + 20 \<le> K" "unat (start_address h) + total pre + K < 2 ^ 32"
  defines "a \<equiv> unat (start_address h) + total pre"
  shows "\<exists>i. find_smallest_hole (sz + 20) 0 h' (enlarged a K m) = Inr (of_nat i) \<and> (of_nat i :: u32) \<noteq> -1 \<and>
    i < unat (oa_size (index h)) \<and> lookup_ordered_array (of_nat i) (index h') (enlarged a K m) = of_nat a"
proof -
  let ?b = "unat (start_address h)" and ?cs = "pre @ (True, j) # mid" and ?m = "enlarged a K m" and ?es = "entries (index h) m"
  have at: "heap_at h m ?cs (mset (holes ?b ?cs))" using rep by (simp add: heap_rep_def)
  have "head_ok m a True j" using at by (simp add: heap_at_def a_def)
  from enlarged_ok [OF this, of K] K have big: "head_bytes ?m (of_nat a) = of_nat K" "same_outside (region a (a + K)) m ?m"
    by (simp_all add: head_ok_def a_def)
  have es: "entries (index h) ?m = ?es" by (rule entries_above [OF at big(2)]) (simp add: a_def)
  have "K < 2 ^ 32" using K(2) by simp
  then have u: "unat (sz + 20) = unat sz + 20" "unat (of_nat K :: u32) = K"
    using K(1) unat_add32 [of sz 20] unat_of_nat32 [of K] by simp_all
  have "hole_fits (sz + 20) 0 ?m (of_nat a)" using K(1) u by (simp add: hole_fits_0 big(1) word_le_nat_alt)
  moreover have "of_nat a \<in> set ?es" using hole_in_index [OF rep] unfolding a_def by (metis length_entries nth_mem)
  ultimately have "\<not> (\<forall>e \<in> set ?es. \<not> hole_fits (sz + 20) 0 ?m e)" by blast
  moreover have room: "oa_room (index h')" "entries (index h') ?m = ?es" "oa_size (index h') = oa_size (index h)"
    using heap_at_room(1) [OF at] es idx by simp_all
  moreover note find_smallest_hole_spec [OF room(1), of "sz + 20" 0 ?m, unfolded room(2,3)]
  ultimately obtain i where i: "i < unat (oa_size (index h))" "hole_fits (sz + 20) 0 ?m (?es ! i)"
      "find_smallest_hole (sz + 20) 0 h' ?m = Inr (of_nat i)" "(of_nat i :: u32) \<noteq> - 1" by blast
  from hole_entry [OF rep i(1)] obtain pre' k' post' where
    c: "?cs = pre' @ (True, k') # post'" "?es ! i = of_nat (?b + total pre')" by blast
  have "?es ! i = of_nat a"
  proof (rule ccontr)
    assume ne: "?es ! i \<noteq> of_nat a"
    have k': "head_ok m (?b + total pre') True k'" "20 \<le> k'" using at unfolding c(1) by (simp_all add: heap_at_def)
    from c(1) consider us where "pre = pre' @ us" "us @ (True, j) # mid = (True, k') # post'"
      | us where "pre' = pre @ us" "(True, j) # mid = us @ (True, k') # post'"
      by (auto simp: append_eq_append_conv2)
    then show False
    proof cases
      case 1
      then obtain us' where "pre = pre' @ (True, k') # us'" using ne c(2) by (cases us) (auto simp: a_def)
      then have le: "?b + total pre' + 12 \<le> a" "(True, k') \<in> set ?cs" using k'(2) by (auto simp: a_def)
      then have "head_bytes ?m (of_nat (?b + total pre')) = of_nat k'"
        using head_ok_cong [OF big(2), of "?b + total pre'" True k'] k'(1) K(2) by (simp add: head_ok_def a_def)
      moreover have "k' < unat sz + 20" using no le(2) by (auto simp: fits_def)
      ultimately show False using i(2) u(1) K unfolding c(2) by (simp add: hole_fits_0 word_le_nat_alt)
    next
      case 2
      then obtain us' where "mid = us' @ (True, k') # post'" using ne c(2) by (cases us) (auto simp: a_def)
      with used show False by simp
    qed
  qed
  then have "lookup_ordered_array (of_nat i) (index h') ?m = of_nat a"
    using lookup_entries [of "of_nat i" "index h" ?m] i(1) es idx unat32_bound [of "oa_size (index h)"]
    by (simp add: word_less_nat_alt)
  with i show ?thesis by blast
qed

text \<open>
  C34: Where the topmost hole is not the last chunk, growing the heap gives away memory in use. The
  conditions: only blocks follow that hole; no hole has room for the request, which need not be page-aligned; the heap can grow by the pages
  that it takes (their page table, frames and addresses are there); the request is larger than the
  hole, header and footer of the hole included; and the block right behind the hole has at least one byte for its
  user. Then \<^verbatim>\<open>alloc\<close> returns: the new space was added to the size of that hole although
  blocks lie in between, and the request is served from it, so that the block that is returned overlaps bytes of
  the users behind the hole.
\<close>

theorem growth_takes_used_block:
  assumes "heap_state s (pre @ (True, j) # (False, l) # post)" "\<forall>c \<in> set post. \<not> fst c"
    and "\<not> fits sz (pre @ (True, j) # (False, l) # post)" "growable M s" "(unat sz + 20) div 4096 + 1 \<le> M"
    and "j < unat sz" "20 < l"
  shows "\<exists>t. alloc (Suc (Suc d)) sz 0 s = Inr (of_nat (heap_base s + total pre + 12), t) \<and>
    region (heap_base s + total pre + 12) (heap_base s + total pre + 12 + unat sz) \<inter>
      user_bytes (heap_base s) (pre @ (True, j) # (False, l) # post) \<noteq> {}"
proof -
  let ?cs = "pre @ (True, j) # (False, l) # post" and ?r = "unat sz + 20"
  define n where "n = ?r div 4096 + 1"
  obtain h where h: "kheap s = Some h" "heap_rep h (mem s) ?cs" using assms(1) by (auto simp: heap_state_def)
  obtain fa D T q x f h0 where "growing fa D T q x f M h0 s" using assms(4) unfolding growable_def by blast
  with h(1) have g: "growing fa D T q x f M h s" by (simp add: growing_def)
  let ?b = "unat (start_address h)" and ?h1 = "h\<lparr>end_address := of_nat (page_addr q (x + n))\<rparr>"
  let ?a = "?b + total pre"
  have base: "heap_base s = ?b" using h(1) by (simp add: heap_base_def)
  have mid: "\<forall>c \<in> set ((False, l) # post). \<not> fst c" using assms(2) by simp
  have r: "0 < ?r" "?r div 4096 + 1 \<le> M" "?r < 4096 * n" using assms(5) by (simp_all add: n_def)
  from grow_over [OF g h(2) mid r(1,2), of "alloc (Suc d)", folded n_def] obtain m where
    m: "alloc_grow (alloc (Suc d)) (of_nat ?r) s = Inr (s\<lparr>mem := enlarged ?a (j + 4096 * n) m, kheap := Some ?h1\<rparr>)" (is "_ = Inr ?s1")
      "heap_rep h m ?cs" "unat (end_address ?h1) = unat (end_address h) + 4096 * n" by blast
  have at: "heap_at h m ?cs (mset (holes ?b ?cs))" using m(2) by (simp add: heap_rep_def)
  have len: "?a + j + l + total post = unat (end_address h)" "20 \<le> j" using hole_header(3,4) [OF at] by simp_all
  then have small: "?a + (j + 4096 * n) < 2 ^ 32" "?r < 2 ^ 32"
    using m(3) r(3) unat32_bound [of "end_address ?h1"] by simp_all
  have "unat sz + 20 \<le> j + 4096 * n" using r(3) by simp
  from enlarged_found [OF m(2) mid _ assms(3) this small(1), of ?h1] obtain i where
    i: "find_smallest_hole (sz + 20) 0 ?h1 (mem ?s1) = Inr (of_nat i)" "(of_nat i :: u32) \<noteq> -1" "i < unat (oa_size (index h))"
      "lookup_ordered_array (of_nat i) (index ?h1) (mem ?s1) = of_nat ?a" by auto
  have room: "oa_room (index ?h1)" using heap_at_room(1) [OF at] by simp
  from carve_any [OF _ room _ i(4), of sz] i(3) obtain t where t: "alloc_carve sz 0 (of_nat i) ?s1 = Inr (of_nat ?a + 12, t)" by auto
  have sz: "sz + 20 = of_nat ?r" "sz + 12 + 8 = sz + 20" by simp_all
  have "alloc (Suc d) sz 0 ?s1 = Inr (of_nat ?a + 12, t)"
    using i(1,2) t by (simp add: alloc_body_def the_heap_def Let_def sz(2))
  moreover have "alloc (Suc (Suc d)) sz 0 s = alloc (Suc d) sz 0 ?s1"
    by (rule alloc_again [OF h(1) no_fit [OF h(2) assms(3) small(2)]]) (rule m(1) [folded sz(1)])
  moreover have "of_nat (?a + j + 12) \<in> region (?a + 12) (?a + 12 + unat sz) \<inter> user_bytes ?b ?cs"
  proof -
    have "unat (of_nat (?a + j + 12) :: u32) = ?a + j + 12"
      using len(1) assms(7) unat32_bound [of "end_address h"] by (intro unat_of_nat32) simp
    then show ?thesis using assms(6,7) by (auto simp: region_def simp del: of_nat_add)
  qed
  ultimately show ?thesis unfolding base by (intro exI [of _ t]) auto
qed

section \<open>Examples\<close>

text \<open>
  After the initialisation every request below 2 MiB is served, at the start of the heap: from the
  hole that is there, or from the heap that has grown.
\<close>

lemma growable_start:
  "\<exists>s. init_paging (alloc 0) power_up = Inr s \<and> heap_state s [(True, 0x7F000)] \<and> heap_base s = 0xC0081000 \<and> growable 512 s"
proof -
  have "read32 (mem power_up) 0xC0080FF8 \<noteq> HEAP_MAGIC" by (simp add: read32_def)
  from init_growable [of power_up "0x200000" "alloc 0", OF _ _ _ _ this] show ?thesis by simp
qed

theorem alloc_grows_witness:
  "\<exists>s t. init_paging (alloc 0) power_up = Inr s \<and> alloc (Suc (Suc 0)) 0x100000 0 s = Inr (0xC008100C, t) \<and>
    heap_state t [(False, 0x100014), (True, 0x7FFEC)] \<and> growable 255 t"
proof -
  obtain s where s: "init_paging (alloc 0) power_up = Inr s" "heap_state s [(True, 0x7F000)]" "heap_base s = 0xC0081000" "growable 512 s"
    using growable_start by blast
  have "extensible [(True, 0x7F000)]" "\<not> fits 0x100000 [(True, 0x7F000)]" "257 = (unat (0x100000 :: u32) + 20) div 4096 + 1"
    "(257 :: nat) \<le> 512"
    by (simp_all add: extensible_def fits_def)
  from alloc_grows [OF s(2) this(1,2) s(4) this(3,4), of 0] obtain bs k t where
    t: "grown (4096 * 257) [(True, 0x7F000)] = bs @ [(True, k)]" "alloc (Suc (Suc 0)) 0x100000 0 s = Inr (of_nat (heap_base s + total bs + 12), t)"
      "heap_state t (bs @ carved (block_size (unat (0x100000 :: u32)) k) k)" "growable (512 - 257) t"
    by blast
  from t(1) have "bs = []" "k = 0x180000" by (simp_all add: grown_def)
  with s(1,3) t show ?thesis by (intro exI [of _ s] exI [of _ t]) (simp add: carved_def block_size_def del: alloc.simps)
qed

text \<open>A heap with a hole of 120 bytes in front of a block that fills the rest.\<close>

lemma hole_in_front:
  "\<exists>s :: kernel. heap_state s [(True, 120), (False, 0x7EF88)] \<and> heap_base s = 0xC0081000 \<and> growable 512 s"
proof -
  obtain s :: kernel where s: "heap_state s [(True, 0x7F000)]" "heap_base s = 0xC0081000" "growable 512 s"
    using growable_start by blast
  from heap.obtain_last [of s "[]" "0x7F000" 100 0] s(1,2) obtain s1 where
    s1: "alloc (Suc 0) 100 0 s = Inr (0xC008100C, s1)" "heap_state s1 [(False, 120), (True, 0x7EF88)]" "heap_base s1 = 0xC0081000"
    by auto
  have g1: "growable 512 s1" by (rule growable_alloc [OF s(3,1) _ s1(1)]) (simp add: fits_def)
  have f1: "fits 0x7EF74 [(False, 120), (True, 0x7EF88)]" by (simp add: fits_def)
  have "(True, 0x7EF88) \<in> set [(False, 120), (True, 0x7EF88)]" "unat (0x7EF74 :: u32) + 20 \<le> 0x7EF88" by simp_all
  from heap.obtain_spec [OF s1(2) this, of 0] obtain pre k post p s2 where
    s2: "alloc (Suc 0) 0x7EF74 0 s1 = Inr (p, s2)" "[(False, 120), (True, 0x7EF88)] = pre @ (True, k) # post"
      "heap_state s2 (pre @ carved (block_size (unat (0x7EF74 :: u32)) k) k @ post)" "heap_base s2 = heap_base s1" by blast
  from s2(2) have "pre = [(False, 120)]" "k = 0x7EF88" "post = []" by (auto simp: Cons_eq_append_conv)
  with s2(3) have st2: "heap_state s2 ([] @ (False, 120) # [(False, 0x7EF88)])" by (simp add: carved_def block_size_def)
  have g2: "growable 512 s2" by (rule growable_alloc [OF g1 s1(2) f1 s2(1)])
  from heap.release_spec [OF st2] obtain s3 where
    s3: "kfree (of_nat (heap_base s2 + total [] + 12)) s2 = Inr s3" "heap_state s3 (released [] 120 [(False, 0x7EF88)])"
      "heap_base s3 = heap_base s2" by auto
  have "growable 512 s3" by (rule growable_free [OF g2 st2 _ _ s3(1)]) simp_all
  moreover have "released [] 120 [(False, 0x7EF88)] = [(True, 120), (False, 0x7EF88)]"
    by (simp add: released_def coalesce_def left_hole_def)
  ultimately show ?thesis using s3(2,3) s2(4) s1(3) by (intro exI [of _ s3]) simp
qed

theorem growth_takes_used_block_witness:
  "\<exists>(s :: kernel) t. heap_state s [(True, 120), (False, 0x7EF88)] \<and> alloc (Suc (Suc 0)) 200 0 s = Inr (0xC008100C, t) \<and>
    region 0xC008100C (0xC008100C + 200) \<inter> user_bytes 0xC0081000 [(True, 120), (False, 0x7EF88)] \<noteq> {}"
proof -
  obtain s :: kernel where s: "heap_state s ([] @ (True, 120) # (False, 0x7EF88) # [])" "heap_base s = 0xC0081000" "growable 512 s"
    using hole_in_front by auto
  have "\<not> fits 200 ([] @ (True, 120) # (False, 0x7EF88) # [])" by (simp add: fits_def)
  moreover have "(unat (200 :: u32) + 20) div 4096 + 1 \<le> 512" "120 < unat (200 :: u32)" "\<forall>c \<in> set ([] :: chunk list). \<not> fst c" by simp_all
  ultimately obtain t where "alloc (Suc (Suc 0)) 200 0 s = Inr (of_nat (heap_base s + total [] + 12), t)"
    "region (heap_base s + total [] + 12) (heap_base s + total [] + 12 + unat (200 :: u32)) \<inter>
      user_bytes (heap_base s) ([] @ (True, 120) # (False, 0x7EF88) # []) \<noteq> {}"
    using growth_takes_used_block [OF s(1) _ _ s(3), of 200 0] by auto
  with s(1,2) show ?thesis by (intro exI [of _ s] exI [of _ t]) (simp del: alloc.simps user_bytes.simps)
qed


end
