(* ===== verification/Ramdisk.thy ===== *)
theory Ramdisk
  imports Kernel_State
begin

text \<open>
  The virtual file system, \<^verbatim>\<open>kernel/drivers/fs.c\<close>, and the ramdisk on it,
  \<^verbatim>\<open>kernel/drivers/initrd.c\<close>. Nodes, file headers and the directory entry are structures
  in memory, with the layout the compiler gives them (\<^verbatim>\<open>fs_node_t\<close> has 184 bytes,
  \<^verbatim>\<open>initrd_file_header_t\<close> 76 with three bytes of padding, \<^verbatim>\<open>struct dirent\<close> 124). A
  callback is the address of a function; the ramdisk's three functions, \<^verbatim>\<open>dirent\<close> and the
  variable \<^verbatim>\<open>root_nodes\<close> have the addresses in \<open>symbols\<close>. A call through a pointer to
  any other code is undefined here. The pointer variables are fields of the state.
\<close>

record symbols =
  initrd_read_at :: u32
  initrd_readdir_at :: u32
  initrd_finddir_at :: u32
  dirent_at :: u32
  root_nodes_at :: u32

record ramdisk = kernel +
  initrd_header :: u32
  file_headers :: u32
  initrd_root :: u32
  initrd_dev :: u32
  root_nodes :: u32
  nroot_nodes :: u32

section \<open>Layout\<close>

abbreviation FS_FILE :: u32 where "FS_FILE \<equiv> 0x01"
abbreviation FS_DIRECTORY :: u32 where "FS_DIRECTORY \<equiv> 0x02"
abbreviation node_size :: u32 where "node_size \<equiv> 184"
abbreviation file_header_size :: u32 where "file_header_size \<equiv> 76"

definition node_mask :: "u32 \<Rightarrow> u32" where [layout]: "node_mask p = p + 128"
definition node_uid :: "u32 \<Rightarrow> u32" where [layout]: "node_uid p = p + 132"
definition node_gid :: "u32 \<Rightarrow> u32" where [layout]: "node_gid p = p + 136"
definition node_flags :: "u32 \<Rightarrow> u32" where [layout]: "node_flags p = p + 140"
definition node_inode :: "u32 \<Rightarrow> u32" where [layout]: "node_inode p = p + 144"
definition node_length :: "u32 \<Rightarrow> u32" where [layout]: "node_length p = p + 148"
definition node_impl :: "u32 \<Rightarrow> u32" where [layout]: "node_impl p = p + 152"
definition node_read :: "u32 \<Rightarrow> u32" where [layout]: "node_read p = p + 156"
definition node_write :: "u32 \<Rightarrow> u32" where [layout]: "node_write p = p + 160"
definition node_open :: "u32 \<Rightarrow> u32" where [layout]: "node_open p = p + 164"
definition node_close :: "u32 \<Rightarrow> u32" where [layout]: "node_close p = p + 168"
definition node_readdir :: "u32 \<Rightarrow> u32" where [layout]: "node_readdir p = p + 172"
definition node_finddir :: "u32 \<Rightarrow> u32" where [layout]: "node_finddir p = p + 176"
definition node_ptr :: "u32 \<Rightarrow> u32" where [layout]: "node_ptr p = p + 180"

definition root_node :: "'a ramdisk_scheme \<Rightarrow> u32 \<Rightarrow> u32" where
  [layout]: "root_node s i = root_nodes s + node_size * i"

definition file_header :: "'a ramdisk_scheme \<Rightarrow> u32 \<Rightarrow> u32" where
  [layout]: "file_header s i = file_headers s + file_header_size * i"

definition file_name :: "u32 \<Rightarrow> u32" where [layout]: "file_name h = h + 1"
definition file_offset :: "u32 \<Rightarrow> u32" where [layout]: "file_offset h = h + 68"
definition file_length :: "u32 \<Rightarrow> u32" where [layout]: "file_length h = h + 72"

section \<open>The functions of the ramdisk\<close>

definition initrd_read ::
    "u32 \<Rightarrow> u32 \<Rightarrow> u32 \<Rightarrow> u32 \<Rightarrow> 'a ramdisk_scheme \<Rightarrow> kerror + u32 \<times> 'a ramdisk_scheme" where
  "initrd_read node offset sz buffer s =
     (let h = file_header s (read32 (mem s) (node_inode node));
          hoffset = read32 (mem s) (file_offset h); len = read32 (mem s) (file_length h)
      in if offset > len then Inr (0, s)
         else
           let sz = (if offset + sz > len then len - offset else sz)
           in Inr (sz, s\<lparr>mem := memcpy (mem s) buffer (At (hoffset + offset)) sz\<rparr>))"

definition initrd_readdir ::
    "symbols \<Rightarrow> u32 \<Rightarrow> u32 \<Rightarrow> 'a ramdisk_scheme \<Rightarrow> kerror + u32 \<times> 'a ramdisk_scheme" where
  "initrd_readdir syms node i s =
     (let d = dirent_at syms in
      if node = initrd_root s \<and> i = 0 then
        bindE (strcpy (mem s) d (Lit ''dev'')) (\<lambda>m.
          Inr (d, s\<lparr>mem := write32 (write8 m (d + 3) 0) (d + 120) 0\<rparr>))
      else if i - 1 \<ge> root_nodes_at syms then Inr (0, s)
      else
        let n = root_node s (i - 1) in
        bindE (strcpy (mem s) d (At n)) (\<lambda>m.
        bindE (strlen m (At n)) (\<lambda>len.
          let m = write8 m (d + len) 0
          in Inr (d, s\<lparr>mem := write32 m (d + 120) (read32 m (node_inode n))\<rparr>))))"

text \<open>The loop of \<^verbatim>\<open>initrd_finddir\<close>: \<open>Some\<close> of the node that is returned.\<close>

definition find_name :: "u32 \<Rightarrow> 'a ramdisk_scheme \<Rightarrow> kerror + u32 option" where
  "find_name name s =
     bindE (while_res (\<lambda>(i, r). r = None \<and> i < nroot_nodes s)
        (\<lambda>(i, r). bindE (strcmp (mem s) (At name) (At (root_node s i))) (\<lambda>c.
           Inr (if c = 0 then (i, Some (root_node s i)) else (i + 1, None))))
        (0, None))
       (\<lambda>(i, r). Inr r)"

definition initrd_finddir :: "u32 \<Rightarrow> u32 \<Rightarrow> 'a ramdisk_scheme \<Rightarrow> kerror + u32 \<times> 'a ramdisk_scheme" where
  "initrd_finddir node name s =
     bindE (if node = initrd_root s then
              bindE (strcmp (mem s) (At name) (Lit ''dev'')) (\<lambda>c. Inr (c = 0))
            else Inr False) (\<lambda>is_dev.
       if is_dev then Inr (initrd_dev s, s)
       else bindE (find_name name s) (\<lambda>r. Inr (case r of Some n \<Rightarrow> n | None \<Rightarrow> 0, s)))"

text \<open>
  The two blocks of \<^verbatim>\<open>init_ramdisk\<close> that fill a directory node are the same text: both write
  to \<^verbatim>\<open>initrd_root\<close>, although the second is meant for \<^verbatim>\<open>initrd_dev\<close>. The chained
  assignment stores from right to left.
\<close>

definition init_root :: "symbols \<Rightarrow> string \<Rightarrow> 'a ramdisk_scheme \<Rightarrow> kerror + 'a ramdisk_scheme" where
  "init_root syms name s =
     (let r = initrd_root s in
      bindE (strcpy (mem s) r (Lit name)) (\<lambda>m.
        let m = fold (\<lambda>a m. write32 m a 0)
                  [node_length r, node_inode r, node_gid r, node_uid r, node_mask r] m;
            m = write32 m (node_flags r) FS_DIRECTORY;
            m = fold (\<lambda>a m. write32 m a 0) [node_read r, node_write r, node_open r, node_close r] m;
            m = write32 m (node_readdir r) (initrd_readdir_at syms);
            m = write32 m (node_finddir r) (initrd_finddir_at syms);
            m = fold (\<lambda>a m. write32 m a 0) [node_ptr r, node_impl r] m
        in Inr (s\<lparr>mem := m\<rparr>)))"

definition init_file :: "symbols \<Rightarrow> u32 \<Rightarrow> u32 \<Rightarrow> 'a ramdisk_scheme \<Rightarrow> kerror + 'a ramdisk_scheme" where
  "init_file syms loc i s =
     (let h = file_header s i; n = root_node s i;
          m = write32 (mem s) (file_offset h) (read32 (mem s) (file_offset h) + loc)
      in bindE (strcpy m n (At (file_name h))) (\<lambda>m.
           let m = fold (\<lambda>a m. write32 m a 0) [node_gid n, node_uid n, node_mask n] m;
               m = write32 m (node_length n) (read32 m (file_length h));
               m = write32 m (node_inode n) i;
               m = write32 m (node_flags n) FS_FILE;
               m = write32 m (node_read n) (initrd_read_at syms);
               m = fold (\<lambda>a m. write32 m a 0)
                     [node_write n, node_readdir n, node_finddir n, node_open n, node_close n, node_impl n] m
           in Inr (s\<lparr>mem := m\<rparr>)))"

type_synonym 'a rd_allocator = "u32 \<Rightarrow> u8 \<Rightarrow> 'a ramdisk_scheme \<Rightarrow> kerror + u32 \<times> 'a ramdisk_scheme"

definition init_ramdisk :: "'a rd_allocator \<Rightarrow> symbols \<Rightarrow> u32 \<Rightarrow> 'a ramdisk_scheme \<Rightarrow> kerror + u32 \<times> 'a ramdisk_scheme" where
  "init_ramdisk al syms loc s =
     (let s = s\<lparr>initrd_header := loc, file_headers := loc + 4\<rparr> in
      bindE (kmalloc al node_size s) (\<lambda>(r, s).
      bindE (init_root syms ''initrd'' (s\<lparr>initrd_root := r\<rparr>)) (\<lambda>s.
      bindE (kmalloc al node_size s) (\<lambda>(d, s).
      bindE (init_root syms ''dev'' (s\<lparr>initrd_dev := d\<rparr>)) (\<lambda>s.
      bindE (kmalloc al (node_size * read32 (mem s) (initrd_header s)) s) (\<lambda>(rn, s).
      let s = s\<lparr>root_nodes := rn, nroot_nodes := read32 (mem s) (initrd_header s)\<rparr> in
      bindE (while_res (\<lambda>(i, s). i < read32 (mem s) (initrd_header s))
         (\<lambda>(i, s). bindE (init_file syms loc i s) (\<lambda>s. Inr (i + 1, s))) (0, s)) (\<lambda>(i, s).
      Inr (initrd_root s, s))))))))"

section \<open>The operations of fs.c\<close>

definition read_fs ::
    "symbols \<Rightarrow> u32 \<Rightarrow> u32 \<Rightarrow> u32 \<Rightarrow> u32 \<Rightarrow> 'a ramdisk_scheme \<Rightarrow> kerror + u32 \<times> 'a ramdisk_scheme" where
  "read_fs syms node offset sz buffer s =
     (let f = read32 (mem s) (node_read node) in
      if f \<noteq> 0 then
        (if f = initrd_read_at syms then initrd_read node offset sz buffer s
         else Inl (Undefined_behaviour ''callback''))
      else Inr (0, s))"

text \<open>No node of the kernel has a write, open or close callback: a call through one is undefined.\<close>

definition write_fs ::
    "u32 \<Rightarrow> u32 \<Rightarrow> u32 \<Rightarrow> u32 \<Rightarrow> 'a ramdisk_scheme \<Rightarrow> kerror + u32 \<times> 'a ramdisk_scheme" where
  "write_fs node offset sz buffer s =
     (if read32 (mem s) (node_write node) \<noteq> 0 then Inl (Undefined_behaviour ''callback'') else Inr (0, s))"

definition open_fs :: "u32 \<Rightarrow> 'a ramdisk_scheme \<Rightarrow> kerror + 'a ramdisk_scheme" where
  "open_fs node s =
     (if read32 (mem s) (node_open node) \<noteq> 0 then Inl (Undefined_behaviour ''callback'') else Inr s)"

definition close_fs :: "u32 \<Rightarrow> 'a ramdisk_scheme \<Rightarrow> kerror + 'a ramdisk_scheme" where
  "close_fs node s =
     (if read32 (mem s) (node_close node) \<noteq> 0 then Inl (Undefined_behaviour ''callback'') else Inr s)"

definition readdir_fs :: "symbols \<Rightarrow> u32 \<Rightarrow> u32 \<Rightarrow> 'a ramdisk_scheme \<Rightarrow> kerror + u32 \<times> 'a ramdisk_scheme" where
  "readdir_fs syms node i s =
     (let f = read32 (mem s) (node_readdir node) in
      if read32 (mem s) (node_flags node) AND 0x7 = FS_DIRECTORY \<and> f \<noteq> 0 then
        (if f = initrd_readdir_at syms then initrd_readdir syms node i s
         else Inl (Undefined_behaviour ''callback''))
      else Inr (0, s))"

definition finddir_fs :: "symbols \<Rightarrow> u32 \<Rightarrow> u32 \<Rightarrow> 'a ramdisk_scheme \<Rightarrow> kerror + u32 \<times> 'a ramdisk_scheme" where
  "finddir_fs syms node name s =
     (let f = read32 (mem s) (node_finddir node) in
      if read32 (mem s) (node_flags node) AND 0x7 = FS_DIRECTORY \<and> f \<noteq> 0 then
        (if f = initrd_finddir_at syms then initrd_finddir node name s
         else Inl (Undefined_behaviour ''callback''))
      else Inr (0, s))"

section \<open>Reading\<close>

text \<open>The header of the file of a node: where its bytes are and how many.\<close>

definition header_of :: "'a ramdisk_scheme \<Rightarrow> u32 \<Rightarrow> u32" where
  "header_of s node = file_header s (read32 (mem s) (node_inode node))"

definition data_of :: "'a ramdisk_scheme \<Rightarrow> u32 \<Rightarrow> u32" where
  "data_of s node = read32 (mem s) (file_offset (header_of s node))"

definition length_of :: "'a ramdisk_scheme \<Rightarrow> u32 \<Rightarrow> u32" where
  "length_of s node = read32 (mem s) (file_length (header_of s node))"

lemma initrd_read_run:
  "initrd_read node off n buffer s =
     (if off > length_of s node then Inr (0, s)
      else let k = (if off + n > length_of s node then length_of s node - off else n)
        in Inr (k, s\<lparr>mem := memcpy (mem s) buffer (At (data_of s node + off)) k\<rparr>))"
  by (simp add: initrd_read_def Let_def header_of_def data_of_def length_of_def)

section \<open>Searching\<close>

text \<open>The loop looks at the nodes in order.\<close>

definition named :: "'a ramdisk_scheme \<Rightarrow> (nat \<Rightarrow> u8 list) \<Rightarrow> bool" where
  "named s names \<longleftrightarrow> (\<forall>i < unat (nroot_nodes s). cstr (mem s) (At (root_node s (of_nat i))) (names i))"

lemma find_name_run:
  assumes nodes: "named s names" and name: "cstr (mem s) (At name) bs"
  shows "find_name name s = Inr (map_option (\<lambda>i. root_node s (of_nat i))
    (find (\<lambda>i. names i = bs) [0..<unat (nroot_nodes s)]))"
proof -
  let ?n = "unat (nroot_nodes s)"
  let ?loop = "while_res (\<lambda>(i, r). r = None \<and> i < nroot_nodes s)
        (\<lambda>(i, r). bindE (strcmp (mem s) (At name) (At (root_node s i))) (\<lambda>c.
           Inr (if c = 0 then (i, Some (root_node s i)) else (i + 1, None))))"
  have "i \<le> ?n \<Longrightarrow> \<exists>j. ?loop (of_nat i, None) = Inr (j, map_option (\<lambda>i. root_node s (of_nat i))
      (find (\<lambda>i. names i = bs) [i..<?n]))" for i
  proof (induction "?n - i" arbitrary: i)
    case 0
    then have "i = ?n" by simp
    then show ?case by simp
  next
    case (Suc k)
    then have i: "i < ?n" by simp
    then have lt: "(of_nat i :: u32) < nroot_nodes s"
      using unat32_bound [of "nroot_nodes s"] by (simp add: word_less_nat_alt)
    have upt: "[i..<?n] = i # [Suc i..<?n]" using i by (simp add: upt_conv_Cons)
    have "cstr (mem s) (At (root_node s (of_nat i))) (names i)" using nodes i by (simp add: named_def)
    from strcmp_zero [OF name this] obtain d where
      d: "strcmp (mem s) (At name) (At (root_node s (of_nat i))) = Inr d" "d = 0 \<longleftrightarrow> bs = names i" by blast
    show ?case
    proof (cases "names i = bs")
      case True
      then have "?loop (of_nat i, None) = Inr (of_nat i, Some (root_node s (of_nat i)))"
        using lt d by (subst while_res_step [where s' = "(of_nat i, Some (root_node s (of_nat i)))"]) simp_all
      with True show ?thesis unfolding upt by simp
    next
      case False
      then have "?loop (of_nat i, None) = ?loop (of_nat (Suc i), None)"
        using lt d by (intro while_res_step) (simp_all add: add.commute)
      moreover have "k = ?n - Suc i" "Suc i \<le> ?n" using Suc.hyps(2) i by simp_all
      ultimately show ?thesis using Suc.hyps(1) [of "Suc i"] False unfolding upt by simp
    qed
  qed
  from this [of 0] show ?thesis by (auto simp: find_name_def)
qed

section \<open>Initialisation\<close>

lemma cstr_At_keep:
  assumes "cstr m (At a) bs" "same_outside (span b k) m m'" "apart (of_nat (Suc (length bs))) a k b"
    and "Suc (length bs) < 2 ^ 32"
  shows "cstr m' (At a) bs"
proof -
  have eq: "byte_at m' (At a) (of_nat i) = byte_at m (At a) (of_nat i)" if "i \<le> length bs" for i
    using assms(2-4) that of_nat_less32 [of i "Suc (length bs)"]
    by (intro ptr_apart_byte_at) (auto simp del: of_nat_Suc)
  show ?thesis
    using cstr_nth [OF assms(1)] cstr_end [OF assms(1)] cstr_nonzero [OF assms(1)] eq
    by (intro cstrI) (simp_all only: less_imp_le order_refl not_False_eq_True)
qed

text \<open>The eleven words behind the name, in the order they are written.\<close>

lemma node_words_frame:
  "n \<in> {128, 132, 136, 140, 144, 148, 152, 156, 160, 164, 168, 172, 176, 180} \<Longrightarrow>
   same_outside (span (r + 128) 56) m m1 \<Longrightarrow> same_outside (span (r + 128) 56) m (write32 m1 (r + n) v)"
proof -
  assume n: "n \<in> {128, 132, 136, 140, 144, 148, 152, 156, 160, 164, 168, 172, 176, 180}"
    and "same_outside (span (r + 128) 56) m m1"
  moreover have "same_outside (span (r + 128) 56) m1 (write32 m1 (r + n) v)"
    unfolding same_outside_def
  proof (intro allI impI)
    fix x assume x: "x \<notin> span (r + 128) 56"
    have "\<not> x - (r + n) < 4"
    proof
      assume lt: "x - (r + n) < 4"
      define d where "d = x - (r + n)"
      have eq: "x - (r + 128) = d + (n - 128)" by (simp add: d_def)
      have "unat d < 4" using lt by (simp add: d_def word_less_nat_alt)
      moreover have "unat (n - 128) \<le> 52" using n by auto
      ultimately have "unat (d + (n - 128)) < 56" by (subst unat_add32) auto
      then have "x - (r + 128) < 56" unfolding eq by (simp add: word_less_nat_alt)
      with x show False by (simp add: span_def)
    qed
    then show "write32 m1 (r + n) v x = m1 x" by (rule write32_outside)
  qed
  ultimately show ?thesis using same_outside_trans by blast
qed

lemma init_root_run:
  assumes "proper_lit name" "length name < 128" "unat (initrd_root s) + 184 \<le> 2 ^ 32"
  shows "\<exists>m. init_root syms name s = Inr (s\<lparr>mem := m\<rparr>) \<and> cstr m (At (initrd_root s)) (lit_bytes name) \<and>
    same_outside (span (initrd_root s) 184) (mem s) m \<and>
    read32 m (node_flags (initrd_root s)) = FS_DIRECTORY \<and>
    read32 m (node_readdir (initrd_root s)) = initrd_readdir_at syms \<and>
    read32 m (node_finddir (initrd_root s)) = initrd_finddir_at syms \<and>
    read32 m (node_read (initrd_root s)) = 0"
proof -
  let ?r = "initrd_root s" and ?n = "Suc (length (lit_bytes name))"
  have len: "length (lit_bytes name) = length name" by (simp add: lit_bytes_def)
  from strcpy_cstr [OF cstr_Lit [OF assms(1), of "mem s"], of ?r] assms(2) len obtain m1 where
    m1: "strcpy (mem s) ?r (Lit name) = Inr m1" "cstr m1 (At ?r) (lit_bytes name)"
      "same_outside (span ?r (of_nat ?n)) (mem s) m1" by auto
  let ?w = "\<lambda>n v m. write32 m (?r + n) v"
  define m where "m = ?w 152 0 (?w 180 0 (?w 176 (initrd_finddir_at syms) (?w 172 (initrd_readdir_at syms)
     (?w 168 0 (?w 164 0 (?w 160 0 (?w 156 0 (?w 140 FS_DIRECTORY (?w 128 0 (?w 132 0 (?w 136 0
     (?w 144 0 (?w 148 0 m1)))))))))))))"
  have run: "init_root syms name s = Inr (s\<lparr>mem := m\<rparr>)"
    using m1(1) by (simp add: init_root_def Let_def layout m_def)
  have out: "same_outside (span (?r + 128) 56) m1 m"
    unfolding m_def by (intro node_words_frame same_outside_refl) simp_all
  have un: "unat (?r + 128) = unat ?r + 128" using assms(3) by (subst unat_add32) auto
  have n32: "unat (of_nat ?n :: u32) = ?n" using assms(2) len by (intro unat_of_nat32) simp
  have "apart (of_nat ?n) ?r 56 (?r + 128)"
    using un n32 assms(2,3) len by (intro apart_below) (simp_all add: word_less_nat_alt del: of_nat_Suc)
  from cstr_At_keep [OF m1(2) out this] assms(2) len have "cstr m (At ?r) (lit_bytes name)" by simp
  moreover have "span ?r (of_nat ?n) \<subseteq> span ?r 184"
    using n32 assms(2) len by (intro span_mono) (simp add: word_le_nat_alt del: of_nat_Suc)
  moreover have "span (?r + 128) 56 \<subseteq> span ?r 184"
  proof
    fix x assume "x \<in> span (?r + 128) 56"
    then have "unat (x - (?r + 128)) < 56" by (simp add: span_def word_less_nat_alt)
    then have "unat ((x - (?r + 128)) + 128) < 184" by (subst unat_add32) auto
    moreover have "(x - (?r + 128)) + 128 = x - ?r" by simp
    ultimately show "x \<in> span ?r 184" by (simp add: span_def word_less_nat_alt)
  qed
  then have "same_outside (span ?r 184) (mem s) m"
    using calculation(2) m1(3) out by (meson same_outside_mono same_outside_trans)
  moreover have "read32 m (node_flags ?r) = FS_DIRECTORY" "read32 m (node_readdir ?r) = initrd_readdir_at syms"
    "read32 m (node_finddir ?r) = initrd_finddir_at syms" "read32 m (node_read ?r) = 0"
    unfolding m_def layout by (simp_all add: read32_write32_apart apart_def)
  ultimately show ?thesis using run by blast
qed

text \<open>A ramdisk with one file, \<^verbatim>\<open>a\<close>, of four bytes at 0x4000, for the examples.\<close>

definition demo_symbols :: symbols where
  "demo_symbols = \<lparr>initrd_read_at = 0x100000, initrd_readdir_at = 0x100100, initrd_finddir_at = 0x100200,
     dirent_at = 0x5000, root_nodes_at = 0x6000\<rparr>"

definition demo_disk :: ramdisk where
  "demo_disk = \<lparr>mem = write8 (write32 (write32 (write32 (write32 (write32 (write32 (\<lambda>a. 0)
       0x2044 0x4000) 0x2048 4) 0x108C FS_DIRECTORY) 0x10B0 0x100200) 0x309C 0x100000) 0x4000 0x2A2A2A2A) 0x3000 0x61,
     port_out = [], port_in = (\<lambda>n p. 0), port_reads = 0,
     interrupts_on = False, fb_col = 1, fb_row = 0, placement_addr = 0x200000, kheap = None,
     frame_allocations = 0, nframes = 0, kernel_directory = 0, current_directory = 0,
     gdt_entries = [], gdtr = None, idt_entries = [], idtr = None,
     interrupt_handler = (\<lambda>n. None), tick = 0, command = 0x1F0000, temp = 0x1F0200,
     cmd_index = 0, shiftdown = 0, cr3 = 0, paging_on = False,
     initrd_header = 0x1FFC, file_headers = 0x2000, initrd_root = 0x1000, initrd_dev = 0x1100,
     root_nodes = 0x3000, nroot_nodes = 1\<rparr>"

lemma demo_disk_fields [simp]:
  "file_headers demo_disk = 0x2000" "initrd_root demo_disk = 0x1000" "initrd_dev demo_disk = 0x1100"
  "root_nodes demo_disk = 0x3000" "nroot_nodes demo_disk = 1"
  by (simp_all add: demo_disk_def)

lemma demo_disk_words:
  "read32 (mem demo_disk) 0x2044 = 0x4000" "read32 (mem demo_disk) 0x2048 = 4"
  "read32 (mem demo_disk) 0x108C = FS_DIRECTORY" "read32 (mem demo_disk) 0x10B0 = 0x100200"
  "read32 (mem demo_disk) 0x309C = 0x100000" "read32 (mem demo_disk) 0x3090 = 0"
  "mem demo_disk 0x4001 = 0x2A" "mem demo_disk 0x3000 = 0x61" "mem demo_disk 0x3001 = 0"
  by (simp_all add: demo_disk_def read32_def write32_def write8_def)

section \<open>Properties\<close>

text \<open>
  C20: Reading a file through the file system: for a node with the ramdisk's callback, an
  offset inside the file, and a request whose end does not pass \<open>2 ^ 32\<close>, exactly the bytes
  of the file from the offset on are copied, as many as were requested or as the file has left;
  nothing else changes. Beyond the end of the file the result is 0 and memory is unchanged.
\<close>

theorem read_fs_bytes:
  assumes "read32 (mem s) (node_read node) = initrd_read_at syms" "initrd_read_at syms \<noteq> 0"
    and "unat off + unat n < 2 ^ 32" "apart n (data_of s node + off) n buffer"
  shows "(length_of s node < off \<longrightarrow> read_fs syms node off n buffer s = Inr (0, s)) \<and>
    (off \<le> length_of s node \<longrightarrow> (\<exists>k m. read_fs syms node off n buffer s = Inr (k, s\<lparr>mem := m\<rparr>) \<and>
       unat k = min (unat n) (unat (length_of s node) - unat off) \<and>
       (\<forall>i < k. m (buffer + i) = mem s (data_of s node + off + i)) \<and> same_outside (span buffer k) (mem s) m))"
proof -
  let ?L = "length_of s node" and ?src = "data_of s node + off"
  have run: "read_fs syms node off n buffer s = initrd_read node off n buffer s"
    using assms(1,2) by (simp add: read_fs_def)
  let ?k = "if off + n > ?L then ?L - off else n"
  have "\<exists>k m. read_fs syms node off n buffer s = Inr (k, s\<lparr>mem := m\<rparr>) \<and> unat k = min (unat n) (unat ?L - unat off) \<and>
      (\<forall>i < k. m (buffer + i) = mem s (?src + i)) \<and> same_outside (span buffer k) (mem s) m" if "off \<le> ?L"
  proof -
    have sum: "unat (off + n) = unat off + unat n" by (rule unat_add32 [OF assms(3)])
    have k: "unat ?k = min (unat n) (unat ?L - unat off)"
      using that sum by (auto simp: word_less_nat_alt word_le_nat_alt unat_sub)
    then have "?k \<le> n" unfolding word_le_nat_alt by simp
    then have "ptr_apart ?k (At ?src) ?k buffer"
      using assms(4) by (simp only: ptr_apart.simps apart_def) (meson order_trans)
    note copy = memcpy_read [OF this, of "mem s"]
    have "read_fs syms node off n buffer s = Inr (?k, s\<lparr>mem := memcpy (mem s) buffer (At ?src) ?k\<rparr>)"
      using that run by (simp add: initrd_read_run Let_def not_less [symmetric])
    moreover have "\<forall>i < ?k. memcpy (mem s) buffer (At ?src) ?k (buffer + i) = mem s (?src + i)"
      unfolding copy by (simp add: read8_def)
    ultimately show ?thesis using k memcpy_same_outside by blast
  qed
  moreover have "length_of s node < off \<longrightarrow> read_fs syms node off n buffer s = Inr (0, s)"
    using run by (simp add: initrd_read_run)
  ultimately show ?thesis by blast
qed

text \<open>
  The bounds check of \<^verbatim>\<open>initrd_read\<close> can be passed by overflow: if the end of the
  request wraps around to a value inside the file, the call copies the whole request, which is
  more than the file has left, and reports that many bytes.
\<close>

theorem read_past_end:
  assumes "off \<le> length_of s node" "2 ^ 32 \<le> unat off + unat n" "off + n \<le> length_of s node"
  shows "initrd_read node off n buffer s =
      Inr (n, s\<lparr>mem := memcpy (mem s) buffer (At (data_of s node + off)) n\<rparr>) \<and>
    unat (length_of s node) - unat off < unat n"
proof -
  have "unat (length_of s node) < 2 ^ 32" by (rule unat32_bound)
  with assms(2) assms(1) [unfolded word_le_nat_alt]
  have "unat (length_of s node) - unat off < unat n" by linarith
  with assms(1,3) show ?thesis by (simp add: initrd_read_run Let_def not_less [symmetric])
qed

text \<open>
  C21: Looking a name up in the root directory: \<^verbatim>\<open>dev\<close> yields the device directory, any
  other name the first file node with exactly that name, and null if there is none.
\<close>

theorem finddir_first_match:
  assumes "named s names" "cstr (mem s) (At name) bs"
    and "read32 (mem s) (node_finddir (initrd_root s)) = initrd_finddir_at syms" "initrd_finddir_at syms \<noteq> 0"
    and "read32 (mem s) (node_flags (initrd_root s)) = FS_DIRECTORY"
  shows "finddir_fs syms (initrd_root s) name s =
    Inr (if bs = lit_bytes ''dev'' then initrd_dev s
         else (case find (\<lambda>i. names i = bs) [0..<unat (nroot_nodes s)] of
                 None \<Rightarrow> 0 | Some i \<Rightarrow> root_node s (of_nat i)), s)"
proof -
  have "proper_lit ''dev''" by (simp add: proper_lit_def)
  from strcmp_zero [OF assms(2) cstr_Lit [OF this]] obtain d where
    d: "strcmp (mem s) (At name) (Lit ''dev'') = Inr d" "d = 0 \<longleftrightarrow> bs = lit_bytes ''dev''" by blast
  have "read32 (mem s) (node_flags (initrd_root s)) AND 7 = FS_DIRECTORY" using assms(5) by simp
  then have "finddir_fs syms (initrd_root s) name s = initrd_finddir (initrd_root s) name s"
    using assms(3,4) by (simp add: finddir_fs_def)
  then show ?thesis
    using d find_name_run [OF assms(1,2)] by (simp add: initrd_finddir_def split: option.split)
qed

theorem read_fs_bytes_witness:
  "\<exists>k m. read_fs demo_symbols 0x3000 1 10 0x7000 demo_disk = Inr (k, demo_disk\<lparr>mem := m\<rparr>) \<and>
    unat k = 3 \<and> m 0x7000 = 0x2A"
proof -
  have facts: "length_of demo_disk 0x3000 = 4" "data_of demo_disk 0x3000 = 0x4000"
    "read32 (mem demo_disk) (node_read 0x3000) = initrd_read_at demo_symbols" "initrd_read_at demo_symbols \<noteq> 0"
    by (simp_all add: length_of_def data_of_def header_of_def layout demo_disk_words demo_symbols_def)
  have "apart 10 (data_of demo_disk 0x3000 + 1) 10 0x7000" unfolding facts by (simp add: apart_def)
  from read_fs_bytes [OF facts(3,4) _ this] obtain k m where
    r: "read_fs demo_symbols 0x3000 1 10 0x7000 demo_disk = Inr (k, demo_disk\<lparr>mem := m\<rparr>)" "unat k = 3"
      "\<forall>i < k. m (0x7000 + i) = mem demo_disk (0x4001 + i)"
    unfolding facts by auto
  have "0 < k" using r(2) by (simp add: word_less_nat_alt)
  with r(3) have "m (0x7000 + 0) = mem demo_disk (0x4001 + 0)" by blast
  with r demo_disk_words show ?thesis by (intro exI [of _ k] exI [of _ m]) simp
qed

theorem read_past_end_witness:
  "\<exists>s'. initrd_read 0x3000 1 0xFFFFFFFF 0x7000 demo_disk = Inr (0xFFFFFFFF, s')"
proof -
  have "length_of demo_disk 0x3000 = 4"
    by (simp add: length_of_def header_of_def layout demo_disk_words)
  with read_past_end [of 1 demo_disk "0x3000" "0xFFFFFFFF" "0x7000"] show ?thesis by (simp add: one_le_word)
qed

theorem finddir_first_match_witness:
  "finddir_fs demo_symbols 0x1000 0x3000 demo_disk = Inr (0x3000, demo_disk)"
proof -
  have a: "cstr (mem demo_disk) (At 0x3000) [0x61]"
    by (simp add: cstr_def read8_def demo_disk_words)
  then have "named demo_disk (\<lambda>i. [0x61])" by (simp add: named_def layout)
  from finddir_first_match [OF this a, of demo_symbols] show ?thesis
    by (simp add: layout demo_disk_words demo_symbols_def lit_bytes_def)
qed

lemma kmalloc_before_heap:
  "kheap s = None \<Longrightarrow> kmalloc al n s = Inr (placement_addr s, s\<lparr>placement_addr := placement_addr s + n\<rparr>)"
  by (simp add: kmalloc_def kmalloc_int_def)

text \<open>
  \<^verbatim>\<open>init_ramdisk\<close> never initialises the device directory: for an image without files it
  returns the root directory, whose name is \<^verbatim>\<open>dev\<close>, because the second block overwrites the
  first; the node that \<^verbatim>\<open>initrd_dev\<close> points to holds what memory held before.
\<close>

theorem ramdisk_dev_uninitialised:
  assumes "kheap s = None" "unat (placement_addr s) + 368 < 2 ^ 32"
    and "read32 (mem s) loc = 0" "apart 184 (placement_addr s) 4 loc"
  shows "\<exists>s'. init_ramdisk al syms loc s = Inr (placement_addr s, s') \<and> initrd_root s' = placement_addr s \<and>
    cstr (mem s') (At (initrd_root s')) (lit_bytes ''dev'') \<and> initrd_dev s' = placement_addr s + 184 \<and>
    (\<forall>i < 184. mem s' (initrd_dev s' + i) = mem s (initrd_dev s' + i))"
proof -
  let ?p = "placement_addr s"
  define s0 where "s0 = s\<lparr>initrd_header := loc, file_headers := loc + 4\<rparr>"
  define s1 where "s1 = s0\<lparr>placement_addr := ?p + 184, initrd_root := ?p\<rparr>"
  have s1: "initrd_root s1 = ?p" "mem s1 = mem s" "kheap s1 = None" "placement_addr s1 = ?p + 184"
    "initrd_header s1 = loc" using assms(1) by (simp_all add: s1_def s0_def)
  have fit: "unat (initrd_root s1) + 184 \<le> 2 ^ 32" using assms(2) s1(1) by simp
  have lits: "proper_lit ''initrd''" "length ''initrd'' < 128" "proper_lit ''dev''" "length ''dev'' < 128"
    by (simp_all add: proper_lit_def)
  from init_root_run [OF lits(1,2) fit, of syms] obtain m1 where
    m1: "init_root syms ''initrd'' s1 = Inr (s1\<lparr>mem := m1\<rparr>)" "same_outside (span ?p 184) (mem s) m1"
    unfolding s1 by auto
  have step0: "kmalloc al 184 s0 = Inr (?p, s0\<lparr>placement_addr := ?p + 184\<rparr>)"
    using assms(1) kmalloc_before_heap [of s0] by (simp add: s0_def)
  define s2 where "s2 = s1\<lparr>mem := m1, placement_addr := 368 + ?p, initrd_dev := ?p + 184\<rparr>"
  have step1: "kmalloc al 184 (s1\<lparr>mem := m1\<rparr>) =
      Inr (?p + 184, s1\<lparr>mem := m1, placement_addr := 368 + ?p\<rparr>)"
    using s1 kmalloc_before_heap [of "s1\<lparr>mem := m1\<rparr>"] by simp
  have s2: "initrd_root s2 = ?p" "mem s2 = m1" "kheap s2 = None" "initrd_header s2 = loc" "initrd_dev s2 = ?p + 184"
    using s1 by (simp_all add: s2_def)
  have fit2: "unat (initrd_root s2) + 184 \<le> 2 ^ 32" using fit s1 s2 by simp
  from init_root_run [OF lits(3,4) fit2, of syms] obtain m2 where
    m2: "init_root syms ''dev'' s2 = Inr (s2\<lparr>mem := m2\<rparr>)" "same_outside (span ?p 184) m1 m2"
      "cstr m2 (At ?p) (lit_bytes ''dev'')"
    unfolding s2 by auto
  have out: "same_outside (span ?p 184) (mem s) m2" by (rule same_outside_trans [OF m1(2) m2(2)])
  have none: "read32 m2 loc = 0" using same_outside_span_read32 [OF out assms(4)] assms(3) by simp
  let ?s3 = "s2\<lparr>mem := m2, placement_addr := placement_addr s2 + 0, root_nodes := placement_addr s2, nroot_nodes := 0\<rparr>"
  have step2: "kmalloc al 0 (s2\<lparr>mem := m2\<rparr>) =
      Inr (placement_addr s2, s2\<lparr>mem := m2, placement_addr := placement_addr s2 + 0\<rparr>)"
    using s2 kmalloc_before_heap [of "s2\<lparr>mem := m2\<rparr>"] by simp
  have "init_ramdisk al syms loc s = Inr (?p, ?s3)"
    using m1(1) m2(1) step2 none s2(1,4)
    by (simp add: init_ramdisk_def Let_def step0 step1 flip: s0_def s1_def s2_def)
  moreover have "mem ?s3 (?p + 184 + i) = mem s (?p + 184 + i)" if "i < 184" for i
  proof -
    have "unat (?p + 184) = unat ?p + 184" using assms(2) by (subst unat_add32) auto
    then have "apart 184 ?p 184 (?p + 184)" using assms(2) by (intro apart_below) auto
    then have "?p + 184 + i \<notin> span ?p 184"
      using span_disjoint [of 184 ?p 184 "?p + 184"] in_span [OF that, of "?p + 184"] by blast
    with out show ?thesis by (simp add: same_outside_def)
  qed
  ultimately show ?thesis using m2(3) s2 by (intro exI [of _ ?s3]) simp
qed

theorem ramdisk_dev_uninitialised_witness:
  "\<exists>s'. init_ramdisk (\<lambda>n al s. Inl Diverges) demo_symbols 0x1000 (demo_disk\<lparr>mem := \<lambda>a. 0\<rparr>) = Inr (0x200000, s') \<and>
    cstr (mem s') (At 0x200000) (lit_bytes ''dev'') \<and> mem s' (initrd_dev s' + 0) = 0"
proof -
  let ?s = "demo_disk\<lparr>mem := \<lambda>a. 0\<rparr>"
  have f: "kheap ?s = None" "placement_addr ?s = 0x200000" "read32 (mem ?s) 0x1000 = 0"
    by (simp_all add: demo_disk_def read32_def)
  have "unat (placement_addr ?s) + 368 < 2 ^ 32" "apart 184 (placement_addr ?s) 4 0x1000"
    unfolding f by (simp_all add: apart_def)
  from ramdisk_dev_uninitialised [OF f(1) this(1) f(3) this(2), of "\<lambda>n al s. Inl Diverges" demo_symbols]
  obtain s' where s': "init_ramdisk (\<lambda>n al s. Inl Diverges) demo_symbols 0x1000 ?s = Inr (0x200000, s')"
    "initrd_root s' = 0x200000" "cstr (mem s') (At (initrd_root s')) (lit_bytes ''dev'')"
    "\<forall>i < 184. mem s' (initrd_dev s' + i) = mem ?s (initrd_dev s' + i)"
    unfolding f(2) by blast
  have "mem s' (initrd_dev s' + 0) = 0" using s'(4) [rule_format, of 0] by simp
  with s' show ?thesis by (intro exI [of _ s']) simp
qed

end
