(* ===== verification/Time.thy ===== *)
theory Time
  imports Machine
begin

text \<open>
  The real time clock, \<^verbatim>\<open>kernel/libc/time.c\<close>. The macro \<^verbatim>\<open>BCD_CONVERTER\<close> mentions its
  argument twice, and the argument is a call of \<^verbatim>\<open>reg_status\<close>: the register is read twice,
  once for each digit (here in the order of the text; C leaves it open).
\<close>

section \<open>The operations\<close>

abbreviation CMOS_ADDRESS :: u16 where "CMOS_ADDRESS \<equiv> 0x70"
abbreviation CMOS_DATA :: u16 where "CMOS_DATA \<equiv> 0x71"
abbreviation TIME_R_YEAR :: u32 where "TIME_R_YEAR \<equiv> 0x09"
abbreviation TIME_R_MONTH :: u32 where "TIME_R_MONTH \<equiv> 0x08"
abbreviation TIME_R_DAY :: u32 where "TIME_R_DAY \<equiv> 0x07"
abbreviation TIME_R_HOUR :: u32 where "TIME_R_HOUR \<equiv> 0x06"
abbreviation TIME_R_MINUTE :: u32 where "TIME_R_MINUTE \<equiv> 0x05"
abbreviation TIME_R_SECOND :: u32 where "TIME_R_SECOND \<equiv> 0x04"

record time_t =
  second :: u8
  minute :: u8
  hour :: u8
  day :: u8
  month :: u8
  year :: u8

definition is_cmos_updated :: "'a machine_scheme \<Rightarrow> u8 \<times> 'a machine_scheme" where
  "is_cmos_updated s = (case inb CMOS_DATA (outb CMOS_ADDRESS 0x0A s) of (b, s) \<Rightarrow> (b AND 0x80, s))"

definition reg_status :: "u32 \<Rightarrow> 'a machine_scheme \<Rightarrow> u8 \<times> 'a machine_scheme" where
  "reg_status reg s = inb CMOS_DATA (outb CMOS_ADDRESS (ucast reg) s)"

text \<open>\<^verbatim>\<open>while(is_cmos_updated());\<close>\<close>

definition await_cmos :: "'a machine_scheme \<Rightarrow> kerror + 'a machine_scheme" where
  "await_cmos s = bindE (while_res (\<lambda>(b, s). b \<noteq> 0) (\<lambda>(b, s). Inr (is_cmos_updated s)) (is_cmos_updated s))
     (\<lambda>(b, s). Inr s)"

definition bcd_read :: "u32 \<Rightarrow> 'a machine_scheme \<Rightarrow> u32 \<times> 'a machine_scheme" where
  "bcd_read reg s =
     (case reg_status reg s of (n1, s) \<Rightarrow> case reg_status reg s of (n2, s) \<Rightarrow>
      (ucast n1 div 16 * 10 + (ucast n2 AND 0xF), s))"

definition cmos_reader :: "'a machine_scheme \<Rightarrow> kerror + time_t \<times> 'a machine_scheme" where
  "cmos_reader s =
     bindE (await_cmos s) (\<lambda>s.
       case bcd_read TIME_R_SECOND s of (sec, s) \<Rightarrow>
       case bcd_read TIME_R_MINUTE s of (mi, s) \<Rightarrow>
       case bcd_read TIME_R_HOUR s of (h, s) \<Rightarrow>
       case bcd_read TIME_R_DAY s of (d, s) \<Rightarrow>
       case bcd_read TIME_R_MONTH s of (mo, s) \<Rightarrow>
       case bcd_read TIME_R_YEAR s of (y, s) \<Rightarrow>
       Inr (\<lparr>second = ucast sec, minute = ucast mi, hour = ucast h, day = ucast d,
             month = ucast mo, year = ucast y\<rparr>, s))"

definition get_time :: "u32 \<Rightarrow> 'a machine_scheme \<Rightarrow> kerror + u32 \<times> 'a machine_scheme" where
  "get_time field s = bindE (await_cmos s) (\<lambda>s. Inr (bcd_read field s))"

section \<open>The wait\<close>

definition busy :: "'a machine_scheme \<Rightarrow> nat \<Rightarrow> bool" where
  "busy s i \<longleftrightarrow> port_in s (port_reads s + i) CMOS_DATA AND 0x80 \<noteq> 0"

text \<open>
  \<open>clock_frame rs s t\<close>: from \<open>s\<close> to \<open>t\<close> the registers \<open>rs\<close> of the clock were selected, one
  port was read for each, and nothing else changed.
\<close>

definition clock_frame :: "u8 list \<Rightarrow> 'a machine_scheme \<Rightarrow> 'a machine_scheme \<Rightarrow> bool" where
  "clock_frame rs s s' \<longleftrightarrow> port_in s' = port_in s \<and> port_reads s' = port_reads s + length rs \<and> mem s' = mem s \<and>
     port_out s' = port_out s @ List.map (Pair CMOS_ADDRESS) rs \<and>
     interrupts_on s' = interrupts_on s \<and> machine.more s' = machine.more s"

lemma clock_frame_trans: "clock_frame ps s t \<Longrightarrow> clock_frame qs t u \<Longrightarrow> clock_frame (ps @ qs) s u"
  by (simp add: clock_frame_def)

lemmas clock_frameD = clock_frame_def [THEN iffD1]

lemma is_cmos_updated_run:
  "\<exists>s'. is_cmos_updated s = (port_in s (port_reads s) CMOS_DATA AND 0x80, s') \<and> clock_frame [0x0A] s s'"
  by (simp add: is_cmos_updated_def inb_def outb_def clock_frame_def)

lemma ucast_twice: "(ucast (ucast (r :: u32) :: u16) :: u8) = ucast r"
  by transfer (simp add: take_bit_take_bit)

lemma reg_status_run:
  "\<exists>s'. reg_status r s = (port_in s (port_reads s) CMOS_DATA, s') \<and> clock_frame [ucast r] s s'"
  by (simp add: reg_status_def inb_def outb_def clock_frame_def ucast_twice)

lemma await_ready:
  "(\<forall>i < k. busy s i) \<Longrightarrow> \<not> busy s k \<Longrightarrow> \<exists>s'. await_cmos s = Inr s' \<and> clock_frame (replicate (Suc k) 0x0A) s s'"
proof -
  let ?loop = "while_res (\<lambda>(b, s). b \<noteq> (0 :: u8)) (\<lambda>(b, s). Inr (is_cmos_updated s))"
  have "\<exists>b s'. ?loop (is_cmos_updated s) = Inr (b, s') \<and> clock_frame (replicate (Suc k) 0x0A) s s'"
    if "\<forall>i < k. busy s i" "\<not> busy s k" for s :: "'a machine_scheme"
    using that
  proof (induction k arbitrary: s)
    case 0
    obtain s' where "is_cmos_updated s = (port_in s (port_reads s) CMOS_DATA AND 0x80, s')" "clock_frame [0x0A] s s'"
      using is_cmos_updated_run [of s] by blast
    with 0 show ?case by (simp add: busy_def)
  next
    case (Suc k)
    obtain t where t: "is_cmos_updated s = (port_in s (port_reads s) CMOS_DATA AND 0x80, t)" "clock_frame [0x0A] s t"
      using is_cmos_updated_run [of s] by blast
    have eq: "busy t i = busy s (Suc i)" for i using clock_frameD [OF t(2)] by (simp add: busy_def)
    have "\<forall>i < k. busy t i" "\<not> busy t k" using Suc.prems eq by simp_all
    from Suc.IH [OF this] obtain b s' where r: "?loop (is_cmos_updated t) = Inr (b, s')" "clock_frame (replicate (Suc k) 0x0A) t s'"
      by blast
    have "busy s 0" using Suc.prems(1) by simp
    then have "?loop (is_cmos_updated s) = ?loop (is_cmos_updated t)"
      unfolding t(1) by (subst while_res_step) (simp_all add: busy_def)
    with r clock_frame_trans [OF t(2) r(2)] show ?case by simp
  qed
  then show "(\<forall>i < k. busy s i) \<Longrightarrow> \<not> busy s k \<Longrightarrow> \<exists>s'. await_cmos s = Inr s' \<and> clock_frame (replicate (Suc k) 0x0A) s s'"
    unfolding await_cmos_def by (metis bindE_simps(2) prod.case)
qed

lemma await_stuck: "(\<forall>i. busy s i) \<Longrightarrow> await_cmos s = Inl Diverges"
proof -
  assume stuck: "\<forall>i. busy s i"
  obtain s1 where s1: "is_cmos_updated s = (port_in s (port_reads s) CMOS_DATA AND 0x80, s1)" "clock_frame [0x0A] s s1"
    using is_cmos_updated_run [of s] by blast
  let ?P = "\<lambda>(b :: u8, t). b \<noteq> 0 \<and> (\<forall>i. busy t i)"
  have next_busy: "?P (is_cmos_updated t)" if "\<forall>i. busy t i" for t :: "'a machine_scheme"
  proof -
    obtain t' where t': "is_cmos_updated t = (port_in t (port_reads t) CMOS_DATA AND 0x80, t')" "clock_frame [0x0A] t t'"
      using is_cmos_updated_run [of t] by blast
    have "busy t' i = busy t (Suc i)" for i using clock_frameD [OF t'(2)] by (simp add: busy_def)
    then have "\<forall>i. busy t' i" using that by blast
    moreover have "busy t 0" using that by blast
    then have "port_in t (port_reads t) CMOS_DATA AND 0x80 \<noteq> 0" by (simp add: busy_def)
    ultimately show ?thesis using t'(1) by simp
  qed
  have "while_res (\<lambda>(b, s). b \<noteq> 0) (\<lambda>(b, s). Inr (is_cmos_updated s)) (is_cmos_updated s) = Inl Diverges"
  proof (rule while_res_diverges [where P = ?P, OF next_busy [OF stuck]])
    fix r :: "u8 \<times> 'a machine_scheme" assume "?P r"
    moreover obtain b t where r: "r = (b, t)" by fastforce
    ultimately have "b \<noteq> 0" "?P (is_cmos_updated t)" using next_busy by simp_all
    with r show "(case r of (b, s) \<Rightarrow> b \<noteq> 0) \<and>
        (\<exists>r'. (case r of (b, s) \<Rightarrow> Inr (is_cmos_updated s)) = Inr r' \<and> ?P r')" by simp
  qed
  then show ?thesis by (simp add: await_cmos_def)
qed

lemma bcd_read_run:
  "\<exists>s'. bcd_read r s = (ucast (port_in s (port_reads s) CMOS_DATA) div 16 * 10 +
      (ucast (port_in s (Suc (port_reads s)) CMOS_DATA) AND 0xF), s') \<and> clock_frame [ucast r, ucast r] s s'"
proof -
  obtain t where t: "reg_status r s = (port_in s (port_reads s) CMOS_DATA, t)" "clock_frame [ucast r] s t"
    using reg_status_run [of r s] by blast
  obtain u where u: "reg_status r t = (port_in t (port_reads t) CMOS_DATA, u)" "clock_frame [ucast r] t u"
    using reg_status_run [of r t] by blast
  show ?thesis
    using t(1) u(1) clock_frameD [OF t(2)] clock_frame_trans [OF t(2) u(2)]
    by (simp add: bcd_read_def numeral_2_eq_2)
qed

lemma nibble: "(x :: u32) AND 0xF = x mod 16"
  using take_bit_eq_mask [of 4 x] by (simp add: take_bit_eq_mod mask_eq_exp_minus_1)

lemma bcd_value:
  "unat ((ucast (a :: u8) :: u32) div 16 * 10 + (ucast (b :: u8) AND 0xF)) = unat a div 16 * 10 + unat b mod 16"
proof -
  have u: "unat (ucast x :: u32) = unat x" for x :: u8
    by (simp add: unsigned_ucast_eq take_bit_nat_eq_self less_trans [OF unsigned_less])
  have "unat a < 256" using unsigned_less [of a] by simp
  then have a: "unat a div 16 * 10 < 160" by (simp add: less_mult_imp_div_less)
  have "unat b mod 16 < 16" by simp
  with a show ?thesis
    by (simp add: nibble unat_word_ariths unat_div unat_mod u)
qed

section \<open>Properties\<close>

text \<open>
  C24: The conversion is right on proper digits: a register that holds the two decimal digits
  of \<open>v\<close>, and still holds them when it is read the second time, is read as \<open>v\<close>. The call
  returns once the clock is not busy, after exactly the busy polls and one more, each of which selects
  status register 10, followed by two reads, each of which selects the register asked for;
  these selections are all that it sends to any port. The tens come from the first read and the ones from the
  second.
\<close>

theorem get_time_reads:
  assumes "\<forall>i < k. busy s i" "\<not> busy s k"
  shows "\<exists>w s'. get_time field s = Inr (w, s') \<and> port_reads s' = port_reads s + k + 3 \<and>
    port_out s' = port_out s @ replicate (k + 1) (0x70, 0x0A) @ [(0x70, ucast field), (0x70, ucast field)] \<and>
    mem s' = mem s \<and>
    unat w = unat (port_in s (port_reads s + k + 1) 0x71) div 16 * 10 +
             unat (port_in s (port_reads s + k + 2) 0x71) mod 16 \<and>
    (\<forall>v < 100. unat (port_in s (port_reads s + k + 1) 0x71) = 16 * (v div 10) + v mod 10 \<longrightarrow>
       port_in s (port_reads s + k + 2) 0x71 = port_in s (port_reads s + k + 1) 0x71 \<longrightarrow> unat w = v)"
proof -
  obtain t where t: "await_cmos s = Inr t" "clock_frame (replicate (Suc k) 0x0A) s t" using await_ready [OF assms] by blast
  obtain u where u: "bcd_read field t = (ucast (port_in t (port_reads t) CMOS_DATA) div 16 * 10 +
      (ucast (port_in t (Suc (port_reads t)) CMOS_DATA) AND 0xF), u)" "clock_frame [ucast field, ucast field] t u"
    using bcd_read_run [of field t] by blast
  have "(16 * (v div 10) + v mod 10) div 16 * 10 + (16 * (v div 10) + v mod 10) mod 16 = v" for v :: nat
  proof -
    have "v mod 10 < 16" by (rule less_trans [of _ 10]) simp_all
    then show ?thesis by simp
  qed
  then show ?thesis
    using t u clock_frameD [OF t(2)] clock_frameD [OF u(2)] by (auto simp: get_time_def bcd_value map_replicate)
qed

text \<open>
  While the clock reports an update in progress the kernel waits: if it does so on every
  read, neither reading function ever returns.
\<close>

theorem clock_wait_endless:
  assumes "\<forall>i. busy s i"
  shows "get_time field s = Inl Diverges \<and> cmos_reader s = Inl Diverges"
  using await_stuck [OF assms] by (simp add: get_time_def cmos_reader_def)

text \<open>
  \<^verbatim>\<open>cmos_reader\<close> returns once the clock is not busy, after twelve reads, two for
  each field in the order second, minute, hour, day, month, year, from the registers 4 to 9.
\<close>

theorem cmos_reader_fields:
  assumes "\<forall>i < k. busy s i" "\<not> busy s k"
  shows "\<exists>tm s'. cmos_reader s = Inr (tm, s') \<and> port_reads s' = port_reads s + k + 13 \<and> mem s' = mem s \<and>
    clock_log (port_out s') = clock_log (port_out s) @ replicate (k + 1) 0x0A @ [4, 4, 5, 5, 6, 6, 7, 7, 8, 8, 9, 9] \<and>
    (let digit = \<lambda>j. port_in s (port_reads s + k + 1 + j) 0x71;
         val = \<lambda>j. ucast (ucast (digit (2 * j)) div (16 :: u32) * 10 + (ucast (digit (2 * j + 1)) AND 0xF)) in
     tm = \<lparr>second = val 0, minute = val 1, hour = val 2, day = val 3, month = val 4, year = val 5\<rparr>)"
proof -
  obtain t where t: "await_cmos s = Inr t" "clock_frame (replicate (Suc k) 0x0A) s t" using await_ready [OF assms] by blast
  note fr = t(2)
  obtain t1 where 1: "bcd_read TIME_R_SECOND t = (ucast (port_in t (port_reads t) CMOS_DATA) div 16 * 10 +
      (ucast (port_in t (Suc (port_reads t)) CMOS_DATA) AND 0xF), t1)" "clock_frame [ucast TIME_R_SECOND, ucast TIME_R_SECOND] t t1" using bcd_read_run by blast
  obtain t2 where 2: "bcd_read TIME_R_MINUTE t1 = (ucast (port_in t1 (port_reads t1) CMOS_DATA) div 16 * 10 +
      (ucast (port_in t1 (Suc (port_reads t1)) CMOS_DATA) AND 0xF), t2)" "clock_frame [ucast TIME_R_MINUTE, ucast TIME_R_MINUTE] t1 t2" using bcd_read_run by blast
  obtain t3 where 3: "bcd_read TIME_R_HOUR t2 = (ucast (port_in t2 (port_reads t2) CMOS_DATA) div 16 * 10 +
      (ucast (port_in t2 (Suc (port_reads t2)) CMOS_DATA) AND 0xF), t3)" "clock_frame [ucast TIME_R_HOUR, ucast TIME_R_HOUR] t2 t3" using bcd_read_run by blast
  obtain t4 where 4: "bcd_read TIME_R_DAY t3 = (ucast (port_in t3 (port_reads t3) CMOS_DATA) div 16 * 10 +
      (ucast (port_in t3 (Suc (port_reads t3)) CMOS_DATA) AND 0xF), t4)" "clock_frame [ucast TIME_R_DAY, ucast TIME_R_DAY] t3 t4" using bcd_read_run by blast
  obtain t5 where 5: "bcd_read TIME_R_MONTH t4 = (ucast (port_in t4 (port_reads t4) CMOS_DATA) div 16 * 10 +
      (ucast (port_in t4 (Suc (port_reads t4)) CMOS_DATA) AND 0xF), t5)" "clock_frame [ucast TIME_R_MONTH, ucast TIME_R_MONTH] t4 t5" using bcd_read_run by blast
  obtain t6 where 6: "bcd_read TIME_R_YEAR t5 = (ucast (port_in t5 (port_reads t5) CMOS_DATA) div 16 * 10 +
      (ucast (port_in t5 (Suc (port_reads t5)) CMOS_DATA) AND 0xF), t6)" "clock_frame [ucast TIME_R_YEAR, ucast TIME_R_YEAR] t5 t6" using bcd_read_run by blast
  note frames = clock_frameD [OF t(2)] clock_frameD [OF 1(2)] clock_frameD [OF 2(2)] clock_frameD [OF 3(2)]
    clock_frameD [OF 4(2)] clock_frameD [OF 5(2)] clock_frameD [OF 6(2)]
  show ?thesis
    unfolding cmos_reader_def t(1) bindE_simps 1(1) 2(1) 3(1) 4(1) 5(1) 6(1) prod.case
    using frames [simplified] by (simp add: Let_def numeral_eq_Suc)
qed

text \<open>A clock that is busy for two polls and then holds the same digits in every register.\<close>

definition clock_demo :: machine where
  "clock_demo = \<lparr>mem = (\<lambda>a. 0), port_out = [], port_in = (\<lambda>n p. if n < 2 then 0x80 else if n = 2 then 0 else 0x59),
     port_reads = 0, interrupts_on = True\<rparr>"

definition clock_dead :: machine where
  "clock_dead = clock_demo\<lparr>port_in := (\<lambda>n p. 0x80)\<rparr>"

lemma clock_demo_polls: "(\<forall>i < 2. busy clock_demo i) \<and> \<not> busy clock_demo 2"
  by (simp add: busy_def clock_demo_def)

theorem get_time_reads_witness:
  "\<exists>w s'. get_time TIME_R_DAY clock_demo = Inr (w, s') \<and> port_reads s' = 5 \<and> unat w = 59 \<and>
    port_out s' = [(0x70, 10), (0x70, 10), (0x70, 10), (0x70, 7), (0x70, 7)]"
proof -
  have "replicate (2 + 1) x = [x, x, x]" for x :: "u16 \<times> u8" by (simp add: numeral_2_eq_2)
  moreover from get_time_reads [of 2 clock_demo TIME_R_DAY] clock_demo_polls obtain w s' where
    "get_time TIME_R_DAY clock_demo = Inr (w, s')" "port_reads s' = port_reads clock_demo + 2 + 3"
    "port_out s' = port_out clock_demo @ replicate (2 + 1) (0x70, 0x0A) @ [(0x70, ucast TIME_R_DAY), (0x70, ucast TIME_R_DAY)]"
    "unat w = unat (port_in clock_demo (port_reads clock_demo + 2 + 1) 0x71) div 16 * 10 +
      unat (port_in clock_demo (port_reads clock_demo + 2 + 2) 0x71) mod 16" by blast
  ultimately show ?thesis by (intro exI [of _ w] exI [of _ s']) (simp add: clock_demo_def)
qed

theorem clock_wait_endless_witness: "get_time TIME_R_DAY clock_dead = Inl Diverges"
  using clock_wait_endless [of clock_dead TIME_R_DAY] by (simp add: busy_def clock_dead_def)

theorem cmos_reader_fields_witness:
  "\<exists>tm s'. cmos_reader clock_demo = Inr (tm, s') \<and> second tm = 59 \<and> port_reads s' = 15"
  using cmos_reader_fields [of 2 clock_demo] clock_demo_polls
  by (auto simp: clock_demo_def Let_def)

end
