(* ===== verification/Cpuid.thy ===== *)
theory Cpuid
  imports Kernel_State
begin

text \<open>
  Processor identification, \<^verbatim>\<open>kernel/drivers/cpuid.c\<close>. The instruction itself is the
  function \<open>cpuid_instr\<close> of the environment, from the leaf to the values of \<^verbatim>\<open>eax\<close>,
  \<^verbatim>\<open>ebx\<close> and \<^verbatim>\<open>edx\<close>. A structure field that is not assigned is indeterminate in C:
  for \<^verbatim>\<open>icpuid_t\<close> such a field keeps the value of an arbitrary structure \<open>junk\<close>, and a
  pointer of \<^verbatim>\<open>cpuid_t\<close> that is not assigned is \<open>None\<close>, whose use is undefined.
\<close>

section \<open>The operations\<close>

abbreviation INTEL_MAGIC_NUMBER :: u32 where "INTEL_MAGIC_NUMBER \<equiv> 0x756e6547"
abbreviation AMD_MAGIC_NUMBER :: u32 where "AMD_MAGIC_NUMBER \<equiv> 0x68747541"
abbreviation UNRECOGNIZED_CPU :: u32 where "UNRECOGNIZED_CPU \<equiv> 0xBADFF"

record icpuid_t =
  icpu_model :: u32
  icpu_family :: u32
  icpu_type :: u32
  icpu_brand :: u32
  icpu_stepping :: u32
  icpu_reserved :: u32

record cpuid_t =
  cpuid_model :: "ptr option"
  cpuid_family :: "ptr option"
  cpuid_type :: "ptr option"

definition intel_cpu :: "env \<Rightarrow> icpuid_t" where
  "intel_cpu env = (case cpuid_instr env 1 of (eax, ebx, edx) \<Rightarrow>
     \<lparr>icpu_model = drop_bit 4 eax AND 0xF, icpu_family = drop_bit 8 eax AND 0xF,
      icpu_type = drop_bit 12 eax AND 0xF, icpu_brand = INTEL_MAGIC_NUMBER,
      icpu_stepping = eax AND 0xF, icpu_reserved = drop_bit 14 eax\<rparr>)"

definition amd_cpu :: "env \<Rightarrow> icpuid_t \<Rightarrow> icpuid_t" where
  "amd_cpu env junk = (case cpuid_instr env 1 of (eax, ebx, edx) \<Rightarrow>
     junk\<lparr>icpu_model := drop_bit 4 eax AND 0xF, icpu_family := drop_bit 8 eax AND 0xF,
      icpu_stepping := eax AND 0xF, icpu_reserved := drop_bit 12 eax, icpu_brand := AMD_MAGIC_NUMBER\<rparr>)"

definition generic_cpu :: "icpuid_t \<Rightarrow> icpuid_t" where
  "generic_cpu junk = junk\<lparr>icpu_brand := UNRECOGNIZED_CPU\<rparr>"

definition detect_cpu :: "env \<Rightarrow> icpuid_t \<Rightarrow> icpuid_t" where
  "detect_cpu env junk = (case cpuid_instr env 0 of (eax, ebx, edx) \<Rightarrow>
     if ebx = INTEL_MAGIC_NUMBER then intel_cpu env
     else if ebx = AMD_MAGIC_NUMBER then amd_cpu env junk
     else generic_cpu junk)"

text \<open>
  \<^verbatim>\<open>strcpy(model, name); strcat(model, (void*)cpu.model); cpuid.model = model\<close>: the model
  number is used as the address of the string that is appended. \<open>buf\<close> is the address of the
  local array \<^verbatim>\<open>model\<close>.
\<close>

definition amd_model :: "u32 \<Rightarrow> string \<Rightarrow> u32 \<Rightarrow> cpuid_t \<Rightarrow> memory \<Rightarrow> kerror + cpuid_t \<times> memory" where
  "amd_model buf name number c m =
     bindE (strcpy m buf (Lit name)) (\<lambda>m.
     bindE (strcat m buf (At number)) (\<lambda>m.
     Inr (c\<lparr>cpuid_model := Some (At buf)\<rparr>, m)))"

definition get_cpuid_amd :: "u32 \<Rightarrow> icpuid_t \<Rightarrow> cpuid_t \<Rightarrow> memory \<Rightarrow> kerror + cpuid_t \<times> memory" where
  "get_cpuid_amd buf cpu c m =
     (let mo = icpu_model cpu in
      if icpu_family cpu = 4 then amd_model buf ''486 model '' mo c m
      else if icpu_family cpu = 5 then
        (if mo \<le> 7 then amd_model buf ''K6 model '' mo c m
         else if mo = 8 then amd_model buf ''K6-2 model '' mo c m
         else if mo = 9 then amd_model buf ''K6-III model '' mo c m
         else amd_model buf ''K5/K6 model '' mo c m)
      else if icpu_family cpu = 6 then
        (if mo = 1 \<or> mo = 2 \<or> mo = 3 then Inr (c\<lparr>cpuid_model := Some (Lit ''Duron model 3'')\<rparr>, m)
         else if mo = 4 then amd_model buf ''Athlon model '' mo c m
         else if mo = 6 then Inr (c\<lparr>cpuid_model := Some (Lit ''Athlon MP/Mobile Athlon Model 6'')\<rparr>, m)
         else if mo = 7 then Inr (c\<lparr>cpuid_model := Some (Lit ''Mobile Duron Model 7'')\<rparr>, m)
         else amd_model buf ''Duron/Athlon model '' mo c m)
      else Inr (c, m))"

definition get_cpuid_intel :: "icpuid_t \<Rightarrow> cpuid_t \<Rightarrow> cpuid_t" where
  "get_cpuid_intel cpu c =
     (let c = (if icpu_type cpu = 0 then c\<lparr>cpuid_type := Some (Lit ''Original OEM'')\<rparr>
               else if icpu_type cpu = 1 then c\<lparr>cpuid_type := Some (Lit ''Overdrive'')\<rparr>
               else if icpu_type cpu = 2 then c\<lparr>cpuid_type := Some (Lit ''Dual-capable'')\<rparr>
               else if icpu_type cpu = 3 then c\<lparr>cpuid_type := Some (Lit ''Reserved'')\<rparr>
               else c)
      in if icpu_family cpu = 3 then c\<lparr>cpuid_family := Some (Lit ''i386'')\<rparr>
         else if icpu_family cpu = 4 then c\<lparr>cpuid_family := Some (Lit ''i486'')\<rparr>
         else if icpu_family cpu = 5 then c\<lparr>cpuid_family := Some (Lit ''Pentium II Model 5/Xeon/Celeron'')\<rparr>
         else if icpu_family cpu = 6 then c\<lparr>cpuid_family := Some (Lit ''Pentium Pro'')\<rparr>
         else if icpu_family cpu = 15 then c\<lparr>cpuid_family := Some (Lit ''Pentium 4'')\<rparr>
         else c)"

definition get_cpuid :: "u32 \<Rightarrow> icpuid_t \<Rightarrow> memory \<Rightarrow> kerror + cpuid_t \<times> memory" where
  "get_cpuid buf cpu m =
     (let c = \<lparr>cpuid_model = None, cpuid_family = None, cpuid_type = None\<rparr> in
      if icpu_brand cpu = AMD_MAGIC_NUMBER then get_cpuid_amd buf cpu c m
      else if icpu_brand cpu = INTEL_MAGIC_NUMBER then Inr (get_cpuid_intel cpu c, m)
      else if icpu_brand cpu = UNRECOGNIZED_CPU then
        Inr (c\<lparr>cpuid_family := Some (Lit ''Generic (x86) CPU'')\<rparr>, m)
      else Inr (c, m))"

text \<open>The two functions for the shell return a field of the structure.\<close>

definition assigned :: "ptr option \<Rightarrow> kerror + ptr" where
  "assigned p = (case p of None \<Rightarrow> Inl (Undefined_behaviour ''uninitialised pointer'') | Some p \<Rightarrow> Inr p)"

definition get_cpu_type :: "env \<Rightarrow> icpuid_t \<Rightarrow> 'a machine_scheme \<Rightarrow> kerror + ptr \<times> 'a machine_scheme" where
  "get_cpu_type env junk s =
     bindE (get_cpuid (stk env) (detect_cpu env junk) (mem s)) (\<lambda>(c, m).
     bindE (assigned (cpuid_type c)) (\<lambda>p. Inr (p, s\<lparr>mem := m\<rparr>)))"

definition get_cpu_family :: "env \<Rightarrow> icpuid_t \<Rightarrow> 'a machine_scheme \<Rightarrow> kerror + ptr \<times> 'a machine_scheme" where
  "get_cpu_family env junk s =
     bindE (get_cpuid (stk env) (detect_cpu env junk) (mem s)) (\<lambda>(c, m).
     bindE (assigned (cpuid_family c)) (\<lambda>p. Inr (p, s\<lparr>mem := m\<rparr>)))"

section \<open>What the identification yields\<close>

text \<open>The identifying fields of leaf 0 and leaf 1.\<close>

definition vendor :: "env \<Rightarrow> u32" where
  "vendor env = (case cpuid_instr env 0 of (eax, ebx, edx) \<Rightarrow> ebx)"

definition signature :: "env \<Rightarrow> u32" where
  "signature env = (case cpuid_instr env 1 of (eax, ebx, edx) \<Rightarrow> eax)"

definition sig_type :: "env \<Rightarrow> u32" where
  "sig_type env = drop_bit 12 (signature env) AND 0xF"

definition sig_family :: "env \<Rightarrow> u32" where
  "sig_family env = drop_bit 8 (signature env) AND 0xF"

lemma detect_cases:
  "vendor env = INTEL_MAGIC_NUMBER \<Longrightarrow> detect_cpu env junk = intel_cpu env"
  "vendor env = AMD_MAGIC_NUMBER \<Longrightarrow> detect_cpu env junk = amd_cpu env junk"
  "vendor env \<noteq> INTEL_MAGIC_NUMBER \<Longrightarrow> vendor env \<noteq> AMD_MAGIC_NUMBER \<Longrightarrow> detect_cpu env junk = generic_cpu junk"
  by (auto simp: detect_cpu_def vendor_def split: prod.splits)

lemma intel_fields [simp]:
  "icpu_brand (intel_cpu env) = INTEL_MAGIC_NUMBER" "icpu_type (intel_cpu env) = sig_type env"
  "icpu_family (intel_cpu env) = sig_family env"
  by (simp_all add: intel_cpu_def sig_type_def sig_family_def signature_def split: prod.splits)

lemma amd_no_type: "get_cpuid_amd buf cpu c m = Inr (c', m') \<Longrightarrow> cpuid_type c' = cpuid_type c \<and> cpuid_family c' = cpuid_family c"
  by (auto simp: get_cpuid_amd_def amd_model_def Let_def bindE_eq_Inr split: if_splits)

lemma amd_brand [simp]: "icpu_brand (amd_cpu env junk) = AMD_MAGIC_NUMBER"
  by (simp add: amd_cpu_def split: prod.splits)

section \<open>Properties\<close>

text \<open>
  When the shell may ask for the processor's type: \<^verbatim>\<open>get_cpu_type\<close> returns a string
  exactly on an Intel processor with a type field of at most 3, whatever the uninitialised
  parts of the structures hold. On AMD and on any other processor the pointer it returns was never
  assigned (or the copy of the model name does not end).
\<close>

theorem cpu_type_known:
  "(\<exists>p s'. get_cpu_type env junk s = Inr (p, s')) \<longleftrightarrow> vendor env = INTEL_MAGIC_NUMBER \<and> sig_type env \<le> 3"
proof -
  have small: "(t :: u32) \<le> 3 \<longleftrightarrow> t = 0 \<or> t = 1 \<or> t = 2 \<or> t = 3" for t
  proof -
    have "t \<le> 3 \<longleftrightarrow> unat t \<in> {0, 1, 2, 3}" by (auto simp: word_le_nat_alt)
    also have "\<dots> \<longleftrightarrow> t \<in> {0, 1, 2, 3}" by (auto simp: word_unat_eq_iff)
    finally show ?thesis by simp
  qed
  consider (intel) "vendor env = INTEL_MAGIC_NUMBER" | (amd) "vendor env = AMD_MAGIC_NUMBER"
    | (other) "vendor env \<noteq> INTEL_MAGIC_NUMBER" "vendor env \<noteq> AMD_MAGIC_NUMBER" by blast
  then show ?thesis
  proof cases
    case intel
    then show ?thesis
      by (auto simp: get_cpu_type_def detect_cases get_cpuid_def get_cpuid_intel_def Let_def assigned_def small)
  next
    case amd
    have "\<not> (\<exists>p s'. get_cpu_type env junk s = Inr (p, s'))"
      using amd_no_type by (fastforce simp: get_cpu_type_def detect_cases(2) [OF amd] get_cpuid_def Let_def bindE_eq_Inr assigned_def)
    with amd show ?thesis by simp
  next
    case other
    then show ?thesis
      by (simp add: get_cpu_type_def detect_cases get_cpuid_def generic_cpu_def Let_def assigned_def)
  qed
qed

text \<open>
  The name of the processor family that the shell prints: on Intel the name of the family
  number where the source has one, on an unknown vendor the generic name, with memory unchanged;
  undefined for Intel families without a name, and never a name on AMD.
\<close>

theorem cpu_family_name:
  "(vendor env = INTEL_MAGIC_NUMBER \<longrightarrow> get_cpu_family env junk s =
     (case map_of [(3, ''i386''), (4, ''i486''), (5, ''Pentium II Model 5/Xeon/Celeron''),
           (6, ''Pentium Pro''), (15, ''Pentium 4'')] (unat (sig_family env)) of
        Some name \<Rightarrow> Inr (Lit name, s) | None \<Rightarrow> Inl (Undefined_behaviour ''uninitialised pointer''))) \<and>
   (vendor env = AMD_MAGIC_NUMBER \<longrightarrow> (\<nexists>p s'. get_cpu_family env junk s = Inr (p, s'))) \<and>
   (vendor env \<notin> {INTEL_MAGIC_NUMBER, AMD_MAGIC_NUMBER} \<longrightarrow>
     get_cpu_family env junk s = Inr (Lit ''Generic (x86) CPU'', s))"
proof (intro conjI impI)
  assume amd: "vendor env = AMD_MAGIC_NUMBER"
  show "\<nexists>p s'. get_cpu_family env junk s = Inr (p, s')"
    using amd_no_type by (fastforce simp: get_cpu_family_def detect_cases(2) [OF amd] get_cpuid_def Let_def bindE_eq_Inr assigned_def)
next
  assume intel: "vendor env = INTEL_MAGIC_NUMBER"
  have f: "unat (sig_family env) = n \<longleftrightarrow> sig_family env = of_nat n" if "n < 2 ^ 32" for n
    using that by (auto simp: word_unat_eq_iff)
  show "get_cpu_family env junk s =
     (case map_of [(3, ''i386''), (4, ''i486''), (5, ''Pentium II Model 5/Xeon/Celeron''),
           (6, ''Pentium Pro''), (15, ''Pentium 4'')] (unat (sig_family env)) of
        Some name \<Rightarrow> Inr (Lit name, s) | None \<Rightarrow> Inl (Undefined_behaviour ''uninitialised pointer''))"
    by (auto simp: get_cpu_family_def detect_cases(1) [OF intel] get_cpuid_def get_cpuid_intel_def Let_def assigned_def f)
qed (simp add: get_cpu_family_def detect_cases get_cpuid_def generic_cpu_def Let_def assigned_def)

theorem cpu_family_name_witness:
  "\<forall>junk. get_cpu_family demo_env junk power_up = Inr (Lit ''Pentium Pro'', power_up)"
proof
  fix junk
  have "vendor demo_env = INTEL_MAGIC_NUMBER" "sig_family demo_env = 6"
    by (simp_all add: vendor_def sig_family_def signature_def demo_env_def)
  with cpu_family_name [of demo_env junk power_up]
  show "get_cpu_family demo_env junk power_up = Inr (Lit ''Pentium Pro'', power_up)" by simp
qed

end
