(* ===== verification/Shell.thy ===== *)
theory Shell
  imports Interrupts Time Cpuid
begin

text \<open>
  The shell: \<^verbatim>\<open>kernel/userspace/shell.c\<close> and \<^verbatim>\<open>kernel/userspace/fetch.c\<close>. Local arrays
  are memory on the stack: \<^verbatim>\<open>buf\<close> of \<^verbatim>\<open>printf\<close> at \<open>stk\<close>, and above it those of its
  callers (\<^verbatim>\<open>buf\<close> of \<^verbatim>\<open>timer_dump\<close> and \<^verbatim>\<open>version\<close> at \<open>stk + 32\<close>, \<^verbatim>\<open>user\<close> and
  \<^verbatim>\<open>hostname\<close> at \<open>stk + 96\<close> and \<open>stk + 160\<close>). A command that raises an interrupt
  goes through \<open>isr_handler\<close>, whose handlers are the argument \<open>run\<close>; \<open>r\<close> are the
  registers at that moment.
\<close>

section \<open>Text\<close>

text \<open>A literal with \<^verbatim>\<open>^\<close> for a backslash and \<^verbatim>\<open>$\<close> for the end of a line.\<close>

definition art :: "string \<Rightarrow> string" where
  "art = List.map (\<lambda>c. if c = CHR ''^'' then CHR 0x5C else if c = CHR ''$'' then CHR 0x0A else c)"

text \<open>A sequence of calls of \<^verbatim>\<open>printf_color\<close>, all on black.\<close>

primrec color_lines :: "(string \<times> color) list \<Rightarrow> 'a tty_scheme \<Rightarrow> kerror + 'a tty_scheme" where
  "color_lines [] s = Inr s"
| "color_lines (l # ls) s = bindE (printf_color (Lit (fst l)) (snd l) BLACK s) (color_lines ls)"

section \<open>The commands\<close>

definition help_text :: string where
  "help_text = art
     (''$List of available commands:$'' @
      ''$help        - Print this helper'' @
      ''$int         - Test some interrupts'' @
      ''$clear, cls  - Clear the screen'' @
      ''$regs        - Prints register dump'' @
      ''$timer       - Prints timer tick'' @
      ''$about       - About this kernel'' @
      ''$reboot      - Reboot the system'')"

definition helper :: "env \<Rightarrow> 'a tty_scheme \<Rightarrow> kerror + 'a tty_scheme" where
  "helper env s = puts (stk env) (Lit help_text) s"

text \<open>
  \<^verbatim>\<open>int $n\<close>: the processor and the stub \<^verbatim>\<open>isr<n>\<close> disable interrupts, call
  \<^verbatim>\<open>isr_handler\<close>, and restore the flags on return.
\<close>

definition software_interrupt ::
    "'a runner \<Rightarrow> registers_t \<Rightarrow> u32 \<Rightarrow> 'a kernel_scheme \<Rightarrow> kerror + 'a kernel_scheme" where
  "software_interrupt run r n s =
     bindE (isr_handler run (r\<lparr>int_num := n, err_code := 0\<rparr>) (cli s)) (\<lambda>t.
     Inr (t\<lparr>interrupts_on := interrupts_on s\<rparr>))"

definition test_interrupts ::
    "'a runner \<Rightarrow> registers_t \<Rightarrow> 'a kernel_scheme \<Rightarrow> kerror + 'a kernel_scheme" where
  "test_interrupts run r s =
     bindE (software_interrupt run r 0 s) (\<lambda>s.
     bindE (software_interrupt run r 4 s) (\<lambda>s.
     software_interrupt run r 1 s))"

definition about_lines :: "(string \<times> color) list" where
  "about_lines =
     [(art ''$             ^                  /,$'', LIGHT_RED),
      (art ''    _________))                ((__________$'', LIGHT_RED),
      (art ''   /.-------./^^    ^    /    //^.--------.^'', LIGHT_RED),
      (''  Vulcan'', LIGHT_MAGENTA),
      (''OS '', LIGHT_BROWN),
      (art ''is x86 monolithic $'', LIGHT_GREEN),
      (art ''  //#######//##^^   ))  ((   //##^^########^^'', LIGHT_RED),
      (art ''  kernel written from scratch $'', LIGHT_GREEN),
      (art '' //#######//###((  ((    ))  ))###^^########^^'', LIGHT_RED),
      (art ''  in C following the UNIX $'', LIGHT_GREEN),
      (art ''((#######((#####^^  ^^  //  //#####))########))'', LIGHT_RED),
      (art ''  philosophy. $'', LIGHT_GREEN),
      (art '' ^##' `###^######^^  ^)(/  //######/####' `##/'', LIGHT_RED),
      (art ''    By Marco Cetica 2019-2021 $'', LIGHT_GREEN),
      (art (''  )'    ``#)'  `##^`->oo<-'/##'  `(#'' @ [CHR 0x27, CHR 0x27] @ ''     `(''), LIGHT_RED),
      (art ''      https://git.io/JtzuAs$'', WHITE),
      (art (''          (       ``^`..'/'' @ [CHR 0x27, CHR 0x27] @ ''       )$''), LIGHT_RED),
      (art (''                     ^'' @ [CHR 0x27, CHR 0x27] @ ''($''), LIGHT_RED),
      (art ''                      `- )$'', LIGHT_RED),
      (art ''                      / /$'', LIGHT_RED),
      (art ''                     ( /^$'', LIGHT_RED),
      (art ''                     /^| ^$'', LIGHT_RED),
      (art ''                    (  ^$'', LIGHT_RED),
      (art ''                        )$'', LIGHT_RED),
      (art ''                       /$'', LIGHT_RED),
      (art ''                      ($'', LIGHT_RED),
      (art ''                      `$'', LIGHT_RED)]"

definition about :: "'a tty_scheme \<Rightarrow> kerror + 'a tty_scheme" where
  "about s = color_lines about_lines s"

text \<open>The eight registers are read at the start of the function: \<open>dump\<close> of the environment.\<close>

definition dump_header :: string where
  "dump_header = art (''$===================================$'' @
     ''  BEGIN 32 BITS CPU REGISTER DUMP    $'' @ ''===================================$'')"

definition dump_format :: string where
  "dump_format = art (''    EAX: %x$'' @ ''    EBX: %x$'' @ ''    ECX: %x$'' @ ''    EDX: %x$'' @
     ''    ESX: %x$'' @ ''    EDI: %x$'' @ ''    EBP: %x$'' @ ''    ESP: %x$'')"

definition dump_footer :: string where
  "dump_footer = art (''$==================================$'' @
     ''   END 32 BITS CPU REGISTER DUMP    $'' @ ''==================================$'')"

definition register_dump :: "env \<Rightarrow> 'a tty_scheme \<Rightarrow> kerror + 'a tty_scheme" where
  "register_dump env s =
     bindE (printf_color (Lit dump_header) LIGHT_BROWN BLACK s) (\<lambda>s.
     bindE (printf (stk env) (Lit dump_format) (List.map Word (dump env)) s) (\<lambda>s.
     printf_color (Lit dump_footer) LIGHT_BROWN BLACK s))"

text \<open>
  A string that was built in a local array of \<open>n\<close> bytes must end inside it: a longer one has been
  written past the end of the array, and the function has no defined behaviour from there on.
\<close>

definition within_array :: "u32 \<Rightarrow> nat \<Rightarrow> memory \<Rightarrow> kerror + memory" where
  "within_array buf n m =
     (if list_ex (\<lambda>i. byte_at m (At buf) (of_nat i) = 0) [0..<n] then Inr m
      else Inl (Undefined_behaviour ''end of array''))"

definition timer_dump :: "env \<Rightarrow> 'a kernel_scheme \<Rightarrow> kerror + 'a kernel_scheme" where
  "timer_dump env s =
     (let buf = stk env + 32 in
      bindE (uitoa (mem s) (tick s) buf 10) (\<lambda>m.
      bindE (within_array buf 8 m) (\<lambda>m.
      bindE (printf_color (Lit (LF @ ''Ticks since boot: '')) LIGHT_GREEN BLACK (s\<lparr>mem := m\<rparr>)) (\<lambda>s.
      printf_color (At buf) LIGHT_CYAN BLACK s))))"

text \<open>
  The loop of \<^verbatim>\<open>reboot\<close> runs at least once. The processor resets when the last byte is sent:
  the state after it is the one in which the kernel stops.
\<close>

definition check_flag :: "u8 \<Rightarrow> nat \<Rightarrow> u8" where
  "check_flag flag n = flag AND push_bit n 1"

definition reboot_poll :: "'a machine_scheme \<Rightarrow> u8 \<times> 'a machine_scheme" where
  "reboot_poll s = (case inb 0x64 s of (tmp, s) \<Rightarrow>
     (tmp, if check_flag tmp 0 \<noteq> 0 then snd (inb 0x60 s) else s))"

definition reboot :: "'a machine_scheme \<Rightarrow> kerror + 'a machine_scheme" where
  "reboot s =
     bindE (while_res (\<lambda>(tmp, s). check_flag tmp 1 \<noteq> 0) (\<lambda>(tmp, s). Inr (reboot_poll s)) (reboot_poll (cli s)))
       (\<lambda>(tmp, s). Inr (outb 0x64 0xFE s))"

section \<open>fetch.c\<close>

definition print_time :: "env \<Rightarrow> u32 \<Rightarrow> 'a tty_scheme \<Rightarrow> kerror + 'a tty_scheme" where
  "print_time env field s = bindE (get_time field s) (\<lambda>(v, s). printf (stk env) (Lit ''%d'') [Word v] s)"

definition get_date :: "env \<Rightarrow> 'a tty_scheme \<Rightarrow> kerror + 'a tty_scheme" where
  "get_date env s =
     bindE (print_time env TIME_R_DAY s) (\<lambda>s.
     bindE (printf_color (Lit ''/'') LIGHT_BLUE BLACK s) (\<lambda>s.
     bindE (print_time env TIME_R_MONTH s) (\<lambda>s.
     bindE (printf_color (Lit ''/'') LIGHT_BLUE BLACK s) (\<lambda>s.
     print_time env TIME_R_YEAR s))))"

definition get_cpuid_line :: "env \<Rightarrow> icpuid_t \<Rightarrow> 'a tty_scheme \<Rightarrow> kerror + 'a tty_scheme" where
  "get_cpuid_line env junk s =
     bindE (printf_color (Lit ''CPU type: '') LIGHT_CYAN BLACK s) (\<lambda>s.
     bindE (get_cpu_type env junk s) (\<lambda>(ty, s).
     bindE (printf (stk env) (Lit ''%s'') [Pointer ty] s) (\<lambda>s.
     bindE (get_cpu_family env junk s) (\<lambda>(fam, s).
     printf (stk env) (Lit ''%s%s%c'') [Pointer (Lit '' (''), Pointer fam, Word 0x29] s))))"

definition get_version :: "env \<Rightarrow> 'a tty_scheme \<Rightarrow> kerror + 'a tty_scheme" where
  "get_version env s =
     bindE (strcpy (mem s) (stk env + 32) (Lit (version env))) (\<lambda>m.
     bindE (printf_color (Lit (LF @ replicate 5 (CHR 0x09) @ ''   Version: '')) LIGHT_CYAN BLACK (s\<lparr>mem := m\<rparr>)) (\<lambda>s.
     printf_color (At (stk env + 32)) LIGHT_GREEN BLACK s))"

definition system_fetcher :: "env \<Rightarrow> icpuid_t \<Rightarrow> 'a tty_scheme \<Rightarrow> kerror + 'a tty_scheme" where
  "system_fetcher env junk s =
     (let user = stk env + 96; hostname = stk env + 160 in
     bindE (strcpy (mem s) user (Lit DEFAULT_USER)) (\<lambda>m.
     bindE (strcpy m hostname (Lit DEFAULT_HOSTNAME)) (\<lambda>m.
     bindE (printf_color (Lit (art ''$ __   __   ___  ___    '')) LIGHT_RED BLACK (s\<lparr>mem := m\<rparr>)) (\<lambda>s.
     bindE (printf_color (At user) LIGHT_CYAN BLACK s) (\<lambda>s.
     bindE (printf_color (Lit ''@'') LIGHT_RED BLACK s) (\<lambda>s.
     bindE (printf_color (At hostname) LIGHT_CYAN BLACK s) (\<lambda>s.
     bindE (color_lines [(art ''$ ^ ^ / /  / _ ^/ __|   '', LIGHT_RED), (''-----------'', LIGHT_RED),
        (art ''$  ^ V /  | (_) ^__ ^   '', LIGHT_RED), (''Date: '', LIGHT_CYAN)] s) (\<lambda>s.
     bindE (get_date env s) (\<lambda>s.
     bindE (printf_color (Lit (art ''$   ^_/    ^___/|___/   '')) LIGHT_RED BLACK s) (\<lambda>s.
     bindE (get_cpuid_line env junk s) (\<lambda>s.
     get_version env s)))))))))))"

section \<open>The dispatcher\<close>

definition if_command ::
    "'a machine_scheme \<Rightarrow> u32 \<Rightarrow> string \<Rightarrow> kerror + 'b \<Rightarrow> kerror + 'b \<Rightarrow> kerror + 'b" where
  "if_command s cmd name t e = bindE (strcmp (mem s) (At cmd) (Lit name)) (\<lambda>c. if c = 0 then t else e)"

definition processCommand ::
    "env \<Rightarrow> icpuid_t \<Rightarrow> 'a runner \<Rightarrow> registers_t \<Rightarrow> u32 \<Rightarrow> 'a kernel_scheme \<Rightarrow> kerror + 'a kernel_scheme" where
  "processCommand env junk run r cmd s =
     if_command s cmd ''help'' (helper env s)
     (if_command s cmd ''int'' (test_interrupts run r s)
     (if_command s cmd ''clear'' (Inr (clear_prompt s))
     (if_command s cmd ''cls'' (Inr (clear_prompt s))
     (if_command s cmd ''about'' (about s)
     (if_command s cmd ''regs'' (register_dump env s)
     (if_command s cmd ''timer'' (timer_dump env s)
     (if_command s cmd ''fetch'' (system_fetcher env junk s)
     (if_command s cmd ''reboot'' (reboot s)
     (if_command s cmd [] (puts (stk env) (Lit []) s)
        (puts (stk env) (Lit (LF @ ''Command not found!'')) s))))))))))"

section \<open>What the commands print\<close>

text \<open>The stack that the commands use: clear of the end of memory and of the screen.\<close>

definition stack_room :: "u32 \<Rightarrow> bool" where
  "stack_room p \<longleftrightarrow> unat p + 256 < 2 ^ 32 \<and> apart 256 p 7840 VIDEO_MEM_ADDR"

lemma room_part:
  assumes "stack_room p" "unat i + unat n \<le> 256" "0 < n"
  shows "apart n (p + i) 7840 VIDEO_MEM_ADDR"
proof -
  have "apart 7840 VIDEO_MEM_ADDR 256 p" using assms(1) by (simp add: stack_room_def apart_commute)
  moreover have "0 < unat n" using assms(3) by (simp add: unat_gt_0)
  then have "i < 256" using assms(2) by (simp add: word_less_nat_alt)
  ultimately have "apart 7840 VIDEO_MEM_ADDR n (p + i)"
    using assms(2) by (intro apart_sub [OF _ order_refl]) simp_all
  then show ?thesis by (simp add: apart_commute)
qed

lemma room_stack: "stack_room p \<Longrightarrow> stack_ok p"
  using room_part [of p 0 20] by (simp add: stack_ok_def stack_room_def)

text \<open>
  A command is quiet: it prints, and changes no memory but the frame buffer and the 52 bytes of
  stack of \<^verbatim>\<open>printf\<close> and \<^verbatim>\<open>timer_dump\<close>, and no variable of the kernel.
\<close>

definition quiet :: "u32 \<Rightarrow> 'a tty_scheme \<Rightarrow> 'a tty_scheme \<Rightarrow> bool" where
  "quiet p s t \<longleftrightarrow> tty_ok t \<and> same_outside (vga \<union> span p 52) (mem s) (mem t) \<and>
     interrupts_on t = interrupts_on s \<and> port_in t = port_in s \<and> port_reads t = port_reads s \<and>
     tty.more t = tty.more s"

lemma printed_quiet: "printed p s cs t \<Longrightarrow> quiet p s t"
  using span_mono [of 20 52 p] by (auto simp: printed_def print_frame_def quiet_def intro: same_outside_mono)

lemma quiet_refl: "tty_ok s \<Longrightarrow> quiet p s s"
  by (simp add: quiet_def)

lemma quiet_trans: "quiet p s t \<Longrightarrow> quiet p t u \<Longrightarrow> quiet p s u"
  by (auto simp: quiet_def intro: same_outside_trans)

lemma color_lines_printed:
  "ready buf ps s \<Longrightarrow> \<forall>l \<in> set ls. proper_lit (fst l) \<and> Suc (length (fst l)) < 2 ^ 32 \<Longrightarrow>
   \<exists>t. color_lines ls s = Inr t \<and>
     printed buf s (concat (List.map (\<lambda>l. items (snd l) BLACK (lit_bytes (fst l))) ls)) t"
proof (induction ls arbitrary: s)
  case Nil
  then show ?case by (simp add: ready_def printed_nil)
next
  case (Cons l ls)
  then show ?case unfolding color_lines.simps list.map concat.simps
    by (intro printed_bind [where ps = ps] color_printed) simp_all
qed

lemma puts_printed:
  assumes "ready buf ps s" "safe_cstr (mem s) buf p bs"
  shows "\<exists>t. puts buf p s = Inr t \<and> printed buf s (items WHITE BLACK (bs @ [0x0A])) t"
  unfolding puts_def using assms
  by (intro format_printed [where as = "[Text bs]"]) (simp_all add: literal)

text \<open>Every byte of a text written with \<open>art\<close> is proper.\<close>

lemma art_proper: "proper_lit cs \<Longrightarrow> proper_lit (art cs)"
  by (auto simp: proper_lit_def art_def)

lemma length_art [simp]: "length (art cs) = length cs"
  by (simp add: art_def)

lemma ready_tty: "tty_ok s \<Longrightarrow> stack_room p \<Longrightarrow> ready p {} s"
  by (simp add: ready_def room_stack)

text \<open>The screen after it has been sent \<open>cs\<close> by a quiet command.\<close>

definition says :: "u32 \<Rightarrow> 'a tty_scheme \<Rightarrow> (color \<times> color \<times> u8) list \<Rightarrow> 'a tty_scheme \<Rightarrow> bool" where
  "says p s cs t \<longleftrightarrow> quiet p s t \<and> screen t = fold term_put cs (screen s)"

lemma says_append: "says p s xs t \<Longrightarrow> says p t ys u \<Longrightarrow> says p s (xs @ ys) u"
  by (auto simp: says_def intro: quiet_trans)

lemma printed_says: "printed p s cs t \<Longrightarrow> says p s cs t"
  using printed_quiet by (auto simp: says_def printed_def)

lemma puts_says:
  assumes "tty_ok s" "stack_room p" "proper_lit cs" "Suc (length cs) < 2 ^ 32"
  shows "\<exists>t. puts p (Lit cs) s = Inr t \<and> says p s (items WHITE BLACK (lit_bytes (cs @ LF))) t"
proof -
  from puts_printed [OF ready_tty [OF assms(1,2)] safe_cstr_Lit [OF assms(3,4)]] obtain t where
    t: "puts p (Lit cs) s = Inr t" "printed p s (items WHITE BLACK (lit_bytes cs @ [0x0A])) t" by blast
  moreover have "lit_bytes (cs @ LF) = lit_bytes cs @ [0x0A]" by (simp add: lit_bytes_def)
  ultimately show ?thesis using printed_says [OF t(2)] by auto
qed

lemma helper_says:
  assumes "tty_ok s" "stack_room (stk env)"
  shows "\<exists>t. helper env s = Inr t \<and> says (stk env) s (items WHITE BLACK (lit_bytes (help_text @ LF))) t"
  unfolding helper_def
  by (rule puts_says [OF assms]) (simp_all add: help_text_def proper_lit_def art_def)

definition about_items :: "(color \<times> color \<times> u8) list" where
  "about_items = concat (List.map (\<lambda>l. items (snd l) BLACK (lit_bytes (fst l))) about_lines)"

lemma about_says:
  assumes "tty_ok s" "stack_room p"
  shows "\<exists>t. about s = Inr t \<and> says p s about_items t"
proof -
  have "\<forall>l \<in> set about_lines. proper_lit (fst l) \<and> Suc (length (fst l)) < 2 ^ 32"
    by (simp add: about_lines_def art_def proper_lit_def)
  from color_lines_printed [OF ready_tty [OF assms] this] printed_says show ?thesis
    unfolding about_def about_items_def by blast
qed

text \<open>The lines of the register dump, each register in hexadecimal.\<close>

definition dump_text :: "u32 list \<Rightarrow> u8 list" where
  "dump_text ds = concat (map2 (\<lambda>n d. lit_bytes (''    '' @ n @ '': '') @ uitoa_text d 16 @ [0x0A])
     [''EAX'', ''EBX'', ''ECX'', ''EDX'', ''ESX'', ''EDI'', ''EBP'', ''ESP''] ds)"

lemma length_eight: "length xs = 8 \<Longrightarrow> \<exists>a b c d e f g h. xs = [a, b, c, d, e, f, g, h]"
  by (auto simp: numeral_eq_Suc length_Suc_conv)

lemma dump_renders:
  assumes "length ds = 8"
  shows "render (lit_bytes dump_format) (List.map Num ds) = Some (dump_text ds)"
proof -
  from length_eight [OF assms] obtain a b c d e f g h where "ds = [a, b, c, d, e, f, g, h]" by blast
  then show ?thesis by (simp add: dump_format_def dump_text_def art_def lit_bytes_def skip_spaces_def)
qed

lemma dump_args: "list_all2 (arg_ok m buf) (List.map Word ds) (List.map Num ds)"
  by (induction ds) simp_all

definition dump_items :: "u32 list \<Rightarrow> (color \<times> color \<times> u8) list" where
  "dump_items ds = items LIGHT_BROWN BLACK (lit_bytes dump_header) @ items WHITE BLACK (dump_text ds) @
     items LIGHT_BROWN BLACK (lit_bytes dump_footer)"

lemma dump_says:
  assumes "tty_ok s" "stack_room (stk env)" "length (dump env) = 8"
  shows "\<exists>t. register_dump env s = Inr t \<and> says (stk env) s (dump_items (dump env)) t"
proof -
  have lits: "proper_lit dump_header" "proper_lit dump_format" "proper_lit dump_footer"
    "Suc (length dump_header) < 2 ^ 32" "Suc (length dump_format) < 2 ^ 32" "Suc (length dump_footer) < 2 ^ 32"
    by (simp_all add: dump_header_def dump_format_def dump_footer_def proper_lit_def art_def)
  note r = ready_tty [OF assms(1,2)]
  have "\<exists>t. register_dump env s = Inr t \<and> printed (stk env) s (dump_items (dump env)) t"
    unfolding register_dump_def dump_items_def
    by (rule printed_bind [OF color_printed [OF r lits(1,4)] r],
        rule printed_bind [OF format_printed [OF _ lits(2,5) dump_args dump_renders [OF assms(3)]]],
        assumption, assumption, rule color_printed [OF _ lits(3,6)], assumption)
  then show ?thesis using printed_says by blast
qed

lemma emits_says: "tty_ok s \<Longrightarrow> says p s cs (fold emit cs s)"
  by (intro printed_says printed_emits)

lemma isr_says:
  assumes "tty_ok s" "n < 32" "interrupt_handler s (ucast n) = None"
  shows "\<exists>t. software_interrupt run r n s = Inr t \<and> says p s (interrupt_items (unat n)) t"
proof -
  let ?r = "r\<lparr>int_num := n, err_code := 0\<rparr>" and ?t = "fold emit (interrupt_items (unat n)) (cli s)"
  have ok: "tty_ok (cli s)" using assms(1) by (simp add: cli_def tty_ok_def)
  have "isr_handler run ?r (cli s) = Inr ?t"
    using isr_message [of "cli s" ?r] assms ok by (simp add: cli_def)
  moreover have "says p s (interrupt_items (unat n)) (?t\<lparr>interrupts_on := interrupts_on s\<rparr>)"
    using emits_says [OF ok, of p "interrupt_items (unat n)"]
    by (simp add: says_def quiet_def cli_def tty_ok_def screen_def cong: if_cong)
  ultimately show ?thesis by (simp add: software_interrupt_def)
qed

text \<open>The array of \<^verbatim>\<open>timer_dump\<close> has room for seven digits.\<close>

lemma within_array_cstr:
  assumes "cstr m (At buf) bs"
  shows "within_array buf n m = (if length bs < n then Inr m else Inl (Undefined_behaviour ''end of array''))"
proof (cases "length bs < n")
  case True
  with cstr_end [OF assms] show ?thesis by (auto simp: within_array_def list_ex_iff intro!: bexI [of _ "length bs"])
next
  case False
  with cstr_nth [OF assms] cstr_nonzero [OF assms] show ?thesis by (auto simp: within_array_def list_ex_iff)
qed

lemma seven_digits: "length (uitoa_text n 10) < 8 \<longleftrightarrow> unat n < 10 ^ 7"
proof -
  have "length (digits 10 (unat n)) \<le> 7" if "unat n < 10 ^ 7"
    using that by (intro length_digits_le) simp_all
  moreover have "7 < length (digits 10 (unat n))" if "10 ^ 7 \<le> unat n"
    using that by (intro length_digits_ge) simp_all
  ultimately show ?thesis by (cases "unat n < 10 ^ 7") (auto simp: uitoa_text_def)
qed

lemma timer_quiet:
  assumes "tty_ok s" "stack_room (stk env)" "unat (tick s) < 10 ^ 7"
  shows "\<exists>t. timer_dump env s = Inr t \<and> quiet (stk env) s t \<and>
    cstr (mem t) (At (stk env + 32)) (uitoa_text (tick s) 10) \<and>
    screen t = fold term_put (items LIGHT_GREEN BLACK (lit_bytes (LF @ ''Ticks since boot: '')) @
      items LIGHT_CYAN BLACK (uitoa_text (tick s) 10)) (screen s)"
proof -
  let ?p = "stk env" and ?bs = "uitoa_text (tick s) 10"
  let ?n = "of_nat (Suc (length ?bs)) :: u32"
  have len: "length ?bs \<le> 10" using uitoa_text_short [of 10] by blast
  then have n: "unat ?n = Suc (length ?bs)" by (intro unat_of_nat32) simp
  have p32: "unat (?p + 32) = unat ?p + 32" using assms(2) by (intro unat_add32 [THEN trans]) (simp_all add: stack_room_def)
  have "unat (?p + 32) + 36 \<le> 2 ^ 32" using assms(2) p32 by (simp add: stack_room_def)
  from uitoa_cstr [of 10, OF _ _ this, of "mem s" "tick s"] obtain m where
    m: "uitoa (mem s) (tick s) (?p + 32) 10 = Inr m" "cstr m (At (?p + 32)) ?bs"
      "same_outside (span (?p + 32) ?n) (mem s) m" by auto
  have sub: "span (?p + 32) ?n \<subseteq> span ?p 52"
    using n len by (intro span_part) (simp del: of_nat_Suc)
  have out: "same_outside (span ?p 52) (mem s) m" using m(3) sub by (rule same_outside_mono)
  have "0 < ?n" using n by (simp add: word_less_nat_alt del: of_nat_Suc)
  then have "apart ?n (?p + 32) 7840 VIDEO_MEM_ADDR"
    using n len by (intro room_part [OF assms(2)]) (simp_all del: of_nat_Suc)
  moreover have "apart ?n (?p + 32) 20 ?p"
    using n len p32 assms(2) \<open>0 < ?n\<close> unfolding apart_commute [of ?n]
    by (intro apart_below) (simp_all add: stack_room_def del: of_nat_Suc)
  ultimately have safe: "safe_cstr m ?p (At (?p + 32)) ?bs"
    using m(2) len by (simp add: safe_cstr_def del: of_nat_Suc)
  let ?s = "s\<lparr>mem := m\<rparr>"
  have rdy: "ready ?p {(At (?p + 32), ?bs)} ?s"
    using assms safe room_stack by (simp add: ready_def tty_ok_def)
  have "\<exists>t. bindE (printf_color (Lit (LF @ ''Ticks since boot: '')) LIGHT_GREEN BLACK ?s) (printf_color (At (?p + 32)) LIGHT_CYAN BLACK) =
      Inr t \<and> printed ?p ?s (items LIGHT_GREEN BLACK (lit_bytes (LF @ ''Ticks since boot: '')) @ items LIGHT_CYAN BLACK ?bs) t"
    by (intro printed_bind [OF _ rdy] color_printed [OF rdy] color_ptr_printed)
      (assumption | rule insertI1 | simp add: proper_lit_def)+
  then obtain t where t: "bindE (printf_color (Lit (LF @ ''Ticks since boot: '')) LIGHT_GREEN BLACK ?s) (printf_color (At (?p + 32)) LIGHT_CYAN BLACK) = Inr t"
      "printed ?p ?s (items LIGHT_GREEN BLACK (lit_bytes (LF @ ''Ticks since boot: '')) @ items LIGHT_CYAN BLACK ?bs) t" by blast
  have "within_array (?p + 32) 8 m = Inr m"
    using within_array_cstr [OF m(2), of 8] assms(3) seven_digits [of "tick s"] by simp
  with t(1) m(1) have "timer_dump env s = Inr t" by (simp add: timer_dump_def Let_def)
  moreover have "quiet ?p s ?s" using assms(1) out by (auto simp: quiet_def tty_ok_def intro: same_outside_mono)
  with printed_quiet [OF t(2)] have "quiet ?p s t" by (blast intro: quiet_trans)
  moreover have "safe_cstr (mem t) ?p (At (?p + 32)) ?bs" using printed_safe [OF t(2)] safe by simp
  then have "cstr (mem t) (At (?p + 32)) ?bs" by (simp add: safe_cstr_def)
  moreover have "screen t = fold term_put (items LIGHT_GREEN BLACK (lit_bytes (LF @ ''Ticks since boot: '')) @
      items LIGHT_CYAN BLACK ?bs) (screen ?s)" using t(2) by (simp add: printed_def)
  moreover have "screen ?s = screen s"
  proof (rule screen_buffer)
    show "stack_ok (?p + 32)"
      using room_part [OF assms(2), of 32 20] p32 assms(2) by (simp add: stack_ok_def stack_room_def)
    have "?n \<le> 20" using n len by (simp add: word_le_nat_alt del: of_nat_Suc)
    with m(3) span_mono show "same_outside (span (?p + 32) 20) (mem s) m" by (blast intro: same_outside_mono)
  qed
  ultimately show ?thesis by auto
qed

lemma clear_prompt_ok:
  assumes "tty_ok s"
  shows "tty_ok (clear_prompt s)" "tty_frame s (clear_prompt s)"
proof -
  have "k \<le> 2000 \<Longrightarrow> tty_ok (fold (\<lambda>i. write_cell (of_nat i) 0x20 WHITE BLACK) [0..<k] t) = tty_ok t \<and>
      tty_frame t (fold (\<lambda>i. write_cell (of_nat i) 0x20 WHITE BLACK) [0..<k] t)" for k and t :: "'a tty_scheme"
  proof (induction k)
    case (Suc k)
    then show ?case by (simp add: tty_frame_trans [OF _ write_cell_frame])
  qed simp
  from this [of 2000 "s\<lparr>fb_col := 1, fb_row := 0\<rparr>"]
  have "tty_ok (fold (\<lambda>i. write_cell (of_nat i) 0x20 WHITE BLACK) [0..<2000] (s\<lparr>fb_col := 1, fb_row := 0\<rparr>))"
    "tty_frame (s\<lparr>fb_col := 1, fb_row := 0\<rparr>)
      (fold (\<lambda>i. write_cell (of_nat i) 0x20 WHITE BLACK) [0..<2000] (s\<lparr>fb_col := 1, fb_row := 0\<rparr>))"
    by (simp_all add: tty_ok_def)
  moreover have "tty_frame s (s\<lparr>fb_col := 1, fb_row := 0\<rparr>)" by (simp add: tty_frame_def)
  ultimately show "tty_ok (clear_prompt s)" "tty_frame s (clear_prompt s)"
    by (simp_all add: clear_prompt_def tty_frame_trans)
qed

text \<open>The empty terminal that \<^verbatim>\<open>clear_prompt\<close> leaves, and what the command shows.\<close>

definition cleared :: "term" where
  "cleared = \<lparr>cells = (\<lambda>r c. if in_grid r c then blank else (0, 0)), col = 1, row = 0\<rparr>"

lemma clear_cells:
  "k \<le> 2000 \<Longrightarrow> q < 2000 \<Longrightarrow>
   cell_at (mem (fold (\<lambda>i. write_cell (of_nat i) 0x20 WHITE BLACK) [0..<k] s)) q =
     (if q < k then blank else cell_at (mem s) q)"
  by (induction k) (auto simp: cell_at_write_cell blank_def)

lemma clear_prompt_blank: "screen (clear_prompt s) = cleared"
proof -
  have "fb_col (fold (\<lambda>i. write_cell (of_nat i) 0x20 WHITE BLACK) is t) = fb_col t \<and>
      fb_row (fold (\<lambda>i. write_cell (of_nat i) 0x20 WHITE BLACK) is t) = fb_row t" for "is" :: "nat list" and t :: "'a tty_scheme"
    by (induction "is" arbitrary: t) simp_all
  moreover have "80 * r + c < 2000" if "in_grid r c" for r c using that by (simp add: in_grid_def)
  ultimately show ?thesis
    using clear_cells [of 2000 _ "s\<lparr>fb_col := 1, fb_row := 0\<rparr>"]
    by (auto simp: screen_def cleared_def clear_prompt_def move_cursor_def outb_def fun_eq_iff)
qed

lemma frame_quiet: "tty_ok t \<Longrightarrow> tty_frame s t \<Longrightarrow> quiet p s t"
  by (auto simp: quiet_def tty_frame_def intro: same_outside_mono)

section \<open>Dispatch\<close>

text \<open>The table that the chain of comparisons stands for.\<close>

definition commands ::
    "env \<Rightarrow> icpuid_t \<Rightarrow> 'a runner \<Rightarrow> registers_t \<Rightarrow> (string \<times> ('a kernel_scheme \<Rightarrow> kerror + 'a kernel_scheme)) list" where
  "commands env junk run r =
     [(''help'', helper env), (''int'', test_interrupts run r), (''clear'', \<lambda>s. Inr (clear_prompt s)),
      (''cls'', \<lambda>s. Inr (clear_prompt s)), (''about'', about), (''regs'', register_dump env),
      (''timer'', timer_dump env), (''fetch'', system_fetcher env junk), (''reboot'', reboot),
      ([], puts (stk env) (Lit []))]"

definition not_found :: "env \<Rightarrow> 'a tty_scheme \<Rightarrow> kerror + 'a tty_scheme" where
  "not_found env = puts (stk env) (Lit (LF @ ''Command not found!''))"

lemma lit_bytes_eq [simp]: "lit_bytes xs = lit_bytes ys \<longleftrightarrow> xs = ys"
proof -
  have "inj (of_char :: char \<Rightarrow> u8)" by (simp add: inj_def of_char_eq)
  then show ?thesis by (simp add: lit_bytes_def inj_map_eq_map)
qed

lemma if_command_run:
  assumes "cstr (mem s) (At cmd) (lit_bytes line)" "proper_lit name"
  shows "if_command s cmd name t e = (if line = name then t else e)"
proof -
  from strcmp_zero [OF assms(1) cstr_Lit [OF assms(2)]] obtain d where
    "strcmp (mem s) (At cmd) (Lit name) = Inr d" "d = 0 \<longleftrightarrow> line = name" by auto
  then show ?thesis by (simp add: if_command_def)
qed

lemma dispatch:
  assumes "cstr (mem s) (At cmd) (lit_bytes line)"
  shows "processCommand env junk run r cmd s =
    (case map_of (commands env junk run r) line of Some f \<Rightarrow> f s | None \<Rightarrow> not_found env s)"
proof -
  have "\<forall>name \<in> {''help'', ''int'', ''clear'', ''cls'', ''about'', ''regs'', ''timer'', ''fetch'', ''reboot'', []}. proper_lit name"
    by (simp add: proper_lit_def)
  then show ?thesis
    by (simp add: processCommand_def commands_def not_found_def if_command_run [OF assms])
qed

lemma same_globals:
  fixes s t :: "'a kernel_scheme"
  assumes "tty.more t = tty.more s"
  shows "interrupt_handler t = interrupt_handler s" "command t = command s" "temp t = temp s"
    "cmd_index t = cmd_index s" "shiftdown t = shiftdown s" "tick t = tick s" "kheap t = kheap s"
    "placement_addr t = placement_addr s" "mm.more t = mm.more s"
  using assms by (cases t; cases s; simp)+

lemma int_says:
  assumes "tty_ok s" "\<forall>n \<in> {0, 1, 4}. interrupt_handler s n = None"
  shows "\<exists>t. test_interrupts run r s = Inr t \<and> says p s (concat (List.map interrupt_items [0, 4, 1])) t"
proof -
  have same: "tty_ok t \<and> (\<forall>n \<in> {0, 1, 4}. interrupt_handler t n = None)" if "says p s cs t" for cs t
    using that assms(2) same_globals(1) [of t s] by (simp add: says_def quiet_def)
  from isr_says [OF assms(1), of 0 run r p] assms(2) obtain t1 where
    t1: "software_interrupt run r 0 s = Inr t1" "says p s (interrupt_items 0) t1" by auto
  from isr_says [of t1 4 run r p] same [OF t1(2)] obtain t2 where
    t2: "software_interrupt run r 4 t1 = Inr t2" "says p t1 (interrupt_items 4) t2" by auto
  note q2 = says_append [OF t1(2) t2(2)]
  from isr_says [of t2 1 run r p] same [OF q2] obtain t3 where
    t3: "software_interrupt run r 1 t2 = Inr t3" "says p t2 (interrupt_items 1) t3" by auto
  from t1(1) t2(1) t3(1) says_append [OF q2 t3(2)] show ?thesis by (simp add: test_interrupts_def)
qed

text \<open>
  The commands that neither wait for hardware nor reset the machine, \<^verbatim>\<open>timer\<close> as long as the \<open>n\<close>
  ticks have at most seven digits, and what they show.
\<close>

definition tame :: "u32 \<Rightarrow> string \<Rightarrow> bool" where
  "tame n line \<longleftrightarrow> line \<noteq> ''fetch'' \<and> line \<noteq> ''reboot'' \<and> (line = ''timer'' \<longrightarrow> unat n < 10 ^ 7)"

definition timer_items :: "u32 \<Rightarrow> (color \<times> color \<times> u8) list" where
  "timer_items n = items LIGHT_GREEN BLACK (lit_bytes (LF @ ''Ticks since boot: '')) @
     items LIGHT_CYAN BLACK (uitoa_text n 10)"

definition reply :: "env \<Rightarrow> u32 \<Rightarrow> string \<Rightarrow> term \<Rightarrow> term" where
  "reply env ticks line =
     (if line = ''clear'' \<or> line = ''cls'' then (\<lambda>_. cleared)
      else fold term_put (case map_of
        [(''help'', items WHITE BLACK (lit_bytes (help_text @ LF))),
         (''int'', concat (List.map interrupt_items [0, 4, 1])),
         (''about'', about_items), (''regs'', dump_items (dump env)), (''timer'', timer_items ticks),
         ([], items WHITE BLACK (lit_bytes LF))] line of
          Some cs \<Rightarrow> cs
        | None \<Rightarrow> items WHITE BLACK (lit_bytes (LF @ ''Command not found!'' @ LF))))"

lemma commands_reply:
  assumes "tty_ok s" "stack_room (stk env)" "length (dump env) = 8"
    and "\<forall>n \<in> {0, 1, 4}. interrupt_handler s n = None" "tame (tick s) line"
  shows "\<exists>t. (case map_of (commands env junk run r) line of Some f \<Rightarrow> f s | None \<Rightarrow> not_found env s) = Inr t \<and>
    quiet (stk env) s t \<and> screen t = reply env (tick s) line (screen s)"
proof -
  note parts = helper_says [OF assms(1,2)] about_says [OF assms(1,2)] dump_says [OF assms(1-3)]
    int_says [OF assms(1,4)]
  have "\<exists>t. timer_dump env s = Inr t \<and> says (stk env) s (timer_items (tick s)) t" if "unat (tick s) < 10 ^ 7"
    using timer_quiet [OF assms(1,2) that] by (auto simp: says_def timer_items_def)
  moreover have "\<exists>t. puts (stk env) (Lit []) s = Inr t \<and> says (stk env) s (items WHITE BLACK (lit_bytes LF)) t"
    using puts_says [OF assms(1,2), of "[]"] by (simp add: proper_lit_def)
  moreover have "\<exists>t. not_found env s = Inr t \<and>
      says (stk env) s (items WHITE BLACK (lit_bytes (LF @ ''Command not found!'' @ LF))) t"
    unfolding not_found_def using puts_says [OF assms(1,2), of "LF @ ''Command not found!''"]
    by (simp add: proper_lit_def)
  moreover have "quiet (stk env) s (clear_prompt s)"
    using clear_prompt_ok [OF assms(1)] by (rule frame_quiet)
  ultimately show ?thesis
    using parts assms(5) by (auto simp: commands_def tame_def reply_def says_def clear_prompt_blank)
qed

section \<open>Reset\<close>

text \<open>
  How \<^verbatim>\<open>reboot\<close> uses the bytes that the ports deliver: a poll reads the status port, and the data
  port as well if bit 0 of the status says that there is data. \<open>polled inp k\<close> is the number of reads
  of \<open>k\<close> polls, and \<open>poll_status inp k\<close> the status that the poll behind them sees.
\<close>

fun polled :: "inputs \<Rightarrow> nat \<Rightarrow> nat" where
  "polled inp 0 = 0"
| "polled inp (Suc k) =
     (let n = if inp 0 0x64 AND 1 = 0 then 1 else 2 in n + polled (\<lambda>i. inp (n + i)) k)"

definition poll_status :: "inputs \<Rightarrow> nat \<Rightarrow> u8" where
  "poll_status inp k = inp (polled inp k) 0x64"

lemma flags: "check_flag b 0 = b AND 1" "check_flag b 1 = b AND 2" "check_flag b (Suc 0) = b AND 2"
  by (simp_all add: check_flag_def)

lemma poll_run:
  "\<exists>t. reboot_poll s = (poll_status (inputs s) 0, t) \<and> poll_status (inputs t) k = poll_status (inputs s) (Suc k) \<and>
    port_reads t + polled (inputs t) k = port_reads s + polled (inputs s) (Suc k) \<and>
    port_out t = port_out s \<and> mem t = mem s \<and> interrupts_on t = interrupts_on s \<and> machine.more t = machine.more s"
proof -
  define n where "n = (if inputs s 0 0x64 AND 1 = 0 then 1 else 2 :: nat)"
  let ?t = "snd (reboot_poll s)"
  have r: "reboot_poll s = (poll_status (inputs s) 0, ?t)" "port_reads ?t = port_reads s + n" "port_in ?t = port_in s"
    "port_out ?t = port_out s" "mem ?t = mem s" "interrupts_on ?t = interrupts_on s" "machine.more ?t = machine.more s"
    by (simp_all add: reboot_poll_def inb_def poll_status_def inputs_def n_def flags)
  have "inputs ?t = (\<lambda>i. inputs s (n + i))" using r by (simp add: inputs_def fun_eq_iff add.assoc)
  then have "poll_status (inputs ?t) k = poll_status (inputs s) (Suc k)"
    "n + polled (inputs ?t) k = polled (inputs s) (Suc k)"
    by (simp_all add: poll_status_def n_def Let_def)
  with r show ?thesis by (intro exI [of _ ?t]) simp
qed

abbreviation resets :: "nat \<Rightarrow> 'a machine_scheme \<Rightarrow> 'a machine_scheme \<Rightarrow> bool" where
  "resets n s t \<equiv> port_reads t = port_reads s + n \<and> port_out t = port_out s @ [(0x64, 0xFE)] \<and> mem t = mem s \<and>
     \<not> interrupts_on t \<and> machine.more t = machine.more s"

lemma reboot_ready:
  assumes "\<forall>j < k. poll_status (inputs s) j AND 2 \<noteq> 0" "poll_status (inputs s) k AND 2 = 0"
  shows "\<exists>t. reboot s = Inr t \<and> resets (polled (inputs s) (Suc k)) s t"
proof -
  let ?loop = "while_res (\<lambda>(tmp, s). check_flag tmp 1 \<noteq> 0) (\<lambda>(tmp, s). Inr (reboot_poll s))"
  have run: "\<exists>b t. ?loop (reboot_poll s) = Inr (b, t) \<and> port_reads t = port_reads s + polled (inputs s) (Suc k) \<and>
      port_out t = port_out s \<and> mem t = mem s \<and> interrupts_on t = interrupts_on s \<and> machine.more t = machine.more s"
    if "\<forall>j < k. poll_status (inputs s) j AND 2 \<noteq> 0" "poll_status (inputs s) k AND 2 = 0" for s :: "'a machine_scheme"
    using that
  proof (induction k arbitrary: s)
    case 0
    from poll_run [of s 0] obtain t where t: "reboot_poll s = (poll_status (inputs s) 0, t)"
      "port_reads t = port_reads s + polled (inputs s) (Suc 0)" "port_out t = port_out s" "mem t = mem s"
      "interrupts_on t = interrupts_on s" "machine.more t = machine.more s" by auto
    have "?loop (reboot_poll s) = Inr (poll_status (inputs s) 0, t)"
      unfolding t(1) using 0 by (subst while_res_stop) (simp_all add: flags)
    with t(2-) show ?case by blast
  next
    case (Suc k)
    from poll_run [of s] obtain t where t: "reboot_poll s = (poll_status (inputs s) 0, t)"
      by blast
    have next_poll: "poll_status (inputs t) j = poll_status (inputs s) (Suc j)"
      "port_reads t + polled (inputs t) (Suc j) = port_reads s + polled (inputs s) (Suc (Suc j))"
      "port_out t = port_out s" "mem t = mem s" "interrupts_on t = interrupts_on s" "machine.more t = machine.more s" for j
      using poll_run [of s j] poll_run [of s "Suc j"] t by (auto simp del: polled.simps)
    from Suc.prems have "\<forall>j < k. poll_status (inputs t) j AND 2 \<noteq> 0" "poll_status (inputs t) k AND 2 = 0"
      by (simp_all add: next_poll(1))
    from Suc.IH [OF this] next_poll have "\<exists>b u. ?loop (reboot_poll t) = Inr (b, u) \<and>
        port_reads u = port_reads s + polled (inputs s) (Suc (Suc k)) \<and> port_out u = port_out s \<and> mem u = mem s \<and>
        interrupts_on u = interrupts_on s \<and> machine.more u = machine.more s" by (auto simp del: polled.simps)
    moreover have "poll_status (inputs s) 0 AND 2 \<noteq> 0" using Suc.prems(1) by simp
    then have "?loop (reboot_poll s) = ?loop (reboot_poll t)"
      unfolding t by (subst while_res_step) (simp_all add: flags)
    ultimately show ?case by simp
  qed
  have c: "inputs (cli s) = inputs s" "port_reads (cli s) = port_reads s" "port_out (cli s) = port_out s"
    "mem (cli s) = mem s" "\<not> interrupts_on (cli s)" "machine.more (cli s) = machine.more s"
    by (simp_all add: inputs_def cli_def fun_eq_iff)
  from run [of "cli s"] assms obtain b t where "?loop (reboot_poll (cli s)) = Inr (b, t)"
      "port_reads t = port_reads s + polled (inputs s) (Suc k)" "port_out t = port_out s" "mem t = mem s"
      "\<not> interrupts_on t" "machine.more t = machine.more s" unfolding c by (metis c(5))
  then show ?thesis by (simp add: reboot_def del: polled.simps)
qed

lemma reboot_stuck:
  assumes "\<forall>j. poll_status (inputs s) j AND 2 \<noteq> 0"
  shows "reboot s = Inl Diverges"
proof -
  let ?P = "\<lambda>(b, t). b AND 2 \<noteq> 0 \<and> (\<forall>j. poll_status (inputs t) j AND 2 \<noteq> 0)"
  have poll: "?P (reboot_poll t)" if "\<forall>j. poll_status (inputs t) j AND 2 \<noteq> 0" for t :: "'a machine_scheme"
  proof -
    have "poll_status (inputs (snd (reboot_poll t))) j AND 2 \<noteq> 0" for j
      using poll_run [of t j] that by auto
    moreover have "fst (reboot_poll t) = poll_status (inputs t) 0" using poll_run [of t 0] by auto
    ultimately show ?thesis using that by (simp add: case_prod_beta)
  qed
  have "while_res (\<lambda>(tmp, s). check_flag tmp 1 \<noteq> 0) (\<lambda>(tmp, s). Inr (reboot_poll s)) (reboot_poll (cli s)) = Inl Diverges"
  proof (rule while_res_diverges [where P = ?P])
    have "inputs (cli s) = inputs s" by (simp add: inputs_def cli_def fun_eq_iff)
    then show "?P (reboot_poll (cli s))" using assms by (intro poll) simp
  next
    fix p :: "u8 \<times> 'a machine_scheme" assume p: "?P p"
    obtain b t where bt: "p = (b, t)" by fastforce
    with p poll [of t] show "(case p of (tmp, s) \<Rightarrow> check_flag tmp 1 \<noteq> 0) \<and>
        (\<exists>q. (case p of (tmp, s) \<Rightarrow> Inr (reboot_poll s)) = Inr q \<and> ?P q)" by (simp add: flags)
  qed
  then show ?thesis by (simp add: reboot_def)
qed

section \<open>Properties\<close>

text \<open>
  C13: The chain of comparisons in \<^verbatim>\<open>processCommand\<close> is a lookup of the line in the table of
  commands: the whole line decides, the order of the tests does not matter, \<^verbatim>\<open>clear\<close> and
  \<^verbatim>\<open>cls\<close> are the same command, an empty line prints an empty line, and any other line is
  reported as not found.
\<close>

theorem shell_dispatch:
  assumes "cstr (mem s) (At cmd) (lit_bytes line)"
  shows "processCommand env junk run r cmd s =
    (case map_of (commands env junk run r) line of Some f \<Rightarrow> f s
     | None \<Rightarrow> puts (stk env) (Lit (LF @ ''Command not found!'')) s)"
  unfolding dispatch [OF assms] not_found_def ..

text \<open>
  C17: Every command but \<^verbatim>\<open>fetch\<close> and \<^verbatim>\<open>reboot\<close>, known or not, returns, also the one that
  raises three interrupts, as long as these have no handler, and \<^verbatim>\<open>timer\<close> as long as the counter is below
  10 000 000 (its digits fit their array): the cursor stays on the screen, memory changes only
  in the frame buffer and in 52 bytes of the stack, the interrupt flag is as before, and no
  variable of the kernel changes. The screen gets exactly the answer to the line: the
  list of commands, the messages of interrupts 0, 4 and 1, the empty screen with the cursor in the first
  row, the logo, the registers in hexadecimal, the tick counter in decimal, an empty line for an
  empty line, and for any other line that there is no such command.
\<close>

theorem shell_commands_return:
  assumes "tty_ok s" "stack_room (stk env)" "length (dump env) = 8"
    and "\<forall>n \<in> {0, 1, 4}. interrupt_handler s n = None"
    and "cstr (mem s) (At cmd) (lit_bytes line)" "line \<noteq> ''fetch''" "line \<noteq> ''reboot''"
    and "line = ''timer'' \<longrightarrow> unat (tick s) < 10 ^ 7"
  shows "\<exists>t. processCommand env junk run r cmd s = Inr t \<and> tty_ok t \<and>
    same_outside (vga \<union> span (stk env) 52) (mem s) (mem t) \<and>
    interrupts_on t = interrupts_on s \<and> tty.more t = tty.more s \<and>
    screen t = reply env (tick s) line (screen s)"
  using commands_reply [OF assms(1-4), of line junk run r] dispatch [OF assms(5), of env junk run r] assms(6-8)
  by (auto simp: tame_def quiet_def)

text \<open>
  C38: \<^verbatim>\<open>timer_dump\<close> shows the tick counter in decimal. Its local array has 8 bytes, which
  is enough for the digits and the terminator exactly while the counter is below 10 000 000; from
  then on the digits run past the end of the array and the command has no defined behaviour.
\<close>

theorem timer_dump_overflow:
  assumes "tty_ok s" "stack_room (stk env)"
  shows "if unat (tick s) < 10 ^ 7 then
      (\<exists>t. timer_dump env s = Inr t \<and> cstr (mem t) (At (stk env + 32)) (uitoa_text (tick s) 10) \<and>
        screen t = fold term_put (items LIGHT_GREEN BLACK (lit_bytes (LF @ ''Ticks since boot: '')) @
          items LIGHT_CYAN BLACK (uitoa_text (tick s) 10)) (screen s))
    else timer_dump env s = Inl (Undefined_behaviour ''end of array'')"
proof (cases "unat (tick s) < 10 ^ 7")
  case True
  with timer_quiet [OF assms True] show ?thesis by auto
next
  case False
  have "unat (stk env + 32) + 36 \<le> 2 ^ 32"
    using assms(2) unat_add32 [of "stk env" 32] by (simp add: stack_room_def)
  from uitoa_cstr [of 10, OF _ _ this, of "mem s" "tick s"] obtain m where
    "uitoa (mem s) (tick s) (stk env + 32) 10 = Inr m" "cstr m (At (stk env + 32)) (uitoa_text (tick s) 10)" by auto
  moreover from this(2) have "within_array (stk env + 32) 8 m = Inl (Undefined_behaviour ''end of array'')"
    using within_array_cstr [of m _ _ 8] False seven_digits by auto
  ultimately show ?thesis using False by (simp add: timer_dump_def Let_def)
qed

text \<open>
  C40: \<^verbatim>\<open>reboot\<close> turns interrupts off and waits for the keyboard controller, draining its
  data: each poll reads the status, and one byte more whenever bit 0 of the status says that there is one. At
  the first poll with bit 1 clear, number \<open>k\<close>, it sends exactly the reset command, after exactly the reads of these
  polls, with memory and every variable unchanged; if no poll finds the controller ready the kernel
  polls for ever.
\<close>

theorem reboot_resets:
  "((\<forall>j < k. poll_status (inputs s) j AND 2 \<noteq> 0) \<and> poll_status (inputs s) k AND 2 = 0 \<longrightarrow>
     (\<exists>t. reboot s = Inr t \<and> port_reads t = port_reads s + polled (inputs s) (Suc k) \<and>
        port_out t = port_out s @ [(0x64, 0xFE)] \<and> mem t = mem s \<and> \<not> interrupts_on t \<and>
        machine.more t = machine.more s)) \<and>
   ((\<forall>j. poll_status (inputs s) j AND 2 \<noteq> 0) \<longrightarrow> reboot s = Inl Diverges)"
  using reboot_ready [of k s] reboot_stuck [of s] by blast

text \<open>Examples: a machine with one command line, with many ticks.\<close>

definition with_line :: "u8 list \<Rightarrow> kernel" where
  "with_line bs = power_up\<lparr>mem := (\<lambda>a. if unat (a - 0x1F0000) < length bs then bs ! unat (a - 0x1F0000) else 0)\<rparr>"

lemma with_line_simps [simp]:
  "tty_ok (with_line bs)" "interrupt_handler (with_line bs) = (\<lambda>n. None)" "command (with_line bs) = 0x1F0000"
  by (simp_all add: with_line_def power_up_def tty_ok_def)

lemma demo_room: "stack_room (stk demo_env)" "length (dump demo_env) = 8"
  by (simp_all add: demo_env_def stack_room_def apart_def)

lemma with_line_cstr: "cstr (mem (with_line (lit_bytes ''cls''))) (At 0x1F0000) (lit_bytes ''cls'')"
  by (simp add: cstr_def read8_def with_line_def lit_bytes_def)

theorem shell_dispatch_witness:
  "\<forall>junk run r. processCommand demo_env junk run r 0x1F0000 (with_line (lit_bytes ''cls'')) =
    Inr (clear_prompt (with_line (lit_bytes ''cls'')))"
  using shell_dispatch [OF with_line_cstr] by (simp add: commands_def)

theorem shell_commands_return_witness:
  "\<forall>junk r. \<exists>t. processCommand demo_env junk timer_runner r 0x1F0000 (with_line (lit_bytes ''cls'')) = Inr t \<and> tty_ok t"
  using shell_commands_return [OF with_line_simps(1) demo_room _ with_line_cstr, of _ timer_runner] by fastforce

theorem timer_dump_overflow_witness:
  "timer_dump demo_env (power_up\<lparr>tick := 12345678\<rparr>) = Inl (Undefined_behaviour ''end of array'')"
proof -
  have "tty_ok (power_up\<lparr>tick := 12345678\<rparr>)" by (simp add: tty_ok_def)
  from timer_dump_overflow [OF this demo_room(1)] show ?thesis by simp
qed

theorem reboot_resets_witness:
  "let s = power_up\<lparr>port_in := \<lambda>n p. if n < 2 then 3 else 0\<rparr> in
   \<exists>t. reboot s = Inr t \<and> port_reads t = 3 \<and> port_out t = [(0x64, 0xFE)]"
proof -
  let ?s = "power_up\<lparr>port_in := \<lambda>n p. if n < 2 then 3 else 0\<rparr>"
  have in_s: "inputs ?s = (\<lambda>n p. if n < 2 then 3 else 0)" by (simp add: inputs_def power_up_def fun_eq_iff)
  have "polled (inputs ?s) 1 = 2" "polled (inputs ?s) 2 = 3"
    unfolding in_s by (simp_all add: Let_def numeral_2_eq_2)
  moreover from this have "poll_status (inputs ?s) 0 = 3" "poll_status (inputs ?s) 1 = 0"
    unfolding poll_status_def by (simp_all add: in_s)
  ultimately show ?thesis
    using reboot_resets [of 1 ?s] by (auto simp: power_up_def numeral_2_eq_2 Let_def simp del: polled.simps)
qed

end
