(* ===== verification/Keyboard.thy ===== *)
theory Keyboard
  imports Shell
begin

text \<open>
  The keyboard, \<^verbatim>\<open>kernel/drivers/keyboard.c\<close>: the interrupt handler that edits the command
  line and hands it to the shell. The buffers \<^verbatim>\<open>command\<close> and \<^verbatim>\<open>temp\<close> are 512 bytes of
  memory each; a write beyond them is a write to the memory that follows. The table of scan codes
  has 91 entries; an access beyond it reads the bytes that follow it, which are the function
  \<open>past_scan_codes\<close> of the environment.
\<close>

section \<open>The operations\<close>

abbreviation KB_DATA_PORT :: u16 where "KB_DATA_PORT \<equiv> 0x60"

definition keyboard_scan_codes :: "u8 list" where
  "keyboard_scan_codes =
     [0, 0x1B, 0x31, 0x32, 0x33, 0x34, 0x35, 0x36, 0x37, 0x38, 0x30, 0x30, 0x2D, 0x3D, 0x08,
      0x09, 0x71, 0x77, 0x65, 0x72, 0x74, 0x79, 0x75, 0x69, 0x6F, 0x70, 0x5B, 0x5D, 0x0A, 0,
      0x61, 0x73, 0x64, 0x66, 0x67, 0x68, 0x6A, 0x6B, 0x6C, 0x3B, 0x27, 0x60, 0, 0x5C, 0x7A,
      0x78, 0x63, 0x76, 0x62, 0x6E, 0x6D, 0x2C, 0x2E, 0x2F, 0, 0x2A, 0, 0x20, 0, 0,
      0, 0, 0, 0, 0, 0, 0, 0, 0, 0, 0, 0, 0, 0, 0,
      0x2D, 0, 0, 0, 0x2B, 0, 0, 0, 0, 0, 0, 0, 0, 0, 0,
      0]"

definition key_at :: "env \<Rightarrow> u8 \<Rightarrow> u8" where
  "key_at env scan_code =
     (if unat scan_code < length keyboard_scan_codes then keyboard_scan_codes ! unat scan_code
      else past_scan_codes env scan_code)"

definition clear :: "'a kernel_scheme \<Rightarrow> 'a kernel_scheme" where
  "clear s = s\<lparr>mem := fold (\<lambda>i m. put_byte (command s) m i 0) [0..<512] (mem s)\<rparr>"

text \<open>\<^verbatim>\<open>clear_tmp\<close> is written like \<^verbatim>\<open>clear\<close>: it clears \<^verbatim>\<open>command\<close>, not \<^verbatim>\<open>temp\<close>.\<close>

definition clear_tmp :: "'a kernel_scheme \<Rightarrow> 'a kernel_scheme" where
  "clear_tmp s = s\<lparr>mem := fold (\<lambda>i m. put_byte (command s) m i 0) [0..<512] (mem s)\<rparr>"

text \<open>The two loops that copy \<^verbatim>\<open>cmd_index\<close> bytes between the buffers.\<close>

definition copy_line :: "u32 \<Rightarrow> u32 \<Rightarrow> 'a kernel_scheme \<Rightarrow> 'a kernel_scheme" where
  "copy_line dst src s =
     s\<lparr>mem := fold (\<lambda>i m. put_byte dst m i (get_byte src m i)) [0..<unat (cmd_index s)] (mem s)\<rparr>"

definition delete_key :: "'a kernel_scheme \<Rightarrow> 'a kernel_scheme" where
  "delete_key s =
     (if cmd_index s \<le> 0 then s
      else
        let s = s\<lparr>cmd_index := cmd_index s - 1\<rparr>;
            s = copy_line (temp s) (command s) s;
            s = clear s;
            s = copy_line (command s) (temp s) s;
            s = clear_tmp s
        in backspace s)"

definition enter_key ::
    "env \<Rightarrow> icpuid_t \<Rightarrow> 'a runner \<Rightarrow> registers_t \<Rightarrow> 'a kernel_scheme \<Rightarrow> kerror + 'a kernel_scheme" where
  "enter_key env junk run r s =
     bindE (processCommand env junk run r (command s) s) (\<lambda>s.
     Inr (init_prompt (clear (s\<lparr>cmd_index := 0\<rparr>))))"

definition char_key :: "env \<Rightarrow> u8 \<Rightarrow> 'a kernel_scheme \<Rightarrow> kerror + 'a kernel_scheme" where
  "char_key env keycode s =
     bindE (printf (stk env) (Lit ''%c'') [Word (ucast keycode)] s) (\<lambda>s.
     Inr (s\<lparr>mem := write8 (mem s) (command s + cmd_index s) keycode, cmd_index := cmd_index s + 1\<rparr>))"

definition keyboard_callback ::
    "env \<Rightarrow> icpuid_t \<Rightarrow> 'a runner \<Rightarrow> registers_t \<Rightarrow> 'a kernel_scheme \<Rightarrow> kerror + 'a kernel_scheme" where
  "keyboard_callback env junk run r s =
     (case inb KB_DATA_PORT s of (scan_code, s) \<Rightarrow>
      let keycode = key_at env scan_code in
      if scan_code AND 0x80 \<noteq> 0 then
        Inr (if scan_code = 0xAA \<or> scan_code = 0x86 then s\<lparr>shiftdown := 0\<rparr> else s)
      else if keycode = 0x08 then Inr (delete_key s)
      else if keycode = 0x0A then enter_key env junk run r s
      else char_key env keycode s)"

definition init_keyboard :: "'a kernel_scheme \<Rightarrow> 'a kernel_scheme" where
  "init_keyboard s = register_interrupt_handler IRQ1 Keyboard_callback s"

section \<open>The command line\<close>

text \<open>
  \<open>line_ok env s cs\<close>: the buffer holds \<open>cs\<close> and zeros after it, and the buffers are apart
  from each other, from the frame buffer and from the stack.
\<close>

definition buffers_ok :: "env \<Rightarrow> 'a kernel_scheme \<Rightarrow> bool" where
  "buffers_ok env s \<longleftrightarrow> stack_room (stk env) \<and> apart 512 (command s) 7840 VIDEO_MEM_ADDR \<and>
     apart 512 (command s) 256 (stk env) \<and> apart 512 (command s) 512 (temp s)"

definition line_ok :: "env \<Rightarrow> 'a kernel_scheme \<Rightarrow> u8 list \<Rightarrow> bool" where
  "line_ok env s cs \<longleftrightarrow> tty_ok s \<and> buffers_ok env s \<and> length cs \<le> 511 \<and>
     cmd_index s = of_nat (length cs) \<and>
     (\<forall>i < 512. get_byte (command s) (mem s) i = (if i < length cs then cs ! i else 0))"

lemma line_cstr: "line_ok env s cs \<Longrightarrow> 0 \<notin> set cs \<Longrightarrow> cstr (mem s) (At (command s)) cs"
  by (intro cstrI) (auto simp: line_ok_def simp flip: get_byte_def)

text \<open>With null bytes in the line the shell sees what stands in front of the first one.\<close>

lemma line_prefix:
  assumes "line_ok env s cs"
  shows "cstr (mem s) (At (command s)) (takeWhile (\<lambda>b. b \<noteq> 0) cs)"
proof -
  let ?w = "takeWhile (\<lambda>b. b \<noteq> 0) cs"
  have len: "length ?w \<le> length cs" "length cs \<le> 511"
    using assms by (simp_all add: line_ok_def length_takeWhile_le)
  have byte: "byte_at (mem s) (At (command s)) (of_nat i) = (if i < length cs then cs ! i else 0)" if "i < 512" for i
    using assms that by (simp add: line_ok_def flip: get_byte_def)
  show ?thesis
  proof (rule cstrI)
    fix j assume "j < length ?w"
    then show "byte_at (mem s) (At (command s)) (of_nat j) = ?w ! j"
      using len by (subst byte) (auto simp: takeWhile_nth)
  next
    show "byte_at (mem s) (At (command s)) (of_nat (length ?w)) = 0"
      using len nth_length_takeWhile [of "\<lambda>b. b \<noteq> 0" cs] by (subst byte) auto
  qed (auto dest: set_takeWhileD)
qed

text \<open>Changes elsewhere keep the line.\<close>

lemma command_keep:
  assumes "buffers_ok env s" "same_outside (vga \<union> span (stk env) 52) (mem s) m" "i < 512"
  shows "get_byte (command s) m i = get_byte (command s) (mem s) i"
proof -
  have "command s + of_nat i \<in> span (command s) (of_nat 512)"
    using assms(3) by (intro in_span_of_nat) simp_all
  then have "command s + of_nat i \<notin> vga" "command s + of_nat i \<notin> span (stk env) 256"
    using assms(1) span_disjoint unfolding buffers_ok_def by auto
  moreover have "span (stk env) 52 \<subseteq> span (stk env) 256" by (intro span_mono) simp
  ultimately show ?thesis using assms(2) by (auto simp: same_outside_def get_byte_def read8_def)
qed

lemma quiet_buffers:
  fixes s t :: "'a kernel_scheme"
  assumes "quiet p s t"
  shows "buffers_ok env t = buffers_ok env s"
  using assms same_globals [of t s] by (simp add: quiet_def buffers_ok_def)

lemma quiet_line:
  fixes s t :: "'a kernel_scheme"
  assumes "line_ok env s cs" "quiet (stk env) s t"
  shows "line_ok env t cs"
proof -
  have "\<forall>i < 512. get_byte (command s) (mem t) i = get_byte (command s) (mem s) i"
    using assms command_keep [of env s "mem t"] by (simp add: quiet_def line_ok_def)
  moreover have "command t = command s" "cmd_index t = cmd_index s" "tty_ok t"
    using assms(2) same_globals [of t s] by (simp_all add: quiet_def)
  ultimately show ?thesis using assms(1) quiet_buffers [OF assms(2)] by (simp add: line_ok_def)
qed

lemma clear_run:
  "get_byte (command s) (mem (clear s)) i = (if i < 512 then 0 else get_byte (command s) (mem s) i)" if "i < 2 ^ 32"
  using that by (simp add: clear_def bytes.get_fold_put)

lemma clear_simps [simp]:
  "command (clear s) = command s" "temp (clear s) = temp s" "cmd_index (clear s) = cmd_index s"
  "tty_ok (clear s) = tty_ok s" "buffers_ok env (clear s) = buffers_ok env s"
  "fb_col (clear s) = fb_col s" "fb_row (clear s) = fb_row s" "clear_tmp s = clear s"
  by (simp_all add: clear_def clear_tmp_def tty_ok_def buffers_ok_def)

lemma copy_line_simps [simp]:
  "command (copy_line d c s) = command s" "temp (copy_line d c s) = temp s"
  "cmd_index (copy_line d c s) = cmd_index s" "tty_ok (copy_line d c s) = tty_ok s"
  "buffers_ok env (copy_line d c s) = buffers_ok env s"
  "fb_col (copy_line d c s) = fb_col s" "fb_row (copy_line d c s) = fb_row s"
  by (simp_all add: copy_line_def tty_ok_def buffers_ok_def)

lemma screen_globals [simp]:
  "screen (s\<lparr>cmd_index := i\<rparr>) = screen s" "screen (t\<lparr>port_reads := n\<rparr>) = screen t"
  by (simp_all add: screen_def cong: if_cong)

text \<open>A character key changes neither the handlers nor the clock nor the interrupt flag.\<close>

definition undisturbed :: "'a kernel_scheme \<Rightarrow> 'a kernel_scheme \<Rightarrow> bool" where
  "undisturbed s t \<longleftrightarrow> interrupt_handler t = interrupt_handler s \<and> tick t = tick s \<and>
     interrupts_on t = interrupts_on s \<and> command t = command s"

lemma char_key_run:
  assumes "line_ok env s cs" "length cs < 511"
  shows "\<exists>t. char_key env k s = Inr t \<and> line_ok env t (cs @ [k]) \<and> port_in t = port_in s \<and>
    port_reads t = port_reads s \<and> undisturbed s t \<and> screen t = term_put (WHITE, BLACK, k) (screen s)"
proof -
  have ok: "tty_ok s" "stack_room (stk env)" using assms(1) by (simp_all add: line_ok_def buffers_ok_def)
  have "\<exists>u. printf (stk env) (Lit ''%c'') [Word (ucast k)] s = Inr u \<and>
      printed (stk env) s (items WHITE BLACK [ucast (ucast k :: u32)]) u"
    by (rule format_printed [OF ready_tty [OF ok], where as = "[Num (ucast k)]"]) (simp_all add: literal)
  moreover have "(ucast (ucast k :: u32) :: u8) = k" by (rule bit_word_eqI) (simp add: bit_simps)
  ultimately obtain u where u: "printf (stk env) (Lit ''%c'') [Word (ucast k)] s = Inr u"
    "printed (stk env) s (items WHITE BLACK [k]) u" by auto
  from quiet_line [OF assms(1) printed_quiet [OF u(2)]] have line: "line_ok env u cs" .
  let ?t = "u\<lparr>mem := write8 (mem u) (command u + cmd_index u) k, cmd_index := cmd_index u + 1\<rparr>"
  let ?m = "put_byte (command u) (mem u) (length cs) k"
  have m: "mem ?t = ?m" using line by (simp add: line_ok_def put_byte_def)
  have "line_ok env ?t (cs @ [k])"
    using line assms(2) m by (auto simp: line_ok_def bytes.get_put nth_append tty_ok_def buffers_ok_def)
  moreover have "screen ?t = screen u"
  proof -
    have "command u + of_nat (length cs) \<in> span (command u) (of_nat 512)"
      using assms(2) by (intro in_span_of_nat) simp_all
    then have "same_outside (span (command u) 512) (mem u) ?m" by (intro put_byte_same_outside) simp
    moreover have "apart 512 (command u) 7840 VIDEO_MEM_ADDR"
      using line by (simp add: line_ok_def buffers_ok_def)
    ultimately have "screen (u\<lparr>mem := ?m\<rparr>) = screen u" by (rule screen_apart [rotated])
    then show ?thesis using m by simp
  qed
  moreover have "char_key env k s = Inr ?t" using u(1) by (simp add: char_key_def)
  moreover have "undisturbed s u" "port_in u = port_in s" "port_reads u = port_reads s"
    using printed_quiet [OF u(2)] u(2) same_globals [of u s]
    by (simp_all add: quiet_def printed_def print_frame_def undisturbed_def)
  ultimately show ?thesis using u(2) by (auto simp: printed_def items_def undisturbed_def)
qed

text \<open>Enter.\<close>

lemma prompt_quiet: "tty_ok s \<Longrightarrow> quiet p s (init_prompt s)"
  using init_prompt_ok [of s] frame_quiet [of "init_prompt s" s p] by simp

lemma cleared_line:
  assumes "tty_ok s" "buffers_ok env s"
  shows "line_ok env (clear (s\<lparr>cmd_index := 0\<rparr>)) []"
  using assms clear_run [of _ "s\<lparr>cmd_index := 0\<rparr>"] by (simp add: line_ok_def buffers_ok_def tty_ok_def)

lemma enter_run:
  assumes "processCommand env junk run r (command s) s = Inr u" "quiet (stk env) s u" "buffers_ok env s"
  shows "\<exists>t. enter_key env junk run r s = Inr t \<and> line_ok env t []"
proof -
  have "tty_ok u" using assms(2) by (simp add: quiet_def)
  moreover have "buffers_ok env u" using assms(3) quiet_buffers [OF assms(2)] by simp
  ultimately have "line_ok env (clear (u\<lparr>cmd_index := 0\<rparr>)) []" by (rule cleared_line)
  from quiet_line [OF this prompt_quiet] this assms(1) show ?thesis
    by (simp add: enter_key_def line_ok_def)
qed

text \<open>Backspace.\<close>

lemma erase_line:
  assumes "i < 512"
  shows "get_byte (command s) (mem (clear_tmp (copy_line d c (clear s)))) i = 0"
  using assms clear_run [of i "copy_line d c (clear s)"] by simp

lemma backspace_fields [simp]:
  "fb_col (backspace s) = fb_col s - 1" "fb_row (backspace s) = fb_row s"
  by (simp_all add: backspace_def Let_def)

lemma backspace_globals [simp]:
  "command (backspace s) = command s" "cmd_index (backspace s) = cmd_index s"
  "buffers_ok env (backspace s) = buffers_ok env s"
  by (simp_all add: backspace_def Let_def write_cell_def buffers_ok_def)

lemma copy_line_out:
  assumes "cmd_index s \<le> 512"
  shows "same_outside (span d 512) (mem s) (mem (copy_line d c s))"
proof -
  have "unat (cmd_index s) \<le> 512" using assms by (simp add: word_le_nat_alt)
  then show ?thesis
    using fill_same_outside [of 512 "unat (cmd_index s)" d "mem s" "\<lambda>i m. get_byte c m i"]
    by (simp add: copy_line_def)
qed

lemma clear_out: "same_outside (span (command s) 512) (mem s) (mem (clear s))"
  using fill_same_outside [of 512 512 "command s" "mem s" "\<lambda>i m. 0"] by (simp add: clear_def)

lemma clear_screen: "apart 512 (command s) 7840 VIDEO_MEM_ADDR \<Longrightarrow> screen (clear s) = screen s"
  using screen_apart [OF _ clear_out, of s] by (simp add: clear_def)

lemma copy_line_screen:
  assumes "apart 512 d 7840 VIDEO_MEM_ADDR" "cmd_index s \<le> 512"
  shows "screen (copy_line d c s) = screen s"
  using screen_apart [OF assms(1) copy_line_out [OF assms(2)]] by (simp add: copy_line_def)

lemma backspace_run:
  assumes "tty_ok s" "fb_col s \<noteq> 0"
  shows "tty_ok (backspace s)" "tty_frame s (backspace s)"
    "screen (backspace s) = set_cell (row (screen s)) (col (screen s) - 1) blank ((screen s)\<lparr>col := col (screen s) - 1\<rparr>)"
proof -
  let ?s = "s\<lparr>fb_col := fb_col s - 1\<rparr>"
  have c: "unat (fb_col s - 1) = unat (fb_col s) - 1"
    using assms(2) by (intro unat_sub32 [THEN trans]) (simp_all add: Suc_le_eq unat_gt_0)
  then have ok: "tty_ok ?s" using assms by (simp add: tty_ok_def word_less_nat_alt less_imp_diff_less)
  have pos: "cursor_pos ?s = of_nat (80 * unat (fb_row s) + (unat (fb_col s) - 1))"
    "80 * unat (fb_row s) + (unat (fb_col s) - 1) < 2000"
    using cursor_pos_of_nat [OF ok] c by simp_all
  have grid: "in_grid (unat (fb_row s)) (unat (fb_col s) - 1)"
    using assms by (simp add: in_grid_def tty_ok_def word_less_nat_alt less_imp_diff_less)
  have eq: "backspace s = write_cell (of_nat (80 * unat (fb_row s) + (unat (fb_col s) - 1))) 0x20 WHITE BLACK ?s"
    using pos(1) by (simp add: backspace_def)
  show "tty_ok (backspace s)" unfolding eq using ok by simp
  have "tty_frame s ?s" by (simp add: tty_frame_def)
  then show "tty_frame s (backspace s)" unfolding eq using write_cell_frame [OF pos(2)] by (rule tty_frame_trans)
  have "screen ?s = (screen s)\<lparr>col := unat (fb_col s) - 1\<rparr>" using c by (simp add: screen_def cong: if_cong)
  then show "screen (backspace s) = set_cell (row (screen s)) (col (screen s) - 1) blank ((screen s)\<lparr>col := col (screen s) - 1\<rparr>)"
    unfolding eq screen_write_cell [OF grid] by (simp add: blank_def screen_def)
qed

lemma delete_run:
  assumes "line_ok env s cs" "cs \<noteq> []" "apart 512 (temp s) 7840 VIDEO_MEM_ADDR" "fb_col s \<noteq> 0"
  shows "tty_ok (delete_key s)" "cmd_index (delete_key s) = of_nat (length cs - 1)"
    "command (delete_key s) = command s"
    "\<forall>i < 512. get_byte (command s) (mem (delete_key s)) i = 0"
    "screen (delete_key s) = set_cell (row (screen s)) (col (screen s) - 1) blank ((screen s)\<lparr>col := col (screen s) - 1\<rparr>)"
    "line_ok env (delete_key s) (replicate (length cs - 1) 0)"
proof -
  let ?s = "s\<lparr>cmd_index := cmd_index s - 1\<rparr>"
  let ?u = "clear_tmp (copy_line (command s) (temp s) (clear (copy_line (temp s) (command s) ?s)))"
  have n: "cmd_index s = of_nat (length cs)" "0 < length cs" "length cs \<le> 511"
    using assms(1,2) by (simp_all add: line_ok_def)
  then have idx: "cmd_index s - 1 = of_nat (length cs - 1)" by (simp add: of_nat_pred32)
  have "unat (cmd_index s) = length cs" using n by simp
  then have "\<not> cmd_index s \<le> 0" using n(2) by (simp add: word_le_nat_alt)
  then have run: "delete_key s = backspace ?u" by (simp add: delete_key_def Let_def)
  have off: "apart 512 (command s) 7840 VIDEO_MEM_ADDR" using assms(1) by (simp add: line_ok_def buffers_ok_def)
  have small: "cmd_index s - 1 \<le> 512" using idx n(3) by (simp add: word_le_nat_alt)
  have scr: "screen ?u = screen s"
    using assms(3) off small by (simp add: clear_screen copy_line_screen)
  have u: "tty_ok ?u" "fb_col ?u \<noteq> 0" "buffers_ok env ?u"
    using assms(1,4) by (simp_all add: line_ok_def tty_ok_def buffers_ok_def)
  note b = backspace_run [OF u(1,2)]
  show ok: "tty_ok (delete_key s)" unfolding run by (rule b(1))
  show left: "cmd_index (delete_key s) = of_nat (length cs - 1)" unfolding run using idx by simp
  show same: "command (delete_key s) = command s" unfolding run by simp
  show "screen (delete_key s) = set_cell (row (screen s)) (col (screen s) - 1) blank ((screen s)\<lparr>col := col (screen s) - 1\<rparr>)"
    unfolding run b(3) scr ..
  have "get_byte (command s) (mem ?u) i = 0" if "i < 512" for i
    using erase_line [OF that, of "copy_line (temp s) (command s) ?s"] by simp
  moreover have "same_outside (vga \<union> span (stk env) 52) (mem ?u) (mem (backspace ?u))"
    using b(2) by (auto simp: tty_frame_def intro: same_outside_mono)
  from command_keep [OF u(3) this] have "get_byte (command s) (mem (backspace ?u)) i = get_byte (command s) (mem ?u) i"
    if "i < 512" for i using that by simp
  ultimately show zero: "\<forall>i < 512. get_byte (command s) (mem (delete_key s)) i = 0" unfolding run by simp
  have "buffers_ok env (delete_key s)" unfolding run using u(3) by simp
  moreover have "cmd_index (delete_key s) = of_nat (length (replicate (length cs - 1) (0 :: u8)))" using left by simp
  ultimately show "line_ok env (delete_key s) (replicate (length cs - 1) 0)"
    using ok same zero n(3) by (simp add: line_ok_def del: of_nat_diff)
qed

section \<open>Sequences of keys\<close>

text \<open>The key of the \<open>i\<close>-th byte that the keyboard will deliver, if only its port is read.\<close>

definition code_at :: "'a machine_scheme \<Rightarrow> nat \<Rightarrow> u8" where
  "code_at s i = port_in s (port_reads s + i) KB_DATA_PORT"

definition incoming :: "env \<Rightarrow> 'a machine_scheme \<Rightarrow> nat \<Rightarrow> u8" where
  "incoming env s i = key_at env (code_at s i)"

text \<open>A key press that is neither backspace nor enter.\<close>

definition plain_key :: "env \<Rightarrow> 'a machine_scheme \<Rightarrow> nat \<Rightarrow> bool" where
  "plain_key env s i \<longleftrightarrow> code_at s i AND 0x80 = 0 \<and> incoming env s i \<noteq> 0x08 \<and> incoming env s i \<noteq> 0x0A"

primrec keys ::
    "env \<Rightarrow> icpuid_t \<Rightarrow> 'a runner \<Rightarrow> registers_t \<Rightarrow> nat \<Rightarrow> 'a kernel_scheme \<Rightarrow> kerror + 'a kernel_scheme" where
  "keys env junk run r 0 s = Inr s"
| "keys env junk run r (Suc n) s = bindE (keyboard_callback env junk run r s) (keys env junk run r n)"

lemma inb_globals [simp]:
  "tty_ok (snd (inb p s)) = tty_ok s" "screen (snd (inb p s)) = screen s"
  "line_ok env (snd (inb p t)) cs = line_ok env t cs" "command (snd (inb p t)) = command t"
  "interrupt_handler (snd (inb p t)) = interrupt_handler t"
  "code_at (snd (inb p s)) i = code_at s (Suc i)"
  by (simp_all add: inb_def tty_ok_def line_ok_def buffers_ok_def code_at_def)

lemma callback_cases:
  "keyboard_callback env junk run r s =
     (let u = snd (inb KB_DATA_PORT s) in
      if code_at s 0 AND 0x80 \<noteq> 0 then
        Inr (if code_at s 0 = 0xAA \<or> code_at s 0 = 0x86 then u\<lparr>shiftdown := 0\<rparr> else u)
      else if incoming env s 0 = 0x08 then Inr (delete_key u)
      else if incoming env s 0 = 0x0A then enter_key env junk run r u
      else char_key env (incoming env s 0) u)"
  by (simp add: keyboard_callback_def incoming_def code_at_def inb_def Let_def)

lemma plain_step:
  assumes "line_ok env s cs" "length cs < 511" "plain_key env s 0"
  shows "\<exists>t. keyboard_callback env junk run r s = Inr t \<and> line_ok env t (cs @ [incoming env s 0]) \<and>
    (\<forall>i. code_at t i = code_at s (Suc i)) \<and> screen t = term_put (WHITE, BLACK, incoming env s 0) (screen s) \<and>
    undisturbed s t"
proof -
  from char_key_run [of env "snd (inb KB_DATA_PORT s)" cs "incoming env s 0"] assms(1,2) obtain t where
    t: "char_key env (incoming env s 0) (snd (inb KB_DATA_PORT s)) = Inr t" "line_ok env t (cs @ [incoming env s 0])"
      "port_in t = port_in s" "port_reads t = Suc (port_reads s)"
      "screen t = term_put (WHITE, BLACK, incoming env s 0) (screen s)" "undisturbed (snd (inb KB_DATA_PORT s)) t" by auto
  then show ?thesis using assms(3) by (simp add: callback_cases plain_key_def code_at_def undisturbed_def inb_def)
qed

section \<open>Properties\<close>

text \<open>
  What is typed is what the shell gets: \<open>n\<close> key presses, none of them backspace or enter,
  on a line of at most 511 characters in all, append exactly the characters of their scan codes to
  the command line, which stays a terminated string, and echo them on the screen in order.
\<close>

theorem typed_line_collected:
  assumes "line_ok env s cs" "length cs + n \<le> 511" "\<forall>i < n. plain_key env s i"
  shows "\<exists>t. keys env junk run r n s = Inr t \<and> line_ok env t (cs @ List.map (incoming env s) [0..<n]) \<and>
    screen t = fold term_put (items WHITE BLACK (List.map (incoming env s) [0..<n])) (screen s)"
  using assms
proof (induction n arbitrary: s cs)
  case 0
  then show ?case by (simp add: items_def)
next
  case (Suc n)
  then have "length cs < 511" "plain_key env s 0" by auto
  from plain_step [OF Suc.prems(1) this] obtain t where
    t: "keyboard_callback env junk run r s = Inr t" "line_ok env t (cs @ [incoming env s 0])"
      "\<forall>i. code_at t i = code_at s (Suc i)" "screen t = term_put (WHITE, BLACK, incoming env s 0) (screen s)" by blast
  have next_key: "incoming env t i = incoming env s (Suc i)" "plain_key env t i = plain_key env s (Suc i)" for i
    using t(3) by (simp_all add: incoming_def plain_key_def)
  have "length (cs @ [incoming env s 0]) + n \<le> 511" "\<forall>i < n. plain_key env t i"
    using Suc.prems(2,3) next_key(2) by auto
  from Suc.IH [OF t(2) this] obtain u where
    u: "keys env junk run r n t = Inr u"
      "line_ok env u ((cs @ [incoming env s 0]) @ List.map (incoming env t) [0..<n])"
      "screen u = fold term_put (items WHITE BLACK (List.map (incoming env t) [0..<n])) (screen t)" by blast
  have "List.map (incoming env s) [0..<Suc n] = incoming env s 0 # List.map (incoming env t) [0..<n]"
    by (simp add: next_key(1) map_upt_Suc del: upt_Suc)
  with t(1,4) u show ?case by (simp add: items_def del: upt_Suc)
qed

text \<open>
  C14: Enter hands the line to the shell and starts a new one: if the line is not \<^verbatim>\<open>fetch\<close> or
  \<^verbatim>\<open>reboot\<close>, not \<^verbatim>\<open>timer\<close> from 10 000 000 ticks on (when the digits overrun their array), and the three
  test interrupts have no handler, the command that the table gives for
  the line runs and returns, and afterwards the command line is empty, the cursor on the screen
  and the prompt shown.
\<close>

theorem enter_runs_line:
  assumes "line_ok env s (lit_bytes line)" "proper_lit line" "line \<noteq> ''fetch''" "line \<noteq> ''reboot''"
    and "length (dump env) = 8" "\<forall>n \<in> {0, 1, 4}. interrupt_handler s n = None"
    and "line = ''timer'' \<longrightarrow> unat (tick s) < 10 ^ 7"
    and "code_at s 0 AND 0x80 = 0" "incoming env s 0 = 0x0A"
  shows "\<exists>u t. (case map_of (commands env junk run r) line of Some f \<Rightarrow> f (snd (inb 0x60 s))
        | None \<Rightarrow> not_found env (snd (inb 0x60 s))) = Inr u \<and>
    keyboard_callback env junk run r s = Inr t \<and> line_ok env t [] \<and> cstr (mem t) (At (command t)) [] \<and>
    t = fold emit prompt_items (clear (u\<lparr>cmd_index := 0\<rparr>))"
proof -
  let ?s = "snd (inb KB_DATA_PORT s)"
  have line: "line_ok env ?s (lit_bytes line)" using assms(1) by simp
  have "0 \<notin> set (lit_bytes line)" using assms(2) by (auto simp: lit_bytes_def proper_lit_def of_char_zero)
  then have c: "cstr (mem ?s) (At (command ?s)) (lit_bytes line)" by (rule line_cstr [OF line])
  have parts: "tty_ok ?s" "buffers_ok env ?s" "stack_room (stk env)"
    using line by (simp_all add: line_ok_def buffers_ok_def)
  have "tick ?s = tick s" by (simp add: inb_def)
  then have "\<forall>n \<in> {0, 1, 4}. interrupt_handler ?s n = None" "tame (tick ?s) line"
    using assms by (simp_all add: tame_def)
  from commands_reply [OF parts(1,3) assms(5) this] obtain u where
    u: "(case map_of (commands env junk run r) line of Some f \<Rightarrow> f ?s | None \<Rightarrow> not_found env ?s) = Inr u"
      "quiet (stk env) ?s u" by blast
  have run: "processCommand env junk run r (command ?s) ?s = Inr u" using dispatch [OF c] u(1) by simp
  from enter_run [OF run u(2) parts(2)] obtain t where t: "enter_key env junk run r ?s = Inr t" "line_ok env t []" by blast
  have "t = init_prompt (clear (u\<lparr>cmd_index := 0\<rparr>))" using t(1) run by (simp add: enter_key_def)
  also have "tty_ok (clear (u\<lparr>cmd_index := 0\<rparr>))" using u(2) by (simp add: quiet_def tty_ok_def)
  then have "init_prompt (clear (u\<lparr>cmd_index := 0\<rparr>)) = fold emit prompt_items (clear (u\<lparr>cmd_index := 0\<rparr>))"
    by (rule init_prompt_emits)
  finally show ?thesis
    using u(1) t line_cstr [OF t(2)] assms(8,9) by (intro exI [of _ u] exI [of _ t]) (simp add: callback_cases)
qed

text \<open>
  C35: Backspace loses the line: the screen shows the line without its last character, but all
  512 bytes of the buffer are zero, because \<^verbatim>\<open>clear_tmp\<close> clears \<^verbatim>\<open>command\<close>, while the index only goes
  down by one. So if the line had at least two characters, then whatever further characters are typed (up to
  511 in all), they are stored behind null bytes, and the string that the shell gets is empty; if it had
  one, the string is just what is typed next, up to its first null byte. In column 0 backspace moves the cursor off the screen.
\<close>

theorem backspace_loses_line:
  assumes "line_ok env s cs" "cs \<noteq> []" "apart 512 (temp s) 7840 VIDEO_MEM_ADDR"
    and "code_at s 0 AND 0x80 = 0" "incoming env s 0 = 0x08"
  shows "\<exists>t. keyboard_callback env junk run r s = Inr t \<and>
    (fb_col s \<noteq> 0 \<longrightarrow> tty_ok t \<and> cmd_index t = of_nat (length cs - 1) \<and>
      (\<forall>i < 512. mem t (command t + of_nat i) = 0) \<and>
      screen t = set_cell (row (screen s)) (col (screen s) - 1) blank ((screen s)\<lparr>col := col (screen s) - 1\<rparr>) \<and>
      (\<forall>k. length cs - 1 + k \<le> 511 \<longrightarrow> (\<forall>i < k. plain_key env t i) \<longrightarrow>
        (\<exists>u. keys env junk run r k t = Inr u \<and>
          cstr (mem u) (At (command u)) (if 1 < length cs then []
            else takeWhile (\<lambda>b. b \<noteq> 0) (List.map (incoming env t) [0..<k]))))) \<and>
    (fb_col s = 0 \<longrightarrow> fb_col t = 0xFFFFFFFF \<and> \<not> tty_ok t)"
proof -
  let ?s = "snd (inb KB_DATA_PORT s)"
  have line: "line_ok env ?s cs" using assms(1) by simp
  have temp: "apart 512 (temp ?s) 7840 VIDEO_MEM_ADDR" and col: "fb_col ?s = fb_col s"
    using assms(3) by (simp_all add: inb_def)
  have run: "keyboard_callback env junk run r s = Inr (delete_key ?s)" using assms(4,5) by (simp add: callback_cases)
  have "length cs < 2 ^ 32" "0 < length cs" "cmd_index ?s = of_nat (length cs)"
    using line assms(2) by (simp_all add: line_ok_def)
  then have "\<not> cmd_index ?s \<le> 0" by (simp add: word_le_nat_alt)
  then have "fb_col (delete_key ?s) = fb_col s - 1" by (simp add: delete_key_def Let_def col)
  then have zero: "fb_col s = 0 \<longrightarrow> fb_col (delete_key ?s) = 0xFFFFFFFF \<and> \<not> tty_ok (delete_key ?s)"
    by (simp add: tty_ok_def)
  show ?thesis
  proof (cases "fb_col s = 0")
    case True
    with run zero show ?thesis by simp
  next
    case False
    with delete_run [OF line assms(2) temp] col have d:
      "tty_ok (delete_key ?s)" "cmd_index (delete_key ?s) = of_nat (length cs - 1)"
      "command (delete_key ?s) = command s" "\<forall>i < 512. get_byte (command s) (mem (delete_key ?s)) i = 0"
      "screen (delete_key ?s) = set_cell (row (screen s)) (col (screen s) - 1) blank ((screen s)\<lparr>col := col (screen s) - 1\<rparr>)"
      by simp_all
    have lost: "line_ok env (delete_key ?s) (replicate (length cs - 1) 0)"
      using delete_run(6) [OF line assms(2) temp] False col by simp
    have typed: "\<exists>u. keys env junk run r k (delete_key ?s) = Inr u \<and>
        cstr (mem u) (At (command u)) (if 1 < length cs then []
          else takeWhile (\<lambda>b. b \<noteq> 0) (List.map (incoming env (delete_key ?s)) [0..<k]))"
      if k: "length cs - 1 + k \<le> 511" "\<forall>i < k. plain_key env (delete_key ?s) i" for k
    proof -
      let ?ks = "List.map (incoming env (delete_key ?s)) [0..<k]"
      from typed_line_collected [OF lost _ k(2), of junk run r] k(1) obtain u where
        u: "keys env junk run r k (delete_key ?s) = Inr u" "line_ok env u (replicate (length cs - 1) 0 @ ?ks)" by auto
      have "takeWhile (\<lambda>b. b \<noteq> 0) (replicate (length cs - 1) 0 @ ?ks) =
          (if 1 < length cs then [] else takeWhile (\<lambda>b. b \<noteq> 0) ?ks)"
        using \<open>0 < length cs\<close> by (cases "length cs - 1") auto
      with line_prefix [OF u(2)] u(1) show ?thesis by auto
    qed
    have "\<forall>i < 512. mem (delete_key ?s) (command (delete_key ?s) + of_nat i) = 0"
      using d(3,4) by (simp add: get_byte_def read8_def)
    with run False d(1,2,5) typed show ?thesis by blast
  qed
qed

text \<open>
  A key release types nothing: whatever follows the table of scan codes in memory, the
  console, the command line and memory are as before; only the shift flag may be cleared.
\<close>

theorem release_types_nothing:
  assumes "code_at s 0 AND 0x80 \<noteq> 0"
  shows "\<exists>d \<in> {shiftdown s, 0}. keyboard_callback env junk run r s = Inr ((snd (inb 0x60 s))\<lparr>shiftdown := d\<rparr>)"
  using assms by (simp add: callback_cases inb_def Let_def)

text \<open>
  The length of the line is not checked: a character key stores its character at
  \<^verbatim>\<open>command[cmd_index]\<close> for every index, so from the 513th character of a line on it overwrites the
  memory behind the buffer.
\<close>

theorem line_not_bounded:
  assumes "tty_ok s" "stack_room (stk env)"
  shows "\<exists>t. char_key env k s = Inr t \<and> mem t (command s + cmd_index s) = k \<and> cmd_index t = cmd_index s + 1 \<and>
    (512 \<le> cmd_index s \<longrightarrow> command s + cmd_index s \<notin> span (command s) 512)"
proof -
  from format_printed [OF ready_tty [OF assms], of "''%c''" "[Word (ucast k)]" "[Num (ucast k)]"] obtain u where
    u: "printf (stk env) (Lit ''%c'') [Word (ucast k)] s = Inr u" "tty.more u = tty.more s"
    by (fastforce simp: literal printed_def print_frame_def)
  with same_globals [of u s] show ?thesis by (simp add: char_key_def write8_def span_def not_less)
qed

section \<open>Examples\<close>

definition typing :: "u8 list \<Rightarrow> string \<Rightarrow> kernel" where
  "typing codes line = (with_line (lit_bytes line))\<lparr>cmd_index := of_nat (length line), port_in := \<lambda>n p. codes ! n\<rparr>"

lemma demo_buffers: "buffers_ok demo_env (typing codes line)" "apart 512 (temp (typing codes line)) 7840 VIDEO_MEM_ADDR"
  by (simp_all add: buffers_ok_def demo_room typing_def with_line_def apart_def)
    (simp_all add: demo_env_def)

lemma typing_simps [simp]:
  "interrupt_handler (typing codes line) = (\<lambda>n. None)" "code_at (typing codes line) i = codes ! i"
  "fb_col (typing codes line) = 1" "tty_ok (typing codes line)"
  by (simp_all add: typing_def with_line_def code_at_def tty_ok_def)

lemma typing_line: "length line \<le> 511 \<Longrightarrow> line_ok demo_env (typing codes line) (lit_bytes line)"
proof -
  assume len: "length line \<le> 511"
  have "get_byte (command (typing codes line)) (mem (typing codes line)) i =
      (if i < length (lit_bytes line) then lit_bytes line ! i else 0)" if "i < 512" for i
    using that by (simp add: typing_def with_line_def get_byte_def read8_def)
  then show ?thesis using len demo_buffers(1) [of codes line]
    by (simp add: line_ok_def typing_def tty_ok_def with_line_def lit_bytes_def)
qed

lemma incoming_typing: "incoming env (typing codes line) i = key_at env (codes ! i)"
  by (simp add: incoming_def)

theorem typed_line_collected_witness:
  "\<forall>junk run r. \<exists>t. keys demo_env junk run r 3 (typing [0x2E, 0x26, 0x1F] []) = Inr t \<and> line_ok demo_env t (lit_bytes ''cls'')"
proof (intro allI)
  fix junk and run :: "unit runner" and r
  let ?s = "typing [0x2E, 0x26, 0x1F] []"
  have "plain_key demo_env ?s 0" "plain_key demo_env ?s 1" "plain_key demo_env ?s 2"
    by (simp_all add: plain_key_def incoming_typing key_at_def keyboard_scan_codes_def)
  then have "\<forall>i < 3. plain_key demo_env ?s i" by (simp add: less_Suc_eq numeral_3_eq_3 numeral_2_eq_2)
  moreover have "List.map (incoming demo_env ?s) [0..<3] = lit_bytes ''cls''"
    by (simp add: upt_rec incoming_typing key_at_def keyboard_scan_codes_def lit_bytes_def)
  moreover have "line_ok demo_env ?s []" using typing_line [of "[]" "[0x2E, 0x26, 0x1F]"] by (simp add: lit_bytes_def)
  ultimately show "\<exists>t. keys demo_env junk run r 3 ?s = Inr t \<and> line_ok demo_env t (lit_bytes ''cls'')"
    using typed_line_collected [of demo_env ?s "[]" 3 junk run r] by auto
qed

theorem enter_runs_line_witness:
  "\<forall>junk run r. \<exists>t. keyboard_callback demo_env junk run r (typing [0x1C] ''cls'') = Inr t \<and> line_ok demo_env t []"
proof (intro allI)
  fix junk and run :: "unit runner" and r
  have "incoming demo_env (typing [0x1C] ''cls'') 0 = 0x0A"
    by (simp add: incoming_typing key_at_def keyboard_scan_codes_def)
  from enter_runs_line [OF typing_line _ _ _ demo_room(2) _ _ _ this, of junk run r]
  show "\<exists>t. keyboard_callback demo_env junk run r (typing [0x1C] ''cls'') = Inr t \<and> line_ok demo_env t []"
    by (auto simp: proper_lit_def)
qed

theorem backspace_loses_line_witness:
  "\<forall>junk run r. \<exists>t. keyboard_callback demo_env junk run r (typing [0x0E] ''cls'') = Inr t \<and>
    cmd_index t = 2 \<and> (\<forall>i < 512. mem t (command t + of_nat i) = 0)"
proof (intro allI)
  fix junk and run :: "unit runner" and r
  have "incoming demo_env (typing [0x0E] ''cls'') 0 = 0x08"
    by (simp add: incoming_typing key_at_def keyboard_scan_codes_def)
  from backspace_loses_line [OF typing_line _ demo_buffers(2) _ this, of junk run r]
  show "\<exists>t. keyboard_callback demo_env junk run r (typing [0x0E] ''cls'') = Inr t \<and>
    cmd_index t = 2 \<and> (\<forall>i < 512. mem t (command t + of_nat i) = 0)"
    by (auto simp: lit_bytes_def)
qed

theorem release_types_nothing_witness:
  "\<forall>junk run r. \<exists>t. keyboard_callback demo_env junk run r (typing [0xAE] ''cls'') = Inr t \<and>
    mem t = mem (typing [0xAE] ''cls'')"
proof (intro allI)
  fix junk and run :: "unit runner" and r
  have "code_at (typing [0xAE] ''cls'') 0 AND 0x80 \<noteq> 0" by simp
  from release_types_nothing [OF this, of demo_env junk run r] obtain d where
    "keyboard_callback demo_env junk run r (typing [0xAE] ''cls'') =
      Inr ((snd (inb 0x60 (typing [0xAE] ''cls'')))\<lparr>shiftdown := d\<rparr>)" by blast
  then show "\<exists>t. keyboard_callback demo_env junk run r (typing [0xAE] ''cls'') = Inr t \<and> mem t = mem (typing [0xAE] ''cls'')"
    by simp
qed

theorem line_not_bounded_witness:
  "\<exists>t. char_key demo_env 0x61 (power_up\<lparr>cmd_index := 512\<rparr>) = Inr t \<and> mem t 0x1F0200 = 0x61 \<and> cmd_index t = 513"
proof -
  have "tty_ok (power_up\<lparr>cmd_index := 512\<rparr>)" by (simp add: tty_ok_def)
  from line_not_bounded [OF this demo_room(1), of "0x61"] show ?thesis by auto
qed

end
