(* ===== verification/Descriptors.thy ===== *)
theory Descriptors
  imports Interrupts
begin

text \<open>
  The descriptor tables: \<^verbatim>\<open>kernel/drivers/gdt.c\<close> and \<^verbatim>\<open>kernel/drivers/idt.c\<close>, with
  the remapping of the interrupt controllers. The addresses of the tables and of the assembly
  stubs \<^verbatim>\<open>isr0\<close> to \<^verbatim>\<open>isr31\<close>, \<^verbatim>\<open>irq0\<close> to \<^verbatim>\<open>irq15\<close> are arguments (\<open>stub n\<close> is the
  stub of interrupt \<open>n\<close>).

  \<open>encode_gdt\<close> and \<open>encode_gate\<close> are the packed layouts of the structures, eight bytes as a
  64-bit word; the properties are about those words, which are what the processor reads.
\<close>

section \<open>gdt.h\<close>

abbreviation GDT_BASE :: u32 where "GDT_BASE \<equiv> 0x00000000"
abbreviation GDT_LIMIT :: u32 where "GDT_LIMIT \<equiv> 0xFFFFFFFF"
abbreviation GDT_SEGMENT_LENGTH :: "4 word" where "GDT_SEGMENT_LENGTH \<equiv> 0xF"
abbreviation GDT_OPERAND_SIZE_32 :: "1 word" where "GDT_OPERAND_SIZE_32 \<equiv> 1"
abbreviation GDT_GRANULARITY_4K :: "1 word" where "GDT_GRANULARITY_4K \<equiv> 1"
abbreviation GDT_DATA_TYPE_READ_WRITE :: "4 word" where "GDT_DATA_TYPE_READ_WRITE \<equiv> 0x2"
abbreviation GDT_CODE_TYPE_EXEC_READ :: "4 word" where "GDT_CODE_TYPE_EXEC_READ \<equiv> 0xA"
abbreviation GDT_CODE_AND_DATA_DESCRIPTOR :: "1 word" where "GDT_CODE_AND_DATA_DESCRIPTOR \<equiv> 1"
abbreviation GDT_RING0 :: "2 word" where "GDT_RING0 \<equiv> 0"
abbreviation GDT_RING3 :: "2 word" where "GDT_RING3 \<equiv> 3"
abbreviation GDT_SEGMENT_PRESENT :: "1 word" where "GDT_SEGMENT_PRESENT \<equiv> 1"

text \<open>The layout: bit fields from the lowest bit up, the structure packed.\<close>

definition access_byte :: "gdt_access \<Rightarrow> u8" where
  "access_byte a = ucast (acc_type a) OR push_bit 4 (ucast (acc_dt a))
     OR push_bit 5 (ucast (acc_dpl a)) OR push_bit 7 (ucast (acc_p a))"

definition gran_byte :: "gdt_granularity \<Rightarrow> u8" where
  "gran_byte g = ucast (seglen g) OR push_bit 4 (ucast (gran_zero g))
     OR push_bit 6 (ucast (gran_d g)) OR push_bit 7 (ucast (gran_g g))"

definition encode_gdt :: "gdt_entry_struct \<Rightarrow> 64 word" where
  "encode_gdt e = ucast (limit_low e) OR push_bit 16 (ucast (base_low e))
     OR push_bit 32 (ucast (base_middle e)) OR push_bit 40 (ucast (access_byte (access e)))
     OR push_bit 48 (ucast (gran_byte (granularity e))) OR push_bit 56 (ucast (base_high e))"

section \<open>gdt.c\<close>

definition construct_entry :: "gdt_access \<Rightarrow> gdt_entry_struct" where
  "construct_entry acc =
     \<lparr>limit_low = ucast (GDT_LIMIT AND 0xFFFF), base_low = ucast (GDT_BASE AND 0xFFFF),
      base_middle = ucast (drop_bit 16 GDT_BASE AND 0xFF), access = acc,
      granularity = \<lparr>seglen = GDT_SEGMENT_LENGTH, gran_zero = 0, gran_d = GDT_OPERAND_SIZE_32,
        gran_g = GDT_GRANULARITY_4K\<rparr>,
      base_high = ucast (drop_bit 24 GDT_BASE AND 0xFF)\<rparr>"

definition construct_null_entry :: gdt_entry_struct where
  "construct_null_entry =
     \<lparr>limit_low = 0, base_low = 0, base_middle = 0,
      access = \<lparr>acc_type = 0, acc_dt = 0, acc_dpl = 0, acc_p = 0\<rparr>,
      granularity = \<lparr>seglen = 0, gran_zero = 0, gran_d = 0, gran_g = 0\<rparr>, base_high = 0\<rparr>"

definition segment_access :: "4 word \<Rightarrow> 2 word \<Rightarrow> gdt_access" where
  "segment_access ty ring = \<lparr>acc_type = ty, acc_dt = GDT_CODE_AND_DATA_DESCRIPTOR, acc_dpl = ring,
     acc_p = GDT_SEGMENT_PRESENT\<rparr>"

text \<open>\<^verbatim>\<open>gdt_flush\<close> executes \<^verbatim>\<open>lgdt\<close> on \<^verbatim>\<open>gdt_ptr\<close>.\<close>

definition gdt_flush :: "gdt_ptr \<Rightarrow> 'a kernel_scheme \<Rightarrow> 'a kernel_scheme" where
  "gdt_flush p s = s\<lparr>gdtr := Some p\<rparr>"

definition init_gdt :: "u32 \<Rightarrow> 'a kernel_scheme \<Rightarrow> 'a kernel_scheme" where
  "init_gdt gdt_addr s =
     (let ptr = \<lparr>gdt_limit = 8 * 5 - 1, gdt_base = gdt_addr\<rparr>;
          null_segment = construct_null_entry;
          kernel_mode_code_segment = construct_entry (segment_access GDT_CODE_TYPE_EXEC_READ GDT_RING0);
          kernel_mode_data_segment = construct_entry (segment_access GDT_DATA_TYPE_READ_WRITE GDT_RING0);
          user_mode_code_segment = construct_entry (segment_access GDT_CODE_TYPE_EXEC_READ GDT_RING3);
          user_mode_data_segment = construct_entry (segment_access GDT_DATA_TYPE_READ_WRITE GDT_RING3)
      in gdt_flush ptr (s\<lparr>gdt_entries := [null_segment, kernel_mode_code_segment,
           kernel_mode_data_segment, user_mode_code_segment, user_mode_data_segment]\<rparr>))"

definition gdt_setup :: "u32 \<Rightarrow> 'a kernel_scheme \<Rightarrow> 'a kernel_scheme" where
  "gdt_setup gdt_addr s = init_gdt gdt_addr s"

section \<open>idt.h\<close>

abbreviation IDT_FLAG_RESERVED :: "5 word" where "IDT_FLAG_RESERVED \<equiv> 0x0E"
abbreviation PIC1_START_INTERRUPT :: u8 where "PIC1_START_INTERRUPT \<equiv> 0x20"
abbreviation PIC2_START_INTERRUPT :: u8 where "PIC2_START_INTERRUPT \<equiv> 0x28"
abbreviation ICW1_ICW4 :: u16 where "ICW1_ICW4 \<equiv> 0x01"
abbreviation ICW1_INIT :: u16 where "ICW1_INIT \<equiv> 0x10"
abbreviation ICW4_8086 :: u16 where "ICW4_8086 \<equiv> 0x01"

definition flags_byte :: "idt_flags \<Rightarrow> u8" where
  "flags_byte f = ucast (flags_reserved f) OR push_bit 5 (ucast (flags_dpl f)) OR push_bit 7 (ucast (flags_p f))"

definition encode_gate :: "idt_entry \<Rightarrow> 64 word" where
  "encode_gate e = ucast (idt_base_low e) OR push_bit 16 (ucast (seg_sel e))
     OR push_bit 32 (ucast (idt_reserved e)) OR push_bit 40 (ucast (flags_byte (flags e)))
     OR push_bit 48 (ucast (idt_base_high e))"

section \<open>idt.c\<close>

definition idt_set_gate :: "u8 \<Rightarrow> u32 \<Rightarrow> u16 \<Rightarrow> idt_flags \<Rightarrow> 'a kernel_scheme \<Rightarrow> 'a kernel_scheme" where
  "idt_set_gate idx base selector fl s =
     s\<lparr>idt_entries := (idt_entries s)[unat idx :=
       \<lparr>idt_base_low = ucast (base AND 0xFFFF), seg_sel = selector, idt_reserved = 0, flags = fl,
        idt_base_high = ucast (drop_bit 16 base AND 0xFFFF)\<rparr>]\<rparr>"

definition null_gate :: idt_entry where
  "null_gate = \<lparr>idt_base_low = 0, seg_sel = 0, idt_reserved = 0,
     flags = \<lparr>flags_reserved = 0, flags_dpl = 0, flags_p = 0\<rparr>, idt_base_high = 0\<rparr>"

text \<open>Both bytes of the cascade go to the master, as in the source.\<close>

definition pic_remap :: "u8 \<Rightarrow> u8 \<Rightarrow> 'a machine_scheme \<Rightarrow> 'a machine_scheme" where
  "pic_remap offset1 offset2 s =
     (case inb PIC1_DATA s of (a1, s) \<Rightarrow>
      case inb PIC2_DATA s of (a2, s) \<Rightarrow>
      let s = outb PIC1_COMMAND (ICW1_INIT + ICW1_ICW4) s;
          s = outb PIC2_COMMAND (ICW1_INIT + ICW1_ICW4) s;
          s = outb PIC1_DATA (ucast offset1) s;
          s = outb PIC2_DATA (ucast offset2) s;
          s = outb PIC1_DATA 4 s;
          s = outb PIC1_DATA 2 s;
          s = outb PIC1_DATA ICW4_8086 s;
          s = outb PIC2_DATA ICW4_8086 s;
          s = outb PIC1_DATA (ucast a1) s
      in outb PIC2_DATA (ucast a2) s)"

definition idt_flush :: "idt_ptr \<Rightarrow> 'a kernel_scheme \<Rightarrow> 'a kernel_scheme" where
  "idt_flush p s = s\<lparr>idtr := Some p\<rparr>"

definition set_gates :: "(nat \<Rightarrow> u32) \<Rightarrow> idt_flags \<Rightarrow> nat list \<Rightarrow> 'a kernel_scheme \<Rightarrow> 'a kernel_scheme" where
  "set_gates stub fl ns s = fold (\<lambda>n. idt_set_gate (of_nat n) (stub n) 0x08 fl) ns s"

definition init_idt :: "u32 \<Rightarrow> (nat \<Rightarrow> u32) \<Rightarrow> 'a kernel_scheme \<Rightarrow> 'a kernel_scheme" where
  "init_idt idt_addr stub s =
     (let ptr = \<lparr>idt_limit = 8 * 256 - 1, idt_base = idt_addr\<rparr>;
          s = s\<lparr>idt_entries := replicate 256 null_gate\<rparr>;
          fl = \<lparr>flags_reserved = IDT_FLAG_RESERVED, flags_dpl = 0, flags_p = 1\<rparr>;
          s = set_gates stub fl [0..<32] s;
          s = pic_remap PIC1_START_INTERRUPT PIC2_START_INTERRUPT s;
          s = set_gates stub fl [32..<48] s
      in sti (idt_flush ptr s))"

definition idt_setup :: "u32 \<Rightarrow> (nat \<Rightarrow> u32) \<Rightarrow> 'a kernel_scheme \<Rightarrow> 'a kernel_scheme" where
  "idt_setup idt_addr stub s = init_idt idt_addr stub s"

section \<open>Lemmas\<close>

lemma set_gates_other [simp]:
  "port_out (set_gates stub fl ns s) = port_out s" "mem (set_gates stub fl ns s) = mem s"
  "port_in (set_gates stub fl ns s) = port_in s" "port_reads (set_gates stub fl ns s) = port_reads s"
  "interrupt_handler (set_gates stub fl ns s) = interrupt_handler s"
  by (induction ns arbitrary: s) (simp_all add: set_gates_def idt_set_gate_def)

definition gate :: "u32 \<Rightarrow> idt_entry" where
  "gate base = \<lparr>idt_base_low = ucast base, seg_sel = 0x08, idt_reserved = 0,
     flags = \<lparr>flags_reserved = 0x0E, flags_dpl = 0, flags_p = 1\<rparr>,
     idt_base_high = ucast (drop_bit 16 base)\<rparr>"

lemma low_half: "(ucast ((b :: u32) AND 0xFFFF) :: u16) = ucast b"
proof -
  have m: "(0xFFFF :: u32) = mask 16" by (simp add: mask_eq_exp_minus_1)
  show ?thesis unfolding m by (intro bit_word_eqI) (auto simp: bit_simps)
qed

lemma set_gates_entries:
  "\<forall>n \<in> set ns. n < 256 \<Longrightarrow> length (idt_entries s) = 256 \<Longrightarrow> i < 256 \<Longrightarrow>
   length (idt_entries (set_gates stub \<lparr>flags_reserved = 0x0E, flags_dpl = 0, flags_p = 1\<rparr> ns s)) = 256 \<and>
   idt_entries (set_gates stub \<lparr>flags_reserved = 0x0E, flags_dpl = 0, flags_p = 1\<rparr> ns s) ! i =
     (if i \<in> set ns then gate (stub i) else idt_entries s ! i)"
proof (induction ns arbitrary: s)
  case (Cons n ns)
  have n: "unat (of_nat n :: u8) = n" using Cons.prems(1) by (simp add: unat_of_nat)
  then have "idt_entries (idt_set_gate (of_nat n) (stub n) 0x08
      \<lparr>flags_reserved = 0x0E, flags_dpl = 0, flags_p = 1\<rparr> s) = (idt_entries s)[n := gate (stub n)]"
    by (simp add: idt_set_gate_def gate_def low_half)
  with Cons show ?case by (simp add: set_gates_def)
qed (simp add: set_gates_def)

lemma set_gates_range:
  "hi \<le> 256 \<Longrightarrow> length (idt_entries s) = 256 \<Longrightarrow> i < 256 \<Longrightarrow>
   length (idt_entries (set_gates stub \<lparr>flags_reserved = 0x0E, flags_dpl = 0, flags_p = 1\<rparr> [lo..<hi] s)) = 256 \<and>
   idt_entries (set_gates stub \<lparr>flags_reserved = 0x0E, flags_dpl = 0, flags_p = 1\<rparr> [lo..<hi] s) ! i =
     (if lo \<le> i \<and> i < hi then gate (stub i) else idt_entries s ! i)"
  using set_gates_entries [of "[lo..<hi]" s i stub] by auto

text \<open>What the processor reads in an interrupt gate: the offset, the selector, the type byte.\<close>

definition gate_offset :: "64 word \<Rightarrow> u32" where
  "gate_offset w = ucast (take_bit 16 w) OR push_bit 16 (ucast (drop_bit 48 w))"

definition gate_selector :: "64 word \<Rightarrow> u16" where
  "gate_selector w = ucast (drop_bit 16 w)"

definition gate_type :: "64 word \<Rightarrow> u8" where
  "gate_type w = ucast (drop_bit 40 w)"

lemma bit_field64:
  "n < 64 \<Longrightarrow> bit (push_bit k (ucast (x :: 'a::len word)) :: 64 word) n \<longleftrightarrow> k \<le> n \<and> bit x (n - k)"
  "n < 64 \<Longrightarrow> bit (ucast (x :: 'a::len word) :: 64 word) n \<longleftrightarrow> bit x n"
  by (auto simp: bit_push_bit_iff bit_unsigned_iff)

lemma bit_beyond_byte: "8 \<le> n \<Longrightarrow> \<not> bit (x :: u8) n" "16 \<le> n \<Longrightarrow> \<not> bit (y :: u16) n"
  by (auto dest!: bit_imp_le_length)

lemma bit_encode_gate:
  assumes "n < 64"
  shows "bit (encode_gate e) n \<longleftrightarrow> bit (idt_base_low e) n \<or> 16 \<le> n \<and> bit (seg_sel e) (n - 16)
    \<or> 32 \<le> n \<and> bit (idt_reserved e) (n - 32) \<or> 40 \<le> n \<and> bit (flags_byte (flags e)) (n - 40)
    \<or> 48 \<le> n \<and> bit (idt_base_high e) (n - 48)"
  by (simp only: encode_gate_def bit_or_iff bit_field64 [OF assms] disj_assoc)

lemma encode_gate_fields:
  "gate_offset (encode_gate e) = ucast (idt_base_low e) OR push_bit 16 (ucast (idt_base_high e))"
  "gate_selector (encode_gate e) = seg_sel e" "gate_type (encode_gate e) = flags_byte (flags e)"
proof -
  show "gate_offset (encode_gate e) = ucast (idt_base_low e) OR push_bit 16 (ucast (idt_base_high e))"
  proof (rule bit_word_eqI)
    fix n assume "n < LENGTH(32)"
    then have n: "n < 32" by simp
    have low: "bit (ucast (take_bit 16 (encode_gate e)) :: u32) n \<longleftrightarrow> n < 16 \<and> bit (idt_base_low e) n"
      using n by (simp add: bit_unsigned_iff bit_take_bit_iff bit_encode_gate bit_beyond_byte cong: conj_cong)
    have high: "bit (push_bit 16 (ucast (drop_bit 48 (encode_gate e)) :: u32)) n \<longleftrightarrow> 16 \<le> n \<and> bit (idt_base_high e) (n - 16)"
      using n by (auto simp: bit_push_bit_iff bit_unsigned_iff bit_drop_bit_eq bit_encode_gate bit_beyond_byte)
    have "bit (idt_base_low e) n \<longleftrightarrow> n < 16 \<and> bit (idt_base_low e) n"
      using bit_beyond_byte(2) [of n "idt_base_low e"] by linarith
    with low high n show "bit (gate_offset (encode_gate e)) n =
        bit (ucast (idt_base_low e) OR push_bit 16 (ucast (idt_base_high e)) :: u32) n"
      by (simp add: gate_offset_def bit_or_iff bit_field)
  qed
  show "gate_selector (encode_gate e) = seg_sel e"
    by (rule bit_word_eqI) (simp add: gate_selector_def bit_unsigned_iff bit_drop_bit_eq bit_encode_gate bit_beyond_byte)
  show "gate_type (encode_gate e) = flags_byte (flags e)"
    by (rule bit_word_eqI) (simp add: gate_type_def bit_unsigned_iff bit_drop_bit_eq bit_encode_gate bit_beyond_byte)
qed

lemma two_halves: "ucast (ucast b :: u16) OR push_bit 16 (ucast (ucast (drop_bit 16 b) :: u16)) = (b :: u32)"
  by (rule bit_word_eqI) (auto simp: bit_or_iff bit_field bit_unsigned_iff bit_drop_bit_eq)

section \<open>Properties\<close>

text \<open>
  The segment descriptors that \<^verbatim>\<open>gdt_setup\<close> builds from the bit fields of
  \<^verbatim>\<open>gdt.h\<close> are, as the eight bytes the processor reads, the null descriptor and the four
  flat 4 GiB segments: code and data for ring 0 (selectors 0x08 and 0x10) and for ring 3; and the
  table register covers exactly those five.
\<close>

theorem gdt_is_flat:
  "map encode_gdt (gdt_entries (gdt_setup addr s)) =
     [0, 0x00CF9A000000FFFF, 0x00CF92000000FFFF, 0x00CFFA000000FFFF, 0x00CFF2000000FFFF] \<and>
   gdtr (gdt_setup addr s) = Some \<lparr>gdt_limit = 39, gdt_base = addr\<rparr>"
  by (simp add: gdt_setup_def init_gdt_def gdt_flush_def construct_entry_def construct_null_entry_def
      segment_access_def encode_gdt_def access_byte_def gran_byte_def)

text \<open>
  C23: After \<^verbatim>\<open>idt_setup\<close> the 48 gates of the exceptions and hardware interrupts are
  present interrupt gates for ring 0 that lead, through the kernel code segment, to exactly the
  stub of their interrupt (the split of the address into halves is undone by the processor), all
  other gates are empty, and interrupts are on.
\<close>

theorem idt_gates:
  assumes "i < 256"
  shows "length (idt_entries (idt_setup addr stub s)) = 256 \<and>
    (let w = encode_gate (idt_entries (idt_setup addr stub s) ! i) in
     if i < 48 then gate_offset w = stub i \<and> gate_selector w = 0x08 \<and> gate_type w = 0x8E else w = 0) \<and>
    idtr (idt_setup addr stub s) = Some \<lparr>idt_limit = 2047, idt_base = addr\<rparr> \<and>
    interrupts_on (idt_setup addr stub s)"
proof -
  let ?fl = "\<lparr>flags_reserved = 0x0E, flags_dpl = 0, flags_p = 1\<rparr> :: idt_flags"
  let ?s1 = "set_gates stub ?fl [0..<32] (s\<lparr>idt_entries := replicate 256 null_gate\<rparr>)"
  let ?s2 = "pic_remap PIC1_START_INTERRUPT PIC2_START_INTERRUPT ?s1"
  have s1: "length (idt_entries ?s1) = 256 \<and> idt_entries ?s1 ! i = (if i < 32 then gate (stub i) else null_gate)"
    using set_gates_range [of 32 "s\<lparr>idt_entries := replicate 256 null_gate\<rparr>" i stub 0] assms
    by (simp del: upt_rec_numeral)
  have "idt_entries ?s2 = idt_entries ?s1" by (simp add: pic_remap_def inb_def outb_def Let_def)
  with s1 have s3: "length (idt_entries (set_gates stub ?fl [32..<48] ?s2)) = 256 \<and>
      idt_entries (set_gates stub ?fl [32..<48] ?s2) ! i = (if i < 48 then gate (stub i) else null_gate)"
    using set_gates_range [of 48 ?s2 i stub 32] assms by (auto simp del: upt_rec_numeral)
  have done_eq: "idt_setup addr stub s = sti (idt_flush \<lparr>idt_limit = 2047, idt_base = addr\<rparr> (set_gates stub ?fl [32..<48] ?s2))"
    by (simp add: idt_setup_def init_idt_def Let_def del: upt_rec_numeral)
  have "encode_gate null_gate = 0" by (simp add: encode_gate_def null_gate_def flags_byte_def)
  moreover have "gate_offset (encode_gate (gate b)) = b" "gate_selector (encode_gate (gate b)) = 0x08"
    "gate_type (encode_gate (gate b)) = 0x8E" for b
    unfolding encode_gate_fields using two_halves [of b] by (simp_all add: gate_def flags_byte_def)
  ultimately show ?thesis
    unfolding done_eq using s3 by (simp add: sti_def idt_flush_def Let_def del: upt_rec_numeral)
qed

theorem idt_gates_witness:
  "gate_offset (encode_gate (idt_entries (idt_setup 0x110000 (\<lambda>n. 0x100000 + 16 * of_nat n) power_up) ! 33)) = 0x100210"
  using idt_gates [of 33 "0x110000" "\<lambda>n. 0x100000 + 16 * of_nat n" power_up] by (simp add: Let_def)

text \<open>
  The remapping of the interrupt controllers: both are initialised with the vector offsets
  0x20 and 0x28 and get their saved masks back last, but the identity of the slave in the cascade
  (the byte 2) goes to the master: the master's data port receives five bytes, the slave's three.
\<close>

theorem pic_remap_writes:
  "map snd (filter (\<lambda>w. fst w = 0x21) (port_out (pic_remap o1 o2 s))) =
     map snd (filter (\<lambda>w. fst w = 0x21) (port_out s)) @ [o1, 4, 2, 1, port_in s (port_reads s) 0x21] \<and>
   map snd (filter (\<lambda>w. fst w = 0xA1) (port_out (pic_remap o1 o2 s))) =
     map snd (filter (\<lambda>w. fst w = 0xA1) (port_out s)) @ [o2, 1, port_in s (Suc (port_reads s)) 0xA1] \<and>
   port_reads (pic_remap o1 o2 s) = port_reads s + 2"
proof -
  have "(ucast (ucast (x :: u8) :: u16) :: u8) = x" for x
    by (rule bit_word_eqI) (simp add: bit_simps)
  then show ?thesis by (simp add: pic_remap_def inb_def outb_def)
qed

end
