(* ===== verification/Boot.thy ===== *)
theory Boot
  imports Keyboard Paging_Init Descriptors
begin

text \<open>
  The start of the kernel, \<^verbatim>\<open>kernel/kernel_main.c\<close>: the checks of what the boot loader
  hands over, the drivers one after the other, paging, the test of the heap. The addresses that the
  linker chooses (the tables of \<^verbatim>\<open>gdt.c\<close> and \<^verbatim>\<open>idt.c\<close>, the assembly stubs) are the record
  \<open>image\<close>. Line numbers in the panics are those of the source.
\<close>

section \<open>The operations\<close>

record image =
  gdt_address :: u32
  idt_address :: u32
  isr_stub :: "nat \<Rightarrow> u32"

abbreviation MULTIBOOT2_BOOTLOADER_MAGIC :: u32 where "MULTIBOOT2_BOOTLOADER_MAGIC \<equiv> 0x36d76289"

text \<open>The three macros print a coloured label in brackets on a new line.\<close>

definition label :: "string \<Rightarrow> color \<Rightarrow> env \<Rightarrow> 'a tty_scheme \<Rightarrow> kerror + 'a tty_scheme" where
  "label mark fg env s =
     bindE (printf (stk env) (Lit (LF @ ''['')) [] s) (\<lambda>s.
     bindE (printf_color (Lit mark) fg BLACK s) (\<lambda>s.
     printf (stk env) (Lit '']'') [] s))"

definition PRTOK :: "env \<Rightarrow> 'a tty_scheme \<Rightarrow> kerror + 'a tty_scheme" where
  "PRTOK = label '' OK '' LIGHT_GREEN"

definition PRTAT :: "env \<Rightarrow> 'a tty_scheme \<Rightarrow> kerror + 'a tty_scheme" where
  "PRTAT = label '' ** '' LIGHT_BROWN"

definition PRTER :: "env \<Rightarrow> 'a tty_scheme \<Rightarrow> kerror + 'a tty_scheme" where
  "PRTER = label '' ERR '' LIGHT_RED"

definition check_loader :: "env \<Rightarrow> u32 \<Rightarrow> u32 \<Rightarrow> 'a tty_scheme \<Rightarrow> kerror + 'a tty_scheme" where
  "check_loader env magic addr s =
     bindE (if magic \<noteq> MULTIBOOT2_BOOTLOADER_MAGIC then
         bindE (PRTER env s) (\<lambda>s.
         bindE (printf (stk env) (Lit (''   - Invalid magic number: %x'' @ LF)) [Word magic] s) (\<lambda>s.
         panic (version env) (stk env) ''Invalid multiboot magic number'' (Lit ''kernel_main.c'') 31 s))
       else Inr s) (\<lambda>s.
     if addr AND 7 \<noteq> 0 then
         bindE (PRTER env s) (\<lambda>s.
         bindE (printf (stk env) (Lit (''   - Unaligned mbi: %x'' @ LF)) [Word addr] s) (\<lambda>s.
         panic (version env) (stk env) ''Unaligned multiboot MBI'' (Lit ''kernel_main.c'') 37 s))
       else Inr s)"

definition loaded :: "env \<Rightarrow> string \<Rightarrow> 'a tty_scheme \<Rightarrow> kerror + 'a tty_scheme" where
  "loaded env what s = bindE (PRTOK env s) (printf (stk env) (Lit what) [])"

definition load_drivers :: "env \<Rightarrow> image \<Rightarrow> 'a kernel_scheme \<Rightarrow> kerror + 'a kernel_scheme" where
  "load_drivers env img s =
     bindE (printf (stk env) (Lit ''Loading kernel, wait please...'') [] s) (\<lambda>s.
     bindE (loaded env ''   - Loaded GDT'' (gdt_setup (gdt_address img) s)) (\<lambda>s.
     bindE (loaded env ''   - Loaded IDT'' (idt_setup (idt_address img) (isr_stub img) s)) (\<lambda>s.
     bindE (init_timer 1 s) (\<lambda>s.
     bindE (loaded env ''   - Loaded PIT'' s) (\<lambda>s.
     loaded env ''   - Loaded PS/2 driver'' (init_keyboard s))))))"

definition test_heap ::
    "env \<Rightarrow> (u32 \<Rightarrow> u8 \<Rightarrow> 'a kernel_scheme \<Rightarrow> kerror + u32 \<times> 'a kernel_scheme) \<Rightarrow> 'a kernel_scheme \<Rightarrow>
     kerror + 'a kernel_scheme" where
  "test_heap env al s =
     bindE (PRTAT env s) (\<lambda>s.
     bindE (printf (stk env) (Lit (''   - Testing heap...'' @ [CHR 0x09])) [] s) (\<lambda>s.
     bindE (kmalloc al 32 s) (\<lambda>(x, s).
     bindE (kmalloc al 32 s) (\<lambda>(y, s).
     bindE (printf (stk env) (Lit ''x: %x, y: %x'') [Word x, Word y] s) (\<lambda>s.
     bindE (kfree y s) (\<lambda>s.
     bindE (kmalloc al 8 s) (\<lambda>(z, s).
     bindE (printf (stk env) (Lit '', z: %x'') [Word z] s) (\<lambda>s.
     bindE (if z \<noteq> y then
         bindE (PRTER env s) (\<lambda>s.
         bindE (puts (stk env) (Lit ''   - Heap test has failed!'') s) (\<lambda>s.
         panic (version env) (stk env) ''Different heap pages'' (Lit ''kernel_main.c'') 74 s))
       else Inr s) (\<lambda>s.
     bindE (kfree z s) (\<lambda>s.
     bindE (kfree x s) (loaded env ''   - Heap works!'')))))))))))"

definition kernel_main ::
    "env \<Rightarrow> image \<Rightarrow> (u32 \<Rightarrow> u8 \<Rightarrow> 'a kernel_scheme \<Rightarrow> kerror + u32 \<times> 'a kernel_scheme) \<Rightarrow> u32 \<Rightarrow> u32 \<Rightarrow>
     'a kernel_scheme \<Rightarrow> kerror + 'a kernel_scheme" where
  "kernel_main env img al magic addr s =
     bindE (check_loader env magic addr s) (\<lambda>s.
     bindE (load_drivers env img s) (\<lambda>s.
     bindE (init_paging al s) (\<lambda>s.
     bindE (loaded env ''   - Loaded Paging'' s) (\<lambda>s.
     bindE (test_heap env al s) (\<lambda>s.
     Inr (init_prompt s))))))"

section \<open>Messages\<close>

lemma quiet_bind:
  assumes "\<exists>t. r = Inr t \<and> quiet p s t"
    and "\<And>t. tty_ok t \<Longrightarrow> \<exists>u. k t = Inr u \<and> quiet p t u"
  shows "\<exists>u. bindE r k = Inr u \<and> quiet p s u"
proof -
  obtain t where t: "r = Inr t" "quiet p s t" using assms(1) by blast
  then obtain u where "k t = Inr u" "quiet p t u" using assms(2) [of t] by (auto simp: quiet_def)
  with t quiet_trans [OF t(2)] show ?thesis by simp
qed

lemma format_quiet:
  assumes "tty_ok s" "stack_room (stk env)" "proper_lit cs" "length cs < 100"
    and "list_all2 (arg_ok (mem s) (stk env)) ap as" "render (lit_bytes cs) as = Some bs"
  shows "\<exists>t. printf (stk env) (Lit cs) ap s = Inr t \<and> quiet (stk env) s t"
  using format_printed [OF ready_tty [OF assms(1,2)] assms(3) _ assms(5,6)] assms(4) printed_quiet by fastforce

lemmas plain_quiet = format_quiet [where ap = "[]" and as = "[]", simplified]

lemma color_quiet:
  assumes "tty_ok s" "stack_room p" "proper_lit cs" "length cs < 100"
  shows "\<exists>t. printf_color (Lit cs) fg bg s = Inr t \<and> quiet p s t"
  using color_printed [OF ready_tty [OF assms(1,2)] assms(3), of fg bg] assms(4) printed_quiet by fastforce

lemma label_quiet:
  assumes "tty_ok s" "stack_room (stk env)" "proper_lit mark" "length mark < 16"
  shows "\<exists>t. label mark fg env s = Inr t \<and> quiet (stk env) s t"
  unfolding label_def
  by (intro quiet_bind color_quiet plain_quiet) (use assms in \<open>simp_all add: literal\<close>)

lemma loaded_quiet:
  assumes "tty_ok s" "stack_room (stk env)" "proper_lit what" "length what < 100" "render (lit_bytes what) [] = Some bs"
  shows "\<exists>t. loaded env what s = Inr t \<and> quiet (stk env) s t"
  unfolding loaded_def PRTOK_def
  by (rule quiet_bind [OF label_quiet plain_quiet]) (use assms in \<open>simp_all add: literal\<close>)

text \<open>What is refused: the message, and the panic.\<close>

lemma refusal:
  assumes "tty_ok s" "stack_room (stk env)" "panic_room (version env) (stk env)"
    and "proper_lit cs" "length cs < 100" "render (lit_bytes cs) [Num w] = Some bs"
    and "proper_lit msg" "length msg < 100"
  shows "bindE (PRTER env s) (\<lambda>s. bindE (printf (stk env) (Lit cs) [Word w] s) (\<lambda>s.
      panic (version env) (stk env) msg (Lit ''kernel_main.c'') line s)) = (Inl (Panic msg) :: kerror + 'b)"
proof -
  have "\<exists>t. bindE (PRTER env s) (\<lambda>s. printf (stk env) (Lit cs) [Word w] s) = Inr t \<and> quiet (stk env) s t"
    unfolding PRTER_def
    by (rule quiet_bind [OF label_quiet format_quiet [where as = "[Num w]"]]) (use assms in \<open>simp_all add: proper_lit_def\<close>)
  then obtain u t where t: "PRTER env s = Inr u" "printf (stk env) (Lit cs) [Word w] u = Inr t" "tty_ok t"
    by (auto simp: bindE_eq_Inr quiet_def)
  then show ?thesis using panic_final [OF t(3) assms(3,7), of "''kernel_main.c''" line, where ?'b = 'b] assms(8)
    by (simp add: proper_lit_def)
qed

text \<open>The kernel does nothing for a boot loader that it does not know.\<close>

lemma check_loader_cases:
  assumes "tty_ok s" "stack_room (stk env)" "panic_room (version env) (stk env)"
  shows "check_loader env magic addr s =
    (if magic \<noteq> MULTIBOOT2_BOOTLOADER_MAGIC then Inl (Panic ''Invalid multiboot magic number'')
     else if addr AND 7 \<noteq> 0 then Inl (Panic ''Unaligned multiboot MBI'') else Inr s)"
proof -
  note refuse = refusal [OF assms, where bs = "lit_bytes ''   - Invalid magic number: '' @ uitoa_text magic 16 @ [0x0A]"]
    refusal [OF assms, where bs = "lit_bytes ''   - Unaligned mbi: '' @ uitoa_text addr 16 @ [0x0A]"]
  show ?thesis
    unfolding check_loader_def by (subst refuse | simp add: literal)+
qed

section \<open>The drivers\<close>

text \<open>The variables that the drivers do not set up.\<close>

definition kept :: "'a kernel_scheme \<Rightarrow> 'a kernel_scheme \<Rightarrow> bool" where
  "kept s t \<longleftrightarrow> kheap t = kheap s \<and> placement_addr t = placement_addr s \<and> command t = command s \<and>
     temp t = temp s \<and> cmd_index t = cmd_index s \<and> tick t = tick s \<and> port_in t = port_in s"

lemma gdt_setup_other [simp]:
  "mem (gdt_setup a s) = mem s" "tty_ok (gdt_setup a s) = tty_ok s" "interrupt_handler (gdt_setup a s) = interrupt_handler s"
  "kept u (gdt_setup a s) = kept u s" "interrupts_on (gdt_setup a s) = interrupts_on s"
  by (simp_all add: gdt_setup_def init_gdt_def gdt_flush_def tty_ok_def kept_def Let_def)

lemma gdt_setup_loads: "gdtr (gdt_setup a s) = Some \<lparr>gdt_limit = 39, gdt_base = a\<rparr>"
  by (simp add: gdt_setup_def init_gdt_def gdt_flush_def)

lemma set_gates_kept [simp]:
  "tty_ok (set_gates stub fl ns s) = tty_ok s" "kept u (set_gates stub fl ns s) = kept u s"
  "gdtr (set_gates stub fl ns s) = gdtr s"
  by (induction ns arbitrary: s) (simp_all add: set_gates_def idt_set_gate_def tty_ok_def kept_def)

lemma ports_kept [simp]:
  "tty_ok (outb p d s) = tty_ok s" "kept u (outb p d t) = kept u t" "kept u (snd (inb p t)) = kept u t"
  "gdtr (outb p d t) = gdtr t" "gdtr (snd (inb p t)) = gdtr t" "idtr (outb p d t) = idtr t"
  "interrupt_handler (outb p d t) = interrupt_handler t"
  by (simp_all add: outb_def inb_def tty_ok_def kept_def)

lemma pic_remap_other [simp]:
  "mem (pic_remap a b s) = mem s" "tty_ok (pic_remap a b t) = tty_ok t" "kept u (pic_remap a b v) = kept u v"
  "gdtr (pic_remap a b v) = gdtr v" "interrupt_handler (pic_remap a b v) = interrupt_handler v"
  by (simp_all add: pic_remap_def Let_def case_prod_beta)

lemma idt_setup_other [simp]:
  "mem (idt_setup a f s) = mem s" "tty_ok (idt_setup a f s) = tty_ok s" "interrupt_handler (idt_setup a f s) = interrupt_handler s"
  "kept u (idt_setup a f s) = kept u s" "gdtr (idt_setup a f s) = gdtr s"
proof -
  let ?s = "s\<lparr>idt_entries := replicate 256 null_gate\<rparr>"
  have "kept u ?s = kept u s" "tty_ok ?s = tty_ok s" by (simp_all add: kept_def tty_ok_def)
  moreover have "kept u (sti (idt_flush p t)) = kept u t" "tty_ok (sti (idt_flush p t)) = tty_ok t" for p t
    by (simp_all add: kept_def tty_ok_def sti_def idt_flush_def)
  ultimately show "mem (idt_setup a f s) = mem s" "tty_ok (idt_setup a f s) = tty_ok s" "interrupt_handler (idt_setup a f s) = interrupt_handler s"
    "kept u (idt_setup a f s) = kept u s" "gdtr (idt_setup a f s) = gdtr s"
    by (simp_all only: idt_setup_def init_idt_def Let_def pic_remap_other set_gates_kept set_gates_other)
      (simp_all add: sti_def idt_flush_def)
qed

lemma idt_setup_loads: "idtr (idt_setup a f s) = Some \<lparr>idt_limit = 2047, idt_base = a\<rparr>" "interrupts_on (idt_setup a f s)"
  by (simp_all add: idt_setup_def init_idt_def Let_def sti_def idt_flush_def)

lemma register_kept [simp]:
  "kept u (register_interrupt_handler n h s) = kept u s" "gdtr (register_interrupt_handler n h s) = gdtr s"
  "idtr (register_interrupt_handler n h s) = idtr s"
  "interrupts_on (register_interrupt_handler n h s) = interrupts_on s"
  by (simp_all add: register_interrupt_handler_def kept_def)

lemma init_timer_run:
  "\<exists>t. init_timer 1 s = Inr t \<and> mem t = mem s \<and> tty_ok t = tty_ok s \<and> (\<forall>u. kept u t = kept u s) \<and>
    interrupts_on t = interrupts_on s \<and> gdtr t = gdtr s \<and> idtr t = idtr s \<and>
    interrupt_handler t = (interrupt_handler s)(32 := Some Timer_callback)"
  by (simp add: init_timer_def Let_def)

lemma quiet_kept:
  fixes s t :: "'a kernel_scheme"
  assumes "quiet p s t"
  shows "kept u t = kept u s" "gdtr t = gdtr s" "idtr t = idtr s" "interrupt_handler t = interrupt_handler s"
    "interrupts_on t = interrupts_on s" "tty_ok t" "same_outside (vga \<union> span p 52) (mem s) (mem t)"
    "port_in t = port_in s"
proof -
  have "tty.more t = tty.more s" "port_in t = port_in s" using assms by (simp_all add: quiet_def)
  then show "kept u t = kept u s" "gdtr t = gdtr s" "idtr t = idtr s" "interrupt_handler t = interrupt_handler s"
    by (cases t; cases s; simp add: kept_def)+
qed (use assms in \<open>simp_all add: quiet_def\<close>)

lemma load_drivers_run:
  fixes s :: "'a kernel_scheme"
  assumes "tty_ok s" "stack_room (stk env)"
  shows "\<exists>t. load_drivers env img s = Inr t \<and> tty_ok t \<and> interrupts_on t \<and> kept s t \<and>
    gdtr t = Some \<lparr>gdt_limit = 39, gdt_base = gdt_address img\<rparr> \<and>
    idtr t = Some \<lparr>idt_limit = 2047, idt_base = idt_address img\<rparr> \<and>
    interrupt_handler t = (interrupt_handler s)(32 := Some Timer_callback, 33 := Some Keyboard_callback) \<and>
    same_outside (vga \<union> span (stk env) 52) (mem s) (mem t)"
proof -
  obtain s1 where 1: "printf (stk env) (Lit ''Loading kernel, wait please...'') [] s = Inr s1" "quiet (stk env) s s1"
    using plain_quiet [OF assms, of "''Loading kernel, wait please...''"] by (auto simp: literal)
  let ?s2 = "gdt_setup (gdt_address img) s1"
  obtain s3 where 3: "loaded env ''   - Loaded GDT'' ?s2 = Inr s3" "quiet (stk env) ?s2 s3"
    using loaded_quiet [of ?s2 env "''   - Loaded GDT''"] assms quiet_kept(6) [OF 1(2)] by (auto simp: literal)
  let ?s4 = "idt_setup (idt_address img) (isr_stub img) s3"
  obtain s5 where 5: "loaded env ''   - Loaded IDT'' ?s4 = Inr s5" "quiet (stk env) ?s4 s5"
    using loaded_quiet [of ?s4 env "''   - Loaded IDT''"] assms quiet_kept(6) [OF 3(2)] by (auto simp: literal)
  obtain s6 where 6: "init_timer 1 s5 = Inr s6" "mem s6 = mem s5" "tty_ok s6" "\<forall>u. kept u s6 = kept u s5"
    "interrupts_on s6 = interrupts_on s5" "gdtr s6 = gdtr s5" "idtr s6 = idtr s5"
    "interrupt_handler s6 = (interrupt_handler s5)(32 := Some Timer_callback)"
    using init_timer_run [of s5] quiet_kept(6) [OF 5(2)] by auto
  obtain s7 where 7: "loaded env ''   - Loaded PIT'' s6 = Inr s7" "quiet (stk env) s6 s7"
    using loaded_quiet [of s6 env "''   - Loaded PIT''"] assms 6(3) by (auto simp: literal)
  let ?s8 = "init_keyboard s7"
  have "tty_ok ?s8" using quiet_kept(6) [OF 7(2)] by (simp add: init_keyboard_def)
  then obtain s9 where 9: "loaded env ''   - Loaded PS/2 driver'' ?s8 = Inr s9" "quiet (stk env) ?s8 s9"
    using loaded_quiet [of ?s8 env "''   - Loaded PS/2 driver''"] assms by (auto simp: literal)
  have "load_drivers env img s = Inr s9" using 1 3 5 6 7 9 by (simp add: load_drivers_def)
  moreover have "kept s s9"
    using quiet_kept(1) [OF 1(2)] quiet_kept(1) [OF 3(2)] quiet_kept(1) [OF 5(2)] 6(4) quiet_kept(1) [OF 7(2)]
      quiet_kept(1) [OF 9(2)] by (simp add: init_keyboard_def) (simp add: kept_def)
  moreover have "same_outside (vga \<union> span (stk env) 52) (mem s) (mem s9)"
    using quiet_kept(7) [OF 1(2)] quiet_kept(7) [OF 3(2)] quiet_kept(7) [OF 5(2)] 6(2) quiet_kept(7) [OF 7(2)]
      quiet_kept(7) [OF 9(2)] by (auto simp: init_keyboard_def same_outside_def)
  ultimately show ?thesis
    using quiet_kept(2-6) [OF 9(2)] quiet_kept(2-6) [OF 7(2)] 6 quiet_kept(2-6) [OF 5(2)] quiet_kept(2-6) [OF 3(2)]
      quiet_kept(2-6) [OF 1(2)] idt_setup_loads [of "idt_address img" "isr_stub img" s3] gdt_setup_loads [of "gdt_address img" s1]
    by (intro exI [of _ s9]) (simp add: init_keyboard_def)
qed

section \<open>The heap while the kernel talks\<close>

text \<open>
  From the creation of the heap on, relative to the state \<open>g\<close> in which it was created: the heap
  holds the chunks \<open>cs\<close>, and nothing has changed but the heap, the frame buffer and the stack.
\<close>

definition settled :: "env \<Rightarrow> 'a kernel_scheme \<Rightarrow> 'a kernel_scheme \<Rightarrow> chunk list \<Rightarrow> bool" where
  "settled env g s cs \<longleftrightarrow> (\<exists>h. kheap s = Some h \<and> heap_rep h (mem s) cs \<and> oa_array (index h) = KHEAP_START \<and>
       (\<forall>h0. kheap g = Some h0 \<longrightarrow> same_heap h0 h)) \<and>
     (\<forall>fa D T q x f. vga \<union> span (stk env) 52 \<subseteq> region 0 fa \<longrightarrow> T + 4096 \<le> 0xC0000000 \<longrightarrow>
       spare_pages fa D T q x f g \<longrightarrow> spare_pages fa D T q x f s) \<and>
     tty_ok s \<and> mm.more s = mm.more g \<and> interrupts_on s = interrupts_on g \<and> port_in s = port_in g \<and>
     same_outside (vga \<union> span (stk env) 52 \<union> region 0xC0000000 (2 ^ 32)) (mem g) (mem s) \<and>
     stack_room (stk env) \<and> unat (stk env) + 256 \<le> 0xC0000000"

lemma settled_heap: "settled env g s cs \<Longrightarrow> heap_state s cs"
  by (auto simp: settled_def heap_state_def)

lemma settled_step:
  fixes s s' g :: "'a kernel_scheme"
  assumes st: "settled env g s cs" and h: "kheap s = Some h" and R: "R \<subseteq> region 0xC0000000 (2 ^ 32)"
    and fr: "heap_frame R s s'" and h': "kheap s' = Some h'" "same_heap h h'" "heap_rep h' (mem s') cs'"
  shows "settled env g s' cs'"
proof -
  obtain m k where s': "s' = s\<lparr>mem := m, kheap := k\<rparr>" using fr by (auto simp: heap_frame_def)
  have "oa_array (index h') = KHEAP_START" "\<forall>h0. kheap g = Some h0 \<longrightarrow> same_heap h0 h'"
    using st h h'(2) same_heap_trans [OF _ h'(2)] by (auto simp: settled_def same_heap_def)
  moreover have "spare_pages fa D T q x f s'" if "spare_pages fa D T q x f s" "T + 4096 \<le> 0xC0000000" for fa D T q x f
  proof -
    have "same_outside (region 0xC0000000 (2 ^ 32)) (mem s) (mem s')"
      using fr R by (auto simp: heap_frame_def intro: same_outside_mono)
    from spare_pages_keep [OF that(1) this] that(2) show ?thesis by (simp add: s')
  qed
  moreover have "same_outside R (mem s) (mem s')" using fr by (simp add: heap_frame_def)
  then have "same_outside (vga \<union> span (stk env) 52 \<union> region 0xC0000000 (2 ^ 32)) (mem s) (mem s')"
    using R by (auto elim: same_outside_mono)
  ultimately show ?thesis using st h' unfolding settled_def
    by (auto simp: tty_ok_def s' intro: same_outside_trans)
qed

lemma heap_places:
  assumes "settled env g s cs" "kheap s = Some h" "a + n \<le> total cs"
  shows "index_region h \<union> region (unat (start_address h) + a) (unat (start_address h) + a + n) \<subseteq> region 0xC0000000 (2 ^ 32)"
proof -
  have "heap_at h (mem s) cs (mset (holes (unat (start_address h)) cs))" "oa_array (index h) = KHEAP_START"
    using assms(1,2) by (auto simp: settled_def heap_rep_def)
  moreover from this have "unat (oa_array (index h)) = 0xC0000000" by simp
  ultimately show ?thesis
    using assms(3) unat32_bound [of "end_address h"] by (auto simp: heap_at_def index_ok_def index_region_def region_def)
qed

lemma printing_idle:
  fixes s t g :: "'a kernel_scheme"
  assumes "settled env g s cs" "quiet (stk env) s t"
  shows "settled env g t cs \<and> heap_base t = heap_base s"
proof -
  have out: "same_outside (vga \<union> span (stk env) 52) (mem s) (mem t)" and more: "tty.more t = tty.more s"
    using assms(2) by (simp_all add: quiet_def)
  have "vga \<union> span (stk env) 52 \<subseteq> region 0 0xC0000000"
  proof -
    have "span (stk env) 52 \<subseteq> region (unat (stk env)) (unat (stk env) + 52)"
      using assms(1) span_region [of "stk env" 52] by (simp add: settled_def)
    moreover have "vga \<subseteq> region 0 0xC0000000"
      using span_region [of VIDEO_MEM_ADDR 7840] by (auto simp: region_def)
    ultimately show ?thesis using assms(1) by (auto simp: settled_def region_def)
  qed
  then have low: "same_outside (region 0 0xC0000000) (mem s) (mem t)" using out by (rule same_outside_mono [rotated])
  obtain h where h: "kheap s = Some h" "heap_rep h (mem s) cs" "oa_array (index h) = KHEAP_START"
    using assms(1) by (auto simp: settled_def)
  have kh: "kheap t = kheap s" using same_globals(7) [OF more] .
  have "\<exists>lo hi. same_outside (region lo hi) (mem s) (mem t) \<and> (hi \<le> unat (oa_array (index h)) \<or> unat (end_address h) \<le> lo)"
    by (rule exI [of _ 0], rule exI [of _ "0xC0000000"]) (use low h(3) in simp)
  then have "heap_idle s t" using kh h(1) by (simp add: heap_idle_def)
  from heap_idle_rep [OF this settled_heap [OF assms(1)]] have "heap_state t cs" "heap_base t = heap_base s" by simp_all
  moreover have "spare_pages fa D T q x f t"
    if "spare_pages fa D T q x f s" "vga \<union> span (stk env) 52 \<subseteq> region 0 fa" for fa D T q x f
  proof -
    have "frame_allocations t = frame_allocations s" "nframes t = nframes s" "kernel_directory t = kernel_directory s"
      using more by (cases t; cases s; simp)+
    from spare_pages_keep [OF that(1) same_outside_mono [OF out that(2)] _ this] show ?thesis by simp
  qed
  ultimately show ?thesis
    using assms h kh same_globals(9) [OF more] quiet_kept(5,6,8) [OF assms(2)] same_outside_trans [OF _ same_outside_mono [OF out Un_upper1]]
    by (auto simp: settled_def heap_state_def)
qed

text \<open>In this phase the functions that the kernel calls, with its messages in between, are an allocator.\<close>

lemma kmalloc_alloc: "kheap s = Some h \<Longrightarrow> alloc (Suc d) sz 0 s = Inr (p, t) \<Longrightarrow> kmalloc (alloc (Suc d)) sz s = Inr (p, t)"
  by (simp add: kmalloc_def kmalloc_int_def del: alloc.simps)

interpretation booting: allocator "settled env g" heap_base "kmalloc (alloc (Suc d))" kfree "quiet (stk env)"
  for env and g :: "'a kernel_scheme" and d
proof unfold_locales
  fix s :: "'a kernel_scheme" and cs k0 and sz :: u32
  assume st: "settled env g s cs" and fit: "(True, k0) \<in> set cs" "unat sz + 20 \<le> k0"
  obtain h where h: "kheap s = Some h" "heap_rep h (mem s) cs" using st by (auto simp: settled_def)
  from alloc_rep [OF h fit, of d] obtain pre k post s' h' where
    r: "cs = pre @ (True, k) # post" "unat sz + 20 \<le> k"
      "alloc (Suc d) sz 0 s = Inr (of_nat (unat (start_address h) + total pre + 12), s')"
      "kheap s' = Some h'" "same_heap h h'"
      "heap_rep h' (mem s') (pre @ carved (block_size (unat sz) k) k @ post)"
      "heap_frame (index_region h \<union> region (unat (start_address h) + total pre)
        (unat (start_address h) + total pre + k)) s s'" by blast
  have "total pre + k \<le> total cs" using r(1) by simp
  from settled_step [OF st h(1) heap_places [OF st h(1) this] r(7,4,5,6)]
  have "settled env g s' (pre @ carved (block_size (unat sz) k) k @ post)" .
  moreover have "heap_base s = unat (start_address h)" "heap_base s' = unat (start_address h)"
    using h(1) r(4) same_heapD(1) [OF r(5)] by (simp_all add: heap_base_def)
  ultimately show "\<exists>pre k post s'. cs = pre @ (True, k) # post \<and> unat sz + 20 \<le> k \<and>
      kmalloc (alloc (Suc d)) sz s = Inr (of_nat (heap_base s + total pre + 12), s') \<and>
      settled env g s' (pre @ carved (block_size (unat sz) k) k @ post) \<and> heap_base s' = heap_base s"
    using r(1,2) kmalloc_alloc [OF h(1) r(3)] 
    by (intro exI [of _ pre] exI [of _ k] exI [of _ post] exI [of _ s'] conjI) simp_all
next
  fix s :: "'a kernel_scheme" and pre n post
  assume st: "settled env g s (pre @ (False, n) # post)" and post: "post \<noteq> []" "fst (hd post) \<longrightarrow> tl post = []"
  obtain h where h: "kheap s = Some h" "heap_rep h (mem s) (pre @ (False, n) # post)"
    using st by (auto simp: settled_def)
  obtain pre' N where co: "coalesce pre n = (pre', N)" by fastforce
  from free_rep [OF h post co] obtain s' h' where
    r: "free (of_nat (unat (start_address h) + total pre + 12)) s = Inr s'" "kheap s' = Some h'"
      "same_heap h h'" "heap_rep h' (mem s') (released pre n post)"
      "heap_frame (index_region h \<union> region (unat (start_address h) + total pre')
        (unat (start_address h) + total pre + n)) s s'" by blast
  have "total pre' + N = total pre + n" by (rule left_hole_cases [of pre n]) (use co in auto)
  then have "total pre' + N \<le> total (pre @ (False, n) # post)" by simp
  from heap_places [OF st h(1) this] \<open>total pre' + N = total pre + n\<close>
  have "index_region h \<union> region (unat (start_address h) + total pre')
        (unat (start_address h) + total pre + n) \<subseteq> region 0xC0000000 (2 ^ 32)" by (simp add: add.assoc)
  from settled_step [OF st h(1) this r(5,2,3,4)] have "settled env g s' (released pre n post)" .
  moreover have "heap_base s = unat (start_address h)" "heap_base s' = unat (start_address h)"
    using h(1) r(2) same_heapD(1) [OF r(3)] by (simp_all add: heap_base_def)
  ultimately show "\<exists>s'. kfree (of_nat (heap_base s + total pre + 12)) s = Inr s' \<and>
      settled env g s' (released pre n post) \<and> heap_base s' = heap_base s"
    using r(1) by (auto simp: kfree_def)
qed (rule printing_idle)

section \<open>The test of the heap\<close>

lemma settled_says:
  assumes "settled env g s cs" "length bs < 100" "proper_lit bs"
    and "list_all2 (arg_ok (mem s) (stk env)) ap as" "render (lit_bytes bs) as = Some out"
  shows "\<exists>t. printf (stk env) (Lit bs) ap s = Inr t \<and> quiet (stk env) s t \<and> settled env g t cs \<and> heap_base t = heap_base s"
proof -
  have "tty_ok s" "stack_room (stk env)" using assms(1) by (simp_all add: settled_def)
  from format_quiet [OF this assms(3,2,4,5)] printing_idle [OF assms(1)] show ?thesis by blast
qed

lemma settled_loaded:
  assumes "settled env g s cs" "proper_lit what" "length what < 100" "render (lit_bytes what) [] = Some bs"
  shows "\<exists>t. loaded env what s = Inr t \<and> settled env g t cs"
proof -
  have "tty_ok s" "stack_room (stk env)" using assms(1) by (simp_all add: settled_def)
  from loaded_quiet [OF this assms(2-4)] printing_idle [OF assms(1)] show ?thesis by blast
qed

lemma test_heap_run:
  assumes st: "settled env g s [(True, k)]" and k: "200 \<le> k"
  shows "\<exists>t. test_heap env (alloc (Suc d)) s = Inr t \<and> settled env g t [(True, k)]"
proof -
  have ok: "tty_ok s" "stack_room (stk env)" using st by (simp_all add: settled_def)
  obtain a where a: "PRTAT env s = Inr a" "quiet (stk env) s a"
    using label_quiet [OF ok, of "'' ** ''" LIGHT_BROWN] by (auto simp: PRTAT_def literal)
  have sa: "settled env g a [(True, k)]" using printing_idle [OF st a(2)] by simp
  from settled_says [OF sa, of "''   - Testing heap...'' @ [CHR 0x09]" "[]" "[]"] obtain s0 where
    s0: "printf (stk env) (Lit (''   - Testing heap...'' @ [CHR 0x09])) [] a = Inr s0" "settled env g s0 [(True, k)]"
    by (auto simp: literal)
  let ?y = "of_nat (64 + heap_base s0) :: u32"
  from booting.heap_test [OF s0(2) k, of d] obtain s1 s2 cs2 where
    s1: "kmalloc (alloc (Suc d)) 32 s0 = Inr (of_nat (heap_base s0 + 12), s1)" and
    s2: "kmalloc (alloc (Suc d)) 32 s1 = Inr (?y, s2)" "settled env g s2 cs2" and
    more: "\<forall>t2. quiet (stk env) s2 t2 \<longrightarrow> (\<exists>s3. kfree ?y t2 = Inr s3 \<and>
      (\<exists>s4. kmalloc (alloc (Suc d)) 8 s3 = Inr (?y, s4) \<and> (\<exists>cs. settled env g s4 cs) \<and>
      (\<forall>t4. quiet (stk env) s4 t4 \<longrightarrow> (\<exists>s5. kfree ?y t4 = Inr s5 \<and>
      (\<exists>s6. kfree (of_nat (heap_base s0 + 12)) s5 = Inr s6 \<and> settled env g s6 [(True, k)] \<and> heap_base s6 = heap_base s0)))))"
    by (elim exE conjE) rule
  from settled_says [OF s2(2), of "''x: %x, y: %x''" "[Word (of_nat (heap_base s0 + 12)), Word ?y]"
      "[Num (of_nat (heap_base s0 + 12)), Num ?y]"] obtain t2 where
    t2: "printf (stk env) (Lit ''x: %x, y: %x'') [Word (of_nat (heap_base s0 + 12)), Word ?y] s2 = Inr t2" "quiet (stk env) s2 t2"
    by (auto simp: literal)
  from more t2(2) obtain s3 s4 cs4 where s34: "kfree ?y t2 = Inr s3" "kmalloc (alloc (Suc d)) 8 s3 = Inr (?y, s4)"
    "settled env g s4 cs4" and more': "\<forall>t4. quiet (stk env) s4 t4 \<longrightarrow> (\<exists>s5. kfree ?y t4 = Inr s5 \<and>
      (\<exists>s6. kfree (of_nat (heap_base s0 + 12)) s5 = Inr s6 \<and> settled env g s6 [(True, k)] \<and> heap_base s6 = heap_base s0))" by blast
  from settled_says [OF s34(3), of "'', z: %x''" "[Word ?y]" "[Num ?y]"] obtain t4 where
    t4: "printf (stk env) (Lit '', z: %x'') [Word ?y] s4 = Inr t4" "quiet (stk env) s4 t4"
    by (auto simp: literal)
  from more' t4(2) obtain s5 s6 where s56: "kfree ?y t4 = Inr s5" "kfree (of_nat (heap_base s0 + 12)) s5 = Inr s6"
    "settled env g s6 [(True, k)]" by blast
  from settled_loaded [OF s56(3), of "''   - Heap works!''"] obtain t where
    t: "loaded env ''   - Heap works!'' s6 = Inr t" "settled env g t [(True, k)]" by (auto simp: literal)
  have "test_heap env (alloc (Suc d)) s = Inr t"
    unfolding test_heap_def using a s0(1) s1 s2(1) t2(1) s34(1,2) t4(1) s56(1,2) t(1)
    by (simp del: alloc.simps of_nat_add)
  with t(2) show ?thesis by blast
qed

section \<open>The whole start\<close>

lemma same_drivers:
  fixes s t :: "'a kernel_scheme"
  assumes "mm.more t = mm.more s"
  shows "interrupt_handler t = interrupt_handler s" "command t = command s" "temp t = temp s"
    "cmd_index t = cmd_index s" "tick t = tick s" "gdtr t = gdtr s" "idtr t = idtr s" "cr3 t = cr3 s"
    "paging_on t = paging_on s"
  using assms by (cases t; cases s; simp)+

text \<open>
  The heap of the started kernel, with room to grow: the page table with no frame from entry 256 on and
  the free frames; \<open>p\<close> is the end of the image, where the bitmap is.
\<close>

definition heap_room :: "nat \<Rightarrow> 'a mm_scheme \<Rightarrow> bool" where
  "heap_room p t \<longleftrightarrow> (\<exists>h D T k. kheap t = Some h \<and> oa_array (index h) = KHEAP_START \<and> start_address h = 0xC0081000 \<and>
     end_address h = 0xC0100000 \<and> max_address h = 0xCFFFF000 \<and> oa_max_size (index h) = HEAP_INDEX_SIZE \<and>
     T + 4096 \<le> 0x400000 \<and> k \<le> 1281 \<and> spare_pages p D T 768 256 k t)"

lemma kernel_main_run:
  fixes s :: "'a kernel_scheme"
  assumes ok: "tty_ok s" "stack_room (stk env)" "addr AND 7 = 0"
    and st: "kheap s = None" "placement_addr s = of_nat p" "0x100000 \<le> p" "p \<le> 0x3F0000"
    and low: "unat (stk env) + 256 \<le> p" and guard: "read32 (mem s) 0xC0080FF8 \<noteq> HEAP_MAGIC"
  shows "\<exists>t N. kernel_main env img (alloc (Suc d)) MULTIBOOT2_BOOTLOADER_MAGIC addr s = Inr t \<and> tty_ok t \<and> interrupts_on t \<and>
    gdtr t = Some \<lparr>gdt_limit = 39, gdt_base = gdt_address img\<rparr> \<and>
    idtr t = Some \<lparr>idt_limit = 2047, idt_base = idt_address img\<rparr> \<and>
    interrupt_handler t = (interrupt_handler s)(32 := Some Timer_callback, 33 := Some Keyboard_callback, 14 := Some Page_fault) \<and>
    p < 4096 * N \<and> kernel_pages N t \<and> heap_state t [(True, 0x7F000)] \<and>
    heap_room p t \<and>
    (\<forall>u :: 'a kernel_scheme. same_outside (region 0 p) (mem t) (mem u) \<and> cr3 u = cr3 t \<and> paging_on u = paging_on t \<longrightarrow> kernel_pages N u) \<and>
    command t = command s \<and> temp t = temp s \<and> cmd_index t = cmd_index s \<and> tick t = tick s \<and> port_in t = port_in s \<and>
    same_outside (vga \<union> span (stk env) 52 \<union> region p 0x400000 \<union> region 0xC0000000 (2 ^ 32)) (mem s) (mem t)"
proof -
  let ?P = "vga \<union> span (stk env) 52"
  have stack: "span (stk env) 52 \<subseteq> region 0 p"
  proof -
    have "unat (stk env) + unat (52 :: u32) \<le> 2 ^ 32" using low st by simp
    from span_region [OF this] show ?thesis using low by (auto simp: region_def)
  qed
  have screen: "vga \<subseteq> region 0 p" using span_region [of VIDEO_MEM_ADDR 7840] st by (auto simp: region_def)
  obtain s1 where s1: "load_drivers env img s = Inr s1" "tty_ok s1" "interrupts_on s1" "kept s s1"
    "gdtr s1 = Some \<lparr>gdt_limit = 39, gdt_base = gdt_address img\<rparr>"
    "idtr s1 = Some \<lparr>idt_limit = 2047, idt_base = idt_address img\<rparr>"
    "interrupt_handler s1 = (interrupt_handler s)(32 := Some Timer_callback, 33 := Some Keyboard_callback)"
    "same_outside ?P (mem s) (mem s1)"
    using load_drivers_run [OF ok(1,2), of img] by blast
  have "read32 (mem s1) 0xC0080FF8 = read32 (mem s) 0xC0080FF8"
    by (rule read32_keep [OF s1(8)]) (use stack screen st in \<open>auto simp: region_def\<close>)
  with guard s1(4) st(1-4) obtain m N D h T where
    run: "init_paging (alloc (Suc d)) s1 = Inr (s1\<lparr>nframes := 0x10000, placement_addr := of_nat (4096 * N) + 32,
      frame_allocations := of_nat p, kernel_directory := of_nat D, mem := m, current_directory := of_nat D,
      interrupt_handler := (interrupt_handler s1)(14 := Some Page_fault), cr3 := of_nat (D + 4096), paging_on := True,
      kheap := Some h\<rparr>)" (is "_ = Inr ?g")
    and heap: "heap_rep h m [(True, 0x7F000)]" "oa_array (index h) = KHEAP_START" "start_address h = 0xC0081000"
      "end_address h = 0xC0100000" "max_address h = 0xCFFFF000" "oa_max_size (index h) = HEAP_INDEX_SIZE"
    and spare: "T + 4096 \<le> 4096 * N" "\<forall>t :: 'a kernel_scheme. frame_allocations t = of_nat p \<and> nframes t = 0x10000 \<and>
      kernel_directory t = of_nat D \<and> mem t = m \<longrightarrow> spare_pages p D T 768 256 (N + 257) t"
    and N: "p < D" "D + 8192 \<le> 4096 * N" "N < 1024"
    and maps: "directory_maps m D 0 (Suc N) 0" "directory_maps m D 768 256 (Suc N)"
    and out: "same_outside (region p (4096 * N) \<union> region 0xC0000000 0xC008100C) (mem s1) m"
    using init_paging_run [of s1 p "alloc (Suc d)"] by (auto simp: kept_def)
  have "tty_ok ?g" using s1(2) by (simp add: tty_ok_def)
  then have "settled env ?g ?g [(True, 0x7F000)]" using heap(1,2) ok(2) low st(4) by (auto simp: settled_def)
  from settled_loaded [OF this, of "''   - Loaded Paging''"] obtain s2 where
    s2: "loaded env ''   - Loaded Paging'' ?g = Inr s2" "settled env ?g s2 [(True, 0x7F000)]" by (auto simp: literal)
  from test_heap_run [OF s2(2), of d] obtain s3 where
    s3: "test_heap env (alloc (Suc d)) s2 = Inr s3" "settled env ?g s3 [(True, 0x7F000)]" by auto
  let ?t = "init_prompt s3"
  have t: "settled env ?g ?t [(True, 0x7F000)]"
    using printing_idle [OF s3(2) prompt_quiet] s3(2) by (auto simp: settled_def)
  then have more: "mm.more ?t = mm.more ?g" and int: "tty_ok ?t" "interrupts_on ?t = interrupts_on ?g" "port_in ?t = port_in ?g"
    and out': "same_outside (?P \<union> region 0xC0000000 (2 ^ 32)) m (mem ?t)" by (simp_all add: settled_def)
  have boot: "kernel_main env img (alloc (Suc d)) MULTIBOOT2_BOOTLOADER_MAGIC addr s = Inr ?t"
    using s1(1) run s2(1) s3(1) ok(3) by (simp add: kernel_main_def check_loader_def del: alloc.simps)
  have far: "region D 0x400000 \<inter> (?P \<union> region 0xC0000000 (2 ^ 32)) = {}"
    using stack screen N(1) by (fastforce simp: region_def)
  have D: "D + 8192 \<le> 0x400000" using N by simp
  have maps': "directory_maps (mem ?t) D 0 (Suc N) 0" "directory_maps (mem ?t) D 768 256 (Suc N)"
    using maps N D by (auto intro: directory_maps_keep [OF _ out' far])
  have on: "cr3 ?t = of_nat (D + 4096)" "paging_on ?t" using same_drivers [OF more] by simp_all
  have "region D 0x400000 \<inter> region 0 p = {}" using N(1) by (auto simp: region_def)
  then have later: "kernel_pages (Suc N) u" if "same_outside (region 0 p) (mem ?t) (mem u)" "cr3 u = cr3 ?t" "paging_on u = paging_on ?t"
    for u :: "'a kernel_scheme"
    using that on maps' N D by (intro kernel_pagesI [of _ D]) (auto intro: directory_maps_keep [OF _ that(1)])
  have "kernel_pages (Suc N) ?t" by (rule later) simp_all
  moreover have "same_outside (?P \<union> region p 0x400000 \<union> region 0xC0000000 (2 ^ 32)) (mem s) (mem ?t)"
  proof -
    have sub: "?P \<subseteq> ?P \<union> region p 0x400000 \<union> region 0xC0000000 (2 ^ 32)"
      "region p (4096 * N) \<union> region 0xC0000000 0xC008100C \<subseteq> ?P \<union> region p 0x400000 \<union> region 0xC0000000 (2 ^ 32)"
      "?P \<union> region 0xC0000000 (2 ^ 32) \<subseteq> ?P \<union> region p 0x400000 \<union> region 0xC0000000 (2 ^ 32)"
      using N(3) by (auto simp: region_def)
    from same_outside_mono [OF s1(8) sub(1)] same_outside_mono [OF out sub(2)] same_outside_mono [OF out' sub(3)]
    show ?thesis by (blast intro: same_outside_trans)
  qed
  moreover have "p < 4096 * Suc N" using N by simp
  moreover have "heap_room p ?t"
  proof -
    have "spare_pages p D T 768 256 (N + 257) ?g" using spare(2) by simp
    then have sp: "spare_pages p D T 768 256 (N + 257) ?t"
      using t spare(1) N(3) stack screen unfolding settled_def by auto
    obtain h' where "kheap ?t = Some h'" "same_heap h h'" using t by (auto simp: settled_def)
    with sp heap spare(1) N(3) same_heapD [of h h'] show ?thesis unfolding heap_room_def
      by (intro exI [of _ h'] exI [of _ D] exI [of _ T] exI [of _ "N + 257"]) simp
  qed
  moreover note later
  ultimately show ?thesis
    using boot int same_drivers [OF more] s1 settled_heap [OF t]
    by (intro exI [of _ ?t] exI [of _ "Suc N"]) (simp add: kept_def)
qed

section \<open>Properties\<close>

text \<open>
  C3: The kernel starts: loaded by a Multiboot 2 loader, with the end of its image between
  1 MiB and 3.9 MiB, it gets through all its steps, the test of the heap included (the third allocation
  returns the block that was released, so the panic behind the test is not reached). In the end the
  tables are loaded, interrupts are on with the timer, the keyboard and the page fault handler in
  place, all memory in use is mapped to itself and the heap to its frames, and the heap is one hole again.
\<close>

theorem kernel_boots:
  assumes "tty_ok s" "stack_room (stk env)" "addr AND 7 = 0" "kheap s = None"
    and "placement_addr s = of_nat p" "0x100000 \<le> p" "p \<le> 0x3F0000" "unat (stk env) + 256 \<le> p"
    and "read32 (mem s) 0xC0080FF8 \<noteq> HEAP_MAGIC"
  shows "\<exists>t N. kernel_main env img (alloc (Suc d)) 0x36d76289 addr s = Inr t \<and> tty_ok t \<and> interrupts_on t \<and>
    gdtr t = Some \<lparr>gdt_limit = 39, gdt_base = gdt_address img\<rparr> \<and>
    idtr t = Some \<lparr>idt_limit = 2047, idt_base = idt_address img\<rparr> \<and>
    interrupt_handler t 32 = Some Timer_callback \<and> interrupt_handler t 33 = Some Keyboard_callback \<and>
    interrupt_handler t 14 = Some Page_fault \<and> p < 4096 * N \<and> kernel_pages N t \<and>
    heap_state t [(True, 0x7F000)]"
proof -
  from kernel_main_run [OF assms, of img d] obtain t N where
    "kernel_main env img (alloc (Suc d)) MULTIBOOT2_BOOTLOADER_MAGIC addr s = Inr t" "tty_ok t" "interrupts_on t"
    "gdtr t = Some \<lparr>gdt_limit = 39, gdt_base = gdt_address img\<rparr>"
    "idtr t = Some \<lparr>idt_limit = 2047, idt_base = idt_address img\<rparr>"
    "interrupt_handler t = (interrupt_handler s)(32 := Some Timer_callback, 33 := Some Keyboard_callback, 14 := Some Page_fault)"
    "p < 4096 * N" "kernel_pages N t" "heap_state t [(True, 0x7F000)]" by (elim exE conjE) rule
  then show ?thesis by (intro exI [of _ t] exI [of _ N]) (simp del: alloc.simps)
qed

text \<open>The memory in which the kernel is started in the examples: room for the stack, no old heap.\<close>

lemma power_up_boot: "stack_room (stk demo_env)" "unat (stk demo_env) + 256 \<le> 0x200000"
    "read32 (mem power_up) 0xC0080FF8 \<noteq> HEAP_MAGIC" "panic_room (version demo_env) (stk demo_env)"
  using demo_room by (simp_all add: read32_def)
    (simp_all add: demo_env_def panic_room_def stack_example proper_lit_def apart_def word_le_nat_alt)

theorem kernel_boots_witness:
  "\<forall>img. \<exists>t. kernel_main demo_env img (alloc 1) 0x36d76289 0x10000 power_up = Inr t \<and> interrupts_on t \<and>
    interrupt_handler t 33 = Some Keyboard_callback \<and> heap_state t [(True, 0x7F000)]"
proof
  fix img
  show "\<exists>t. kernel_main demo_env img (alloc 1) 0x36d76289 0x10000 power_up = Inr t \<and> interrupts_on t \<and>
    interrupt_handler t 33 = Some Keyboard_callback \<and> heap_state t [(True, 0x7F000)]"
    using kernel_boots [of power_up demo_env "0x10000" "0x200000" img 0, OF _ power_up_boot(1) _ _ _ _ _ power_up_boot(2,3)]
    by (auto simp del: alloc.simps)
qed

text \<open>
  C28: The kernel refuses what it does not know: with a wrong magic number, or information that is
  not aligned to eight bytes, it ends in the panic that says so, whatever the layout of the image and the
  allocator; the magic number is checked first. What passes both checks is not touched by them: the state behind them is
  the state before.
\<close>

theorem boot_refused:
  assumes "tty_ok s" "stack_room (stk env)" "panic_room (version env) (stk env)"
  shows "(magic \<noteq> 0x36d76289 \<longrightarrow>
      kernel_main env img al magic addr s = Inl (Panic ''Invalid multiboot magic number'')) \<and>
    (addr AND 7 \<noteq> 0 \<longrightarrow>
      kernel_main env img al 0x36d76289 addr s = Inl (Panic ''Unaligned multiboot MBI'')) \<and>
    (magic = 0x36d76289 \<and> addr AND 7 = 0 \<longrightarrow> check_loader env magic addr s = Inr s)"
  using check_loader_cases [OF assms] by (simp add: kernel_main_def)

theorem boot_refused_witness:
  "\<forall>img al. kernel_main demo_env img al 0x2BADB002 0 power_up = Inl (Panic ''Invalid multiboot magic number'') \<and>
    kernel_main demo_env img al 0x36d76289 0x10004 power_up = Inl (Panic ''Unaligned multiboot MBI'')"
proof (intro allI)
  fix img and al :: "u32 \<Rightarrow> u8 \<Rightarrow> kernel \<Rightarrow> kerror + u32 \<times> kernel"
  show "kernel_main demo_env img al 0x2BADB002 0 power_up = Inl (Panic ''Invalid multiboot magic number'') \<and>
    kernel_main demo_env img al 0x36d76289 0x10004 power_up = Inl (Panic ''Unaligned multiboot MBI'')"
    using boot_refused [of power_up demo_env "0x2BADB002" img al 0] boot_refused [of power_up demo_env 0 img al "0x10004"]
      power_up_boot(1,4) by simp
qed

end
