(* ===== verification/Running.thy ===== *)
theory Running
  imports Boot
begin

text \<open>
  The running kernel. After \<^verbatim>\<open>kernel_main\<close> the processor only handles interrupts:
  \<open>run_handler\<close> ties the three registered functions to their definitions (its argument is the
  depth of interrupts raised by interrupt handlers; the shell command \<^verbatim>\<open>int\<close> needs one level),
  \<open>hardware_interrupt\<close> is what the assembly stubs around \<^verbatim>\<open>irq_handler\<close> do, and
  \<open>interrupt_run\<close> are the sequences of timer and keyboard interrupts in any order.
\<close>

section \<open>Interrupts of a running kernel\<close>

primrec run_handler :: "nat \<Rightarrow> env \<Rightarrow> icpuid_t \<Rightarrow> 'a runner" where
  "run_handler 0 env junk h r s = Inl Diverges"
| "run_handler (Suc n) env junk h r s = (case h of
     Timer_callback \<Rightarrow> Inr (timer_callback s)
   | Keyboard_callback \<Rightarrow> keyboard_callback env junk (run_handler n env junk) r s
   | Page_fault \<Rightarrow> page_fault env r s)"

text \<open>The stubs disable interrupts, push a zero as error code and the number, and enable interrupts.\<close>

definition hardware_interrupt ::
    "'a runner \<Rightarrow> registers_t \<Rightarrow> u32 \<Rightarrow> 'a kernel_scheme \<Rightarrow> kerror + 'a kernel_scheme" where
  "hardware_interrupt run r n s =
     bindE (irq_handler run (r\<lparr>int_num := n, err_code := 0\<rparr>) (cli s)) (\<lambda>t. Inr (sti t))"

datatype event = Tick | Key

primrec irq_number :: "event \<Rightarrow> u32" where
  "irq_number Tick = 32"
| "irq_number Key = 33"

inductive interrupt_step ::
    "env \<Rightarrow> icpuid_t \<Rightarrow> registers_t \<Rightarrow> 'a kernel_scheme \<Rightarrow> event \<Rightarrow> 'a kernel_scheme \<Rightarrow> bool"
  for env junk r where
  taken: "interrupts_on s \<Longrightarrow> hardware_interrupt (run_handler (Suc d) env junk) r (irq_number e) s = Inr t \<Longrightarrow>
    interrupt_step env junk r s e t"

inductive interrupt_run ::
    "env \<Rightarrow> icpuid_t \<Rightarrow> registers_t \<Rightarrow> 'a kernel_scheme \<Rightarrow> event list \<Rightarrow> 'a kernel_scheme \<Rightarrow> bool"
  for env junk r where
  idle: "interrupt_run env junk r s [] s"
| more: "interrupt_step env junk r s e t \<Longrightarrow> interrupt_run env junk r t es u \<Longrightarrow> interrupt_run env junk r s (e # es) u"

inductive_cases step_cases: "interrupt_step env junk r s e t"
inductive_simps interrupt_run_nil [simp]: "interrupt_run env junk r s [] t"
inductive_simps interrupt_run_Cons: "interrupt_run env junk r s (e # es) t"

section \<open>A session\<close>

text \<open>The line \<open>cs\<close> has been typed, and the timer and the keyboard are served.\<close>

definition session :: "env \<Rightarrow> 'a kernel_scheme \<Rightarrow> u8 list \<Rightarrow> bool" where
  "session env s cs \<longleftrightarrow> line_ok env s cs \<and> interrupts_on s \<and> interrupt_handler s 32 = Some Timer_callback \<and>
     interrupt_handler s 33 = Some Keyboard_callback"

lemma stub_kept [simp]:
  "line_ok env (cli s) cs = line_ok env s cs" "line_ok env (sti s) cs = line_ok env s cs"
  "line_ok env (ack_irq n s) cs = line_ok env s cs" "line_ok env (timer_callback s) cs = line_ok env s cs"
  "code_at (cli s) i = code_at s i" "code_at (sti s) i = code_at s i" "code_at (ack_irq n s) i = code_at s i"
  "code_at (timer_callback s) i = code_at s i" "screen (cli s) = screen s" "screen (sti s) = screen s"
  "screen (ack_irq n s) = screen s" "screen (timer_callback s) = screen s"
  by (simp_all add: cli_def sti_def ack_irq_def outb_def timer_callback_def line_ok_def buffers_ok_def tty_ok_def
      code_at_def screen_def cong: if_cong)

lemma flags_kept [simp]:
  "interrupt_handler (cli s) = interrupt_handler s" "interrupt_handler (sti s) = interrupt_handler s"
  "tick (cli s) = tick s" "tick (sti s) = tick s" "interrupts_on (sti s)"
  "interrupt_handler (timer_callback s) = interrupt_handler s"
  by (simp_all add: cli_def sti_def timer_callback_def)

lemma tick_taken:
  assumes "session env s cs"
  shows "\<exists>t. hardware_interrupt (run_handler (Suc d) env junk) r (irq_number Tick) s = Inr t \<and> session env t cs \<and>
    tick t = tick s + 1 \<and> (\<forall>i. code_at t i = code_at s i) \<and> screen t = screen s"
  using assms by (simp add: hardware_interrupt_def irq_handler_def Let_def session_def)
    (simp add: timer_callback_def)

lemma key_taken:
  assumes "session env s cs" "length cs < 511" "plain_key env s 0"
  shows "\<exists>t. hardware_interrupt (run_handler (Suc d) env junk) r (irq_number Key) s = Inr t \<and>
    session env t (cs @ [incoming env s 0]) \<and> tick t = tick s \<and> (\<forall>i. code_at t i = code_at s (Suc i)) \<and>
    screen t = term_put (WHITE, BLACK, incoming env s 0) (screen s)"
proof -
  let ?s = "ack_irq 33 (cli s)" and ?r = "r\<lparr>int_num := 33, err_code := 0\<rparr>"
  have "line_ok env ?s cs" "plain_key env ?s 0" "incoming env ?s 0 = incoming env s 0"
    using assms by (simp_all add: session_def plain_key_def incoming_def)
  from plain_step [OF this(1) assms(2) this(2), of junk "run_handler d env junk" ?r] this(3) obtain t where
    t: "keyboard_callback env junk (run_handler d env junk) ?r ?s = Inr t" "line_ok env t (cs @ [incoming env s 0])"
      "\<forall>i. code_at t i = code_at s (Suc i)" "screen t = term_put (WHITE, BLACK, incoming env s 0) (screen s)"
      "undisturbed ?s t" by auto
  then show ?thesis using assms(1)
    by (simp add: hardware_interrupt_def irq_handler_def Let_def session_def undisturbed_def)
qed

lemma next_incoming:
  assumes "\<forall>i. code_at t i = code_at s (f i)"
  shows "incoming env t i = incoming env s (f i)" "plain_key env t i = plain_key env s (f i)"
  using assms by (simp_all add: incoming_def plain_key_def)

lemma step_Tick:
  assumes "session env s cs" "interrupt_step env junk r s Tick t"
  shows "session env t cs" "tick t = tick s + 1" "\<forall>i. code_at t i = code_at s i" "screen t = screen s"
proof -
  from assms(2) obtain d where "hardware_interrupt (run_handler (Suc d) env junk) r (irq_number Tick) s = Inr t"
    by (rule step_cases)
  with tick_taken [OF assms(1), of d junk r]
  show "session env t cs" "tick t = tick s + 1" "\<forall>i. code_at t i = code_at s i" "screen t = screen s" by auto
qed

lemma step_Key:
  assumes "session env s cs" "length cs < 511" "plain_key env s 0" "interrupt_step env junk r s Key t"
  shows "session env t (cs @ [incoming env s 0])" "tick t = tick s" "\<forall>i. code_at t i = code_at s (Suc i)"
    "screen t = term_put (WHITE, BLACK, incoming env s 0) (screen s)"
proof -
  from assms(4) obtain d where "hardware_interrupt (run_handler (Suc d) env junk) r (irq_number Key) s = Inr t"
    by (rule step_cases)
  with key_taken [OF assms(1-3), of d junk r]
  show "session env t (cs @ [incoming env s 0])" "tick t = tick s" "\<forall>i. code_at t i = code_at s (Suc i)"
    "screen t = term_put (WHITE, BLACK, incoming env s 0) (screen s)" by auto
qed

lemma step_possible:
  assumes "session env s cs" "e = Key \<longrightarrow> length cs < 511 \<and> plain_key env s 0"
  shows "\<exists>t. interrupt_step env junk r s e t"
proof -
  have "\<exists>t. hardware_interrupt (run_handler (Suc 0) env junk) r (irq_number e) s = Inr t"
    using tick_taken [OF assms(1), of 0 junk r] key_taken [OF assms(1), of 0 junk r] assms(2) by (cases e) blast+
  moreover have "interrupts_on s" using assms(1) by (simp add: session_def)
  ultimately show ?thesis using taken by blast
qed

lemma map_upt_shift: "(\<And>i. g i = f (Suc i)) \<Longrightarrow> List.map f [0..<Suc n] = f 0 # List.map g [0..<n]"
  by (simp add: map_upt_Suc del: upt_Suc)

lemma run_typed:
  assumes "session env s cs" "length cs + count_list es Key \<le> 511" "\<forall>i < count_list es Key. plain_key env s i"
  shows "(\<exists>t. interrupt_run env junk r s es t) \<and> (\<forall>t. interrupt_run env junk r s es t \<longrightarrow>
    session env t (cs @ List.map (incoming env s) [0..<count_list es Key]) \<and>
    tick t = tick s + of_nat (count_list es Tick) \<and>
    screen t = fold term_put (items WHITE BLACK (List.map (incoming env s) [0..<count_list es Key])) (screen s))"
  using assms
proof (induction es arbitrary: s cs)
  case Nil
  then show ?case by (simp add: items_def)
next
  case (Cons e es)
  let ?goal = "\<lambda>s cs es t. session env t (cs @ List.map (incoming env s) [0..<count_list es Key]) \<and>
    tick t = tick s + of_nat (count_list es Tick) \<and>
    screen t = fold term_put (items WHITE BLACK (List.map (incoming env s) [0..<count_list es Key])) (screen s)"
  have step: "(\<exists>u. interrupt_run env junk r t es u) \<and> (\<forall>u. interrupt_run env junk r t es u \<longrightarrow> ?goal s cs (e # es) u)"
    if t: "interrupt_step env junk r s e t" for t
  proof (cases e)
    case Tick
    note st = step_Tick [OF Cons.prems(1) t [unfolded Tick]]
    note inc = next_incoming [OF st(3)]
    have "incoming env t = incoming env s" using inc(1) by (rule ext)
    with Cons.IH [OF st(1)] Cons.prems(2,3) Tick inc(2) st(2,4) show ?thesis by simp
  next
    case Key
    then have len: "length cs < 511" "plain_key env s 0" using Cons.prems(2,3) by auto
    note st = step_Key [OF Cons.prems(1) len t [unfolded Key]]
    note inc = next_incoming [OF st(3)]
    have map: "List.map (incoming env s) [0..<Suc n] = incoming env s 0 # List.map (incoming env t) [0..<n]" for n
      using inc(1) by (rule map_upt_shift)
    have "length (cs @ [incoming env s 0]) + count_list es Key \<le> 511" "\<forall>i < count_list es Key. plain_key env t i"
      using Cons.prems(2,3) Key inc(2) by auto
    from Cons.IH [OF st(1) this] st(2,4) show ?thesis
      unfolding Key by (simp add: map items_def del: upt_Suc)
  qed
  have "e = Key \<longrightarrow> length cs < 511 \<and> plain_key env s 0" using Cons.prems(2,3) by auto
  from step_possible [OF Cons.prems(1) this, of junk r] step show ?case
    unfolding interrupt_run_Cons by blast
qed

section \<open>Properties\<close>

text \<open>
  Timer and keyboard do not disturb each other: from any state of a session, every
  interleaving of timer interrupts and key presses (no backspace or enter, up to 511 characters) can
  happen, and whatever its order, the line afterwards is the characters of the keys in order, the
  screen has got exactly those, and the clock has advanced by the number of timer interrupts.
\<close>

theorem typing_under_interrupts:
  assumes "session env s cs" "length cs + count_list es Key \<le> 511" "\<forall>i < count_list es Key. plain_key env s i"
  shows "(\<exists>t. interrupt_run env junk r s es t) \<and> (\<forall>t. interrupt_run env junk r s es t \<longrightarrow>
    session env t (cs @ List.map (incoming env s) [0..<count_list es Key]) \<and>
    tick t = tick s + of_nat (count_list es Tick) \<and>
    screen t = fold term_put (items WHITE BLACK (List.map (incoming env s) [0..<count_list es Key])) (screen s))"
  by (rule run_typed [OF assms])

lemma started_session:
  fixes s t :: "'a kernel_scheme"
  assumes "buffers_ok env s" "cmd_index s = 0" "\<forall>i < 512. mem s (command s + of_nat i) = 0" "unat (command s) + 512 \<le> p"
    and "p \<le> 0x3F0000" "tty_ok t" "interrupts_on t"
    and "interrupt_handler t 32 = Some Timer_callback" "interrupt_handler t 33 = Some Keyboard_callback"
    and "command t = command s" "temp t = temp s" "cmd_index t = cmd_index s"
    and "same_outside (vga \<union> span (stk env) 52 \<union> region p 0x400000 \<union> region 0xC0000000 (2 ^ 32)) (mem s) (mem t)"
  shows "session env t []"
proof -
  have "get_byte (command s) (mem t) i = 0" if "i < 512" for i
  proof -
    have in_buffer: "command s + of_nat i \<in> span (command s) (of_nat 512)" using that by (intro in_span_of_nat) simp_all
    then have "command s + of_nat i \<notin> vga" "command s + of_nat i \<notin> span (stk env) 256"
      using assms(1) span_disjoint unfolding buffers_ok_def by auto
    moreover have "span (stk env) 52 \<subseteq> span (stk env) 256" by (intro span_mono) simp
    moreover have "command s + of_nat i \<notin> region p 0x400000 \<union> region 0xC0000000 (2 ^ 32)"
      using span_region [of "command s" 512] in_buffer assms(4,5) by (auto simp: region_def)
    ultimately have "mem t (command s + of_nat i) = mem s (command s + of_nat i)"
      using assms(13) by (auto simp: same_outside_def)
    with assms(3) that show ?thesis by (simp add: get_byte_def read8_def)
  qed
  moreover have "buffers_ok env t" using assms(1,10,11) by (simp add: buffers_ok_def)
  ultimately show ?thesis using assms by (simp add: session_def line_ok_def)
qed

text \<open>
  From power on to the prompt and on: the kernel starts, and from then on, whatever the order
  of timer interrupts and key presses, the command line holds the characters typed and the tick counter
  the number of timer interrupts. (The premises place the image: the buffers below its end, empty, and
  apart from the screen and the stack.)
\<close>

theorem boot_then_type:
  assumes "tty_ok s" "stack_room (stk env)" "addr AND 7 = 0" "kheap s = None"
    and "placement_addr s = of_nat p" "0x100000 \<le> p" "p \<le> 0x3F0000" "unat (stk env) + 256 \<le> p"
    and "read32 (mem s) 0xC0080FF8 \<noteq> HEAP_MAGIC"
    and "buffers_ok env s" "cmd_index s = 0" "\<forall>i < 512. mem s (command s + of_nat i) = 0" "unat (command s) + 512 \<le> p"
  shows "\<exists>t. kernel_main env img (alloc (Suc d)) 0x36d76289 addr s = Inr t \<and> port_in t = port_in s \<and>
    (\<forall>es. count_list es Key \<le> 511 \<longrightarrow> (\<forall>i < count_list es Key. plain_key env t i) \<longrightarrow>
      (\<exists>u. interrupt_run env junk r t es u) \<and> (\<forall>u. interrupt_run env junk r t es u \<longrightarrow>
        line_ok env u (List.map (incoming env t) [0..<count_list es Key]) \<and>
        tick u = tick s + of_nat (count_list es Tick)))"
proof -
  from kernel_main_run [OF assms(1-9), of img d] obtain t where
    t: "kernel_main env img (alloc (Suc d)) MULTIBOOT2_BOOTLOADER_MAGIC addr s = Inr t" "tty_ok t" "interrupts_on t"
    "interrupt_handler t = (interrupt_handler s)(32 := Some Timer_callback, 33 := Some Keyboard_callback, 14 := Some Page_fault)"
    "command t = command s" "temp t = temp s" "cmd_index t = cmd_index s" "tick t = tick s" "port_in t = port_in s"
    "same_outside (vga \<union> span (stk env) 52 \<union> region p 0x400000 \<union> region 0xC0000000 (2 ^ 32)) (mem s) (mem t)"
    by (elim exE conjE) rule
  have "session env t []" by (rule started_session [OF assms(10-13,7) t(2,3) _ _ t(5-7,10)]) (simp_all add: t(4))
  from run_typed [OF this, of _ junk r] t(1,8,9) show ?thesis
    by (intro exI [of _ t]) (auto simp: session_def simp del: alloc.simps)
qed

section \<open>Examples\<close>

text \<open>A machine whose keyboard always sends the code of the key \<^verbatim>\<open>a\<close>.\<close>

definition keyed_up :: kernel where
  "keyed_up = power_up\<lparr>port_in := \<lambda>n p. 0x1E\<rparr>"

lemma keyed_up_facts:
  "tty_ok keyed_up" "kheap keyed_up = None" "placement_addr keyed_up = of_nat 0x200000" "mem keyed_up = (\<lambda>a. 0)"
  "buffers_ok demo_env keyed_up" "cmd_index keyed_up = 0" "unat (command keyed_up) + 512 \<le> 0x200000" "tick keyed_up = 0"
  "port_in keyed_up = (\<lambda>n p. 0x1E)"
  by (simp_all add: keyed_up_def buffers_ok_def demo_room tty_ok_def apart_def) (simp_all add: demo_env_def)

lemma always_a: "port_in t = (\<lambda>n p. 0x1E) \<Longrightarrow> plain_key env t i \<and> incoming env t i = 0x61"
  by (simp add: plain_key_def incoming_def code_at_def key_at_def keyboard_scan_codes_def)

theorem typing_under_interrupts_witness:
  "\<forall>junk r. \<exists>t. interrupt_run demo_env junk r (keyed_up\<lparr>interrupts_on := True, interrupt_handler :=
      [32 \<mapsto> Timer_callback, 33 \<mapsto> Keyboard_callback]\<rparr>) [Key, Tick, Key] t \<and> tick t = 1"
proof (intro allI)
  fix junk r
  let ?s = "keyed_up\<lparr>interrupts_on := True, interrupt_handler := [32 \<mapsto> Timer_callback, 33 \<mapsto> Keyboard_callback]\<rparr>"
  have "session demo_env ?s []" using keyed_up_facts
    by (simp add: session_def line_ok_def buffers_ok_def tty_ok_def get_byte_def read8_def)
  from typing_under_interrupts [OF this, of "[Key, Tick, Key]" junk r] always_a [of ?s demo_env] keyed_up_facts
  show "\<exists>t. interrupt_run demo_env junk r ?s [Key, Tick, Key] t \<and> tick t = 1" by auto
qed

theorem boot_then_type_witness:
  "\<forall>img junk r. \<exists>t u. kernel_main demo_env img (alloc 1) 0x36d76289 0 keyed_up = Inr t \<and>
    interrupt_run demo_env junk r t [Tick, Key, Key, Tick] u \<and> line_ok demo_env u (lit_bytes ''aa'') \<and> tick u = 2"
proof (intro allI)
  fix img junk r
  have "\<forall>i < 512. mem keyed_up (command keyed_up + of_nat i) = 0" "read32 (mem keyed_up) 0xC0080FF8 \<noteq> HEAP_MAGIC"
    by (simp_all add: keyed_up_facts(4) read32_def)
  from boot_then_type [OF keyed_up_facts(1) power_up_boot(1) _ keyed_up_facts(2,3) _ _ power_up_boot(2) this(2)
      keyed_up_facts(5,6) this(1) keyed_up_facts(7), of 0 img 0 junk r] obtain t where
    t: "kernel_main demo_env img (alloc 1) 0x36d76289 0 keyed_up = Inr t" "port_in t = port_in keyed_up"
      "\<forall>es. count_list es Key \<le> 511 \<longrightarrow> (\<forall>i < count_list es Key. plain_key demo_env t i) \<longrightarrow>
        (\<exists>u. interrupt_run demo_env junk r t es u) \<and> (\<forall>u. interrupt_run demo_env junk r t es u \<longrightarrow>
        line_ok demo_env u (List.map (incoming demo_env t) [0..<count_list es Key]) \<and>
        tick u = tick keyed_up + of_nat (count_list es Tick))"
    by (auto simp del: alloc.simps)
  have "List.map (incoming demo_env t) [0..<2] = lit_bytes ''aa''"
    using always_a [of t demo_env] t(2) keyed_up_facts(9) by (simp add: upt_rec lit_bytes_def)
  with t(3) [rule_format, of "[Tick, Key, Key, Tick]"] always_a [of t demo_env] t(1,2) keyed_up_facts(8,9)
  show "\<exists>t u. kernel_main demo_env img (alloc 1) 0x36d76289 0 keyed_up = Inr t \<and>
    interrupt_run demo_env junk r t [Tick, Key, Key, Tick] u \<and> line_ok demo_env u (lit_bytes ''aa'') \<and> tick u = 2"
    by (auto simp del: alloc.simps simp: numeral_2_eq_2)
qed

end
