(* ===== verification/Fetch.thy ===== *)
theory Fetch
  imports Shell
begin

text \<open>
  What the command \<^verbatim>\<open>fetch\<close> shows (\<^verbatim>\<open>kernel/userspace/fetch.c\<close>, modelled in
  \<open>Shell\<close>): its parts are composed with the clock (\<open>Time\<close>) and the identification of the processor
  (\<open>Cpuid\<close>) into the text on the screen.
\<close>

section \<open>Printing and reading the clock\<close>

text \<open>The value that two reads of a clock register stand for.\<close>

definition bcd_from :: "inputs \<Rightarrow> nat \<Rightarrow> u32" where
  "bcd_from inp n = ucast (inp n CMOS_DATA) div 16 * 10 + (ucast (inp (Suc n) CMOS_DATA) AND 0xF)"

abbreviation bcd_at :: "'a machine_scheme \<Rightarrow> nat \<Rightarrow> u32" where
  "bcd_at s \<equiv> bcd_from (inputs s)"

lemmas bcd_at_def = bcd_from_def inputs_def

lemma clock_frame_tty:
  fixes s t :: "'a tty_scheme"
  assumes "clock_frame rs s t"
  shows "screen t = screen s" "tty_ok t = tty_ok s"
proof -
  have "mem t = mem s" "fb_col t = fb_col s" "fb_row t = fb_row s"
    using assms by (cases t; cases s; simp add: clock_frame_def)+
  then show "screen t = screen s" "tty_ok t = tty_ok s" by (simp_all add: screen_def tty_ok_def cong: if_cong)
qed

text \<open>
  \<open>told p rs s cs t\<close>: from \<open>s\<close> to \<open>t\<close> the items \<open>cs\<close> were printed, and the registers \<open>rs\<close> of the
  clock were selected, with one port read for each; apart from the frame buffer and 224 bytes of the stack nothing else changed.
\<close>

definition told :: "u32 \<Rightarrow> u8 list \<Rightarrow> 'a tty_scheme \<Rightarrow> (color \<times> color \<times> u8) list \<Rightarrow> 'a tty_scheme \<Rightarrow> bool" where
  "told p rs s cs t \<longleftrightarrow> tty_ok t \<and> screen t = fold term_put cs (screen s) \<and> port_in t = port_in s \<and>
     port_reads t = port_reads s + length rs \<and>
     clock_log (port_out t) = clock_log (port_out s) @ rs \<and> same_outside (vga \<union> span p 224) (mem s) (mem t) \<and>
     interrupts_on t = interrupts_on s \<and> tty.more t = tty.more s"

lemma told_append: "told p ps s xs t \<Longrightarrow> told p qs t ys u \<Longrightarrow> told p (ps @ qs) s (xs @ ys) u"
  by (auto simp: told_def intro: same_outside_trans)

lemma printed_told: "printed p s cs t \<Longrightarrow> told p [] s cs t"
  using span_mono [of 20 224 p] by (auto simp: printed_def print_frame_def told_def intro: same_outside_mono)

lemma told_port:
  "told p rs s cs t \<Longrightarrow> busy t i = busy s (length rs + i)"
  "told p rs s cs t \<Longrightarrow> bcd_at t i = bcd_at s (length rs + i)"
  by (simp_all add: told_def busy_def bcd_at_def add_ac)

text \<open>A local array of 64 bytes at offset \<open>d\<close> that holds a string of the build.\<close>

lemma array_room:
  assumes "stack_room p" "unat (d :: u32) + 64 \<le> 224"
  shows "unat (p + d) = unat p + unat d" "span (p + d) 64 \<subseteq> span p 224"
proof -
  show e: "unat (p + d) = unat p + unat d"
    using assms by (intro unat_add32) (simp add: stack_room_def)
  show "span (p + d) 64 \<subseteq> span p 224" using assms(2) by (intro span_part) simp
qed

lemma array_safe:
  assumes "stack_room p" "20 \<le> unat d" "unat d + 64 \<le> 224" "length v < 64" "cstr m (At (p + d)) (lit_bytes v)"
  shows "safe_cstr m p (At (p + d)) (lit_bytes v)"
proof -
  let ?n = "of_nat (Suc (length v)) :: u32"
  have len: "length (lit_bytes v) = length v" by (simp add: lit_bytes_def)
  have n: "unat ?n = Suc (length v)" using assms(4) by (intro unat_of_nat32) simp
  then have "0 < ?n" by (simp add: word_less_nat_alt del: of_nat_Suc)
  have "apart ?n (p + d) 7840 VIDEO_MEM_ADDR"
    using n assms(3,4) \<open>0 < ?n\<close> by (intro room_part [OF assms(1)]) simp_all
  moreover have "apart 20 p ?n (p + d)"
    using n array_room(1) [OF assms(1,3)] assms by (intro apart_below) (simp_all add: stack_room_def)
  ultimately show ?thesis
    using assms(4,5) len by (simp add: safe_cstr_def apart_commute del: of_nat_Suc)
qed

lemma array_filled:
  assumes "tty_ok s" "stack_room p" "20 \<le> unat d" "unat d + 64 \<le> 224" "proper_lit v" "length v < 64"
  shows "\<exists>m. strcpy (mem s) (p + d) (Lit v) = Inr m \<and> told p [] s [] (s\<lparr>mem := m\<rparr>) \<and>
    safe_cstr m p (At (p + d)) (lit_bytes v) \<and> same_outside (span (p + d) 64) (mem s) m"
proof -
  have len: "length (lit_bytes v) = length v" by (simp add: lit_bytes_def)
  from strcpy_cstr [OF cstr_Lit [OF assms(5), of "mem s"], of "p + d"] assms(6) len obtain m where
    m: "strcpy (mem s) (p + d) (Lit v) = Inr m" "cstr m (At (p + d)) (lit_bytes v)"
      "same_outside (span (p + d) (of_nat (Suc (length v)))) (mem s) m" by auto
  have "of_nat (Suc (length v)) \<le> (64 :: u32)"
    using of_nat_le32 [of "Suc (length v)" 64] assms(6) by simp
  then have out: "same_outside (span (p + d) 64) (mem s) m"
    using m(3) span_mono by (blast intro: same_outside_mono)
  have "apart 64 (p + d) 7840 VIDEO_MEM_ADDR" by (rule room_part [OF assms(2)]) (use assms(4) in simp_all)
  from screen_apart [OF this out] have "told p [] s [] (s\<lparr>mem := m\<rparr>)"
    using assms(1) out array_room(2) [OF assms(2,4)]
    by (auto simp: told_def tty_ok_def intro: same_outside_mono)
  with m(1) out array_safe [OF assms(2-4,6) m(2)] show ?thesis by blast
qed

text \<open>The string in one array survives a change of another.\<close>

lemma safe_other:
  assumes "safe_cstr m p (At a) bs" "apart (of_nat (Suc (length bs))) a k b" "same_outside (span b k) m m'"
  shows "safe_cstr m' p (At a) bs"
proof -
  have c: "cstr m (At a) bs" and l: "Suc (length bs) < 2 ^ 32" using assms(1) by (simp_all add: safe_cstr_def)
  have same: "byte_at m' (At a) (of_nat i) = byte_at m (At a) (of_nat i)" if "i \<le> length bs" for i
  proof -
    have "a + of_nat i \<in> span a (of_nat (Suc (length bs)))" using that l by (intro in_span_of_nat) simp_all
    then have "a + of_nat i \<notin> span b k" using assms(2) span_disjoint by blast
    with assms(3) show ?thesis by (simp add: same_outside_def read8_def)
  qed
  have "cstr m' (At a) bs"
    using same cstr_nth [OF c] cstr_end [OF c] cstr_nonzero [OF c] by (intro cstrI) auto
  with assms(1) show ?thesis by (simp add: safe_cstr_def)
qed

section \<open>The names of the processor\<close>

definition type_name :: "env \<Rightarrow> string option" where
  "type_name env = (if vendor env = INTEL_MAGIC_NUMBER
     then map_of [(0, ''Original OEM''), (1, ''Overdrive''), (2, ''Dual-capable''), (3, ''Reserved'')] (unat (sig_type env))
     else None)"

definition family_name :: "env \<Rightarrow> string option" where
  "family_name env = (if vendor env = INTEL_MAGIC_NUMBER
     then map_of [(3, ''i386''), (4, ''i486''), (5, ''Pentium II Model 5/Xeon/Celeron''),
       (6, ''Pentium Pro''), (15, ''Pentium 4'')] (unat (sig_family env))
     else if vendor env = AMD_MAGIC_NUMBER then None else Some ''Generic (x86) CPU'')"

lemma get_cpu_type_name:
  "type_name env = Some ty \<Longrightarrow> get_cpu_type env junk s = Inr (Lit ty, s)"
  "type_name env = None \<Longrightarrow> get_cpu_type env junk s \<noteq> Inr r"
proof -
  have f: "unat (sig_type env) = n \<longleftrightarrow> sig_type env = of_nat n" if "n < 2 ^ 32" for n
    using that by (auto simp: word_unat_eq_iff)
  show "get_cpu_type env junk s = Inr (Lit ty, s)" if "type_name env = Some ty"
    using that by (auto simp: type_name_def get_cpu_type_def detect_cases(1) get_cpuid_def get_cpuid_intel_def
        Let_def assigned_def f split: if_splits)
  show "get_cpu_type env junk s \<noteq> Inr r" if none: "type_name env = None"
  proof (cases "vendor env = INTEL_MAGIC_NUMBER")
    case True
    with none show ?thesis
      by (auto simp: type_name_def get_cpu_type_def detect_cases(1) get_cpuid_def get_cpuid_intel_def
          Let_def assigned_def f split: if_splits)
  next
    case False
    show ?thesis
    proof (cases "vendor env = AMD_MAGIC_NUMBER")
      case True
      then show ?thesis using amd_no_type
        by (fastforce simp: get_cpu_type_def detect_cases(2) get_cpuid_def Let_def bindE_eq_Inr assigned_def)
    next
      case other: False
      with False show ?thesis
        by (simp add: get_cpu_type_def detect_cases get_cpuid_def generic_cpu_def Let_def assigned_def)
    qed
  qed
qed

lemma get_cpu_family_name:
  "family_name env = Some fam \<Longrightarrow> get_cpu_family env junk s = Inr (Lit fam, s)"
  "family_name env = None \<Longrightarrow> get_cpu_family env junk s \<noteq> Inr r"
  using cpu_family_name [of env junk s]
  by (cases r; auto simp: family_name_def split: if_splits option.splits)+

lemma names_proper:
  "type_name env = Some ty \<Longrightarrow> proper_lit ty \<and> length ty < 64"
  "family_name env = Some fam \<Longrightarrow> proper_lit fam \<and> length fam < 64"
  by (auto simp: type_name_def family_name_def proper_lit_def split: if_splits)

section \<open>The parts of fetch\<close>

lemma bind_returns:
  "\<exists>t. r = Inr t \<and> P t \<Longrightarrow> (\<And>t. P t \<Longrightarrow> \<exists>u. k t = Inr u \<and> Q u) \<Longrightarrow> \<exists>u. bindE r k = Inr u \<and> Q u"
  by auto

lemma told_ready: "told p rs s xs t \<Longrightarrow> stack_room p \<Longrightarrow> ready p {} t"
  by (rule ready_tty) (simp_all add: told_def)

lemma told_printed:
  assumes "told p rs s xs t" "ready p ps t" "printed p t ys u"
  shows "told p rs s (xs @ ys) u \<and> ready p ps u"
  using told_append [OF assms(1) printed_told [OF assms(3)]] ready_printed [OF assms(2,3)] by simp

lemma told_color:
  assumes "told p rs s xs t \<and> ready p ps t" "proper_lit cs" "Suc (length cs) < 2 ^ 32"
  shows "\<exists>u. printf_color (Lit cs) fg BLACK t = Inr u \<and>
    told p rs s (xs @ items fg BLACK (lit_bytes cs)) u \<and> ready p ps u"
  using color_printed [OF _ assms(2,3)] told_printed assms(1) by meson

lemma told_color_ptr:
  assumes "told p rs s xs t \<and> ready p ps t" "(q, bs) \<in> ps"
  shows "\<exists>u. printf_color q fg BLACK t = Inr u \<and> told p rs s (xs @ items fg BLACK bs) u \<and> ready p ps u"
  using color_ptr_printed [OF _ assms(2)] told_printed assms(1) by meson

lemma told_lines:
  assumes "told p rs s xs t \<and> ready p ps t" "\<forall>l \<in> set ls. proper_lit (fst l) \<and> Suc (length (fst l)) < 2 ^ 32"
  shows "\<exists>u. color_lines ls t = Inr u \<and>
    told p rs s (xs @ concat (List.map (\<lambda>l. items (snd l) BLACK (lit_bytes (fst l))) ls)) u \<and> ready p ps u"
proof -
  from assms(1) have t: "told p rs s xs t" "ready p ps t" by simp_all
  from color_lines_printed [OF t(2) assms(2)] told_printed [OF t] show ?thesis by blast
qed

lemma told_format:
  assumes "told p rs s xs t \<and> ready p ps t" "proper_lit cs" "Suc (length cs) < 2 ^ 32"
    and "list_all2 (arg_ok (mem t) p) ap as" "render (lit_bytes cs) as = Some out"
  shows "\<exists>u. printf p (Lit cs) ap t = Inr u \<and> told p rs s (xs @ items WHITE BLACK out) u \<and> ready p ps u"
  using format_printed [OF _ assms(2-5)] told_printed assms(1) by meson

lemma told_time:
  assumes "told (stk env) rs s xs t \<and> ready (stk env) {} t" "\<not> busy s (length rs)"
  shows "\<exists>u. print_time env field t = Inr u \<and>
    told (stk env) (rs @ [0x0A, ucast field, ucast field]) s
      (xs @ items WHITE BLACK (uitoa_text (bcd_at s (length rs + 1)) 10)) u \<and> ready (stk env) {} u"
proof -
  have t: "told (stk env) rs s xs t" "ready (stk env) {} t" using assms(1) by simp_all
  from await_ready [of 0 t] assms(2) told_port(1) [OF t(1), of 0] obtain a where
    a: "await_cmos t = Inr a" "clock_frame [0x0A] t a" by auto
  have bcd: "bcd_at t 1 = bcd_at s (length rs + 1)" by (rule told_port(2) [OF t(1)])
  from bcd_read_run [of field a] clock_frameD [OF a(2)] obtain b where
    b: "bcd_read field a = (bcd_at t 1, b)" "clock_frame [ucast field, ucast field] a b" by (auto simp: bcd_at_def)
  note fr = clock_frame_trans [OF a(2) b(2)]
  have "mem b = mem t" using fr by (simp add: clock_frame_def)
  then have "ready (stk env) {} b" using t(2) clock_frame_tty [OF fr] by (simp add: ready_def)
  moreover have "told (stk env) [0x0A, ucast field, ucast field] t [] b"
  proof -
    have "tty.more b = tty.more t" using fr by (cases b; cases t; simp add: clock_frame_def)
    with clock_frame_tty [OF fr] clock_frameD [OF fr] t(2) show ?thesis by (simp add: told_def ready_def)
  qed
  ultimately have "told (stk env) (rs @ [0x0A, ucast field, ucast field]) s xs b \<and> ready (stk env) {} b"
    using told_append [OF t(1)] by fastforce
  from told_format [OF this, of "''%d''" "[Word (bcd_at t 1)]" "[Num (bcd_at t 1)]"] obtain u where
    "printf (stk env) (Lit ''%d'') [Word (bcd_at t 1)] b = Inr u"
    "told (stk env) (rs @ [0x0A, ucast field, ucast field]) s (xs @ items WHITE BLACK (uitoa_text (bcd_at t 1) 10)) u \<and> ready (stk env) {} u"
    by (auto simp: literal)
  then show ?thesis using a(1) b(1) bcd by (simp add: print_time_def get_time_def)
qed

text \<open>
  The items of the date, each from one wait for the clock and two reads, and the registers that are
  selected for them: status register 10 for the wait, then 7 (day), 8 (month) and 9 (year) twice.
\<close>

definition date_registers :: "u8 list" where
  "date_registers = [0x0A, 7, 7, 0x0A, 8, 8, 0x0A, 9, 9]"

lemma length_date_registers [simp]: "length date_registers = 9"
  by (simp add: date_registers_def)

definition date_items :: "inputs \<Rightarrow> (color \<times> color \<times> u8) list" where
  "date_items inp =
     items WHITE BLACK (uitoa_text (bcd_from inp 1) 10) @ items LIGHT_BLUE BLACK [0x2F] @
     items WHITE BLACK (uitoa_text (bcd_from inp 4) 10) @ items LIGHT_BLUE BLACK [0x2F] @
     items WHITE BLACK (uitoa_text (bcd_from inp 7) 10)"

lemma told_date:
  assumes "told (stk env) [] s xs t \<and> ready (stk env) {} t" "\<not> busy s 0" "\<not> busy s 3" "\<not> busy s 6"
  shows "\<exists>u. get_date env t = Inr u \<and> told (stk env) date_registers s (xs @ date_items (inputs s)) u \<and> ready (stk env) {} u"
proof -
  have slash: "proper_lit ''/''" "Suc (length ''/'') < 2 ^ 32" "lit_bytes ''/'' = [0x2F]"
    by (simp_all add: literal)
  have len: "length ([] :: u8 list) = 0" "length ([] @ [0x0A :: u8, a, b]) = 3"
    "length (([] @ [0x0A :: u8, a, b]) @ [0x0A, c, d]) = 6" for a b c d by simp_all
  note time = told_time [where rs = "[]", unfolded len(1)] told_time [where rs = "[] @ [0x0A, a, b]" for a b, unfolded len(2)]
    told_time [where rs = "([] @ [0x0A, a, b]) @ [0x0A, c, d]" for a b c d, unfolded len(3)]
  have "\<exists>u. get_date env t = Inr u \<and> told (stk env) ((([] @ [0x0A, ucast TIME_R_DAY, ucast TIME_R_DAY]) @ [0x0A, ucast TIME_R_MONTH, ucast TIME_R_MONTH]) @
        [0x0A, ucast TIME_R_YEAR, ucast TIME_R_YEAR]) s
      (((((xs @ items WHITE BLACK (uitoa_text (bcd_at s (0 + 1)) 10)) @ items LIGHT_BLUE BLACK (lit_bytes ''/'')) @
        items WHITE BLACK (uitoa_text (bcd_at s (3 + 1)) 10)) @ items LIGHT_BLUE BLACK (lit_bytes ''/'')) @
        items WHITE BLACK (uitoa_text (bcd_at s (6 + 1)) 10)) u \<and> ready (stk env) {} u"
    unfolding get_date_def
    by (rule bind_returns [OF time(1)], rule assms(1), rule assms(2),
        rule bind_returns [OF told_color], assumption, rule slash, rule slash,
        rule bind_returns [OF time(2)], assumption, rule assms(3),
        rule bind_returns [OF told_color], assumption, rule slash, rule slash,
        rule time(3), assumption, rule assms(4))
  then show ?thesis by (simp add: date_items_def date_registers_def slash(3))
qed

definition cpuid_items :: "string \<Rightarrow> string \<Rightarrow> (color \<times> color \<times> u8) list" where
  "cpuid_items ty fam = items LIGHT_CYAN BLACK (lit_bytes ''CPU type: '') @
     items WHITE BLACK (lit_bytes (ty @ '' ('' @ fam @ '')''))"

lemma told_cpuid:
  assumes "told (stk env) rs s xs t \<and> ready (stk env) {} t" "type_name env = Some ty" "family_name env = Some fam"
  shows "\<exists>u. get_cpuid_line env junk t = Inr u \<and> told (stk env) rs s (xs @ cpuid_items ty fam) u \<and> ready (stk env) {} u"
proof -
  note names = names_proper(1) [OF assms(2)] names_proper(2) [OF assms(3)]
  have ty: "list_all2 (arg_ok m p) [Pointer (Lit ty)] [Text (lit_bytes ty)]" for m p
    using names(1) by (simp add: safe_cstr_Lit)
  have fam: "list_all2 (arg_ok m p) [Pointer (Lit '' (''), Pointer (Lit fam), Word 0x29]
      [Text (lit_bytes '' (''), Text (lit_bytes fam), Num 0x29]" for m p
    using names(2) by (simp add: safe_cstr_Lit proper_lit_def)
  have out: "render (lit_bytes ''%s'') [Text a] = Some a"
    "render (lit_bytes ''%s%s%c'') [Text a, Text b, Num 0x29] = Some (a @ b @ [0x29])" for a b
    by (simp_all add: lit_bytes_def skip_spaces_def)
  have "\<exists>u. get_cpuid_line env junk t = Inr u \<and> told (stk env) rs s
      (((xs @ items LIGHT_CYAN BLACK (lit_bytes ''CPU type: '')) @ items WHITE BLACK (lit_bytes ty)) @
        items WHITE BLACK (lit_bytes '' ('' @ lit_bytes fam @ [0x29])) u \<and> ready (stk env) {} u"
    unfolding get_cpuid_line_def get_cpu_type_name(1) [OF assms(2)] get_cpu_family_name(1) [OF assms(3)]
      bindE_simps prod.case
    by (rule bind_returns [OF told_color], rule assms(1), simp add: literal, simp,
        rule bind_returns [OF told_format [OF _ _ _ ty out(1)]], assumption, simp add: literal, simp,
        rule told_format [OF _ _ _ fam out(2)], assumption, simp add: literal, simp)
  then show ?thesis by (simp add: cpuid_items_def items_def lit_bytes_def)
qed

definition version_items :: "string \<Rightarrow> (color \<times> color \<times> u8) list" where
  "version_items v = items LIGHT_CYAN BLACK (lit_bytes (LF @ replicate 5 (CHR 0x09) @ ''   Version: '')) @
     items LIGHT_GREEN BLACK (lit_bytes v)"

lemma told_version:
  assumes "told (stk env) rs s xs t" "stack_room (stk env)" "proper_lit (version env)" "length (version env) < 64"
  shows "\<exists>u. get_version env t = Inr u \<and> told (stk env) rs s (xs @ version_items (version env)) u"
proof -
  let ?ps = "{(At (stk env + 32), lit_bytes (version env))}"
  have "tty_ok t" using assms(1) by (simp add: told_def)
  from array_filled [OF this assms(2) _ _ assms(3,4), of 32] obtain m where
    m: "strcpy (mem t) (stk env + 32) (Lit (version env)) = Inr m" "told (stk env) [] t [] (t\<lparr>mem := m\<rparr>)"
      "safe_cstr m (stk env) (At (stk env + 32)) (lit_bytes (version env))" by auto
  have "told (stk env) rs s xs (t\<lparr>mem := m\<rparr>) \<and> ready (stk env) ?ps (t\<lparr>mem := m\<rparr>)"
    using told_append [OF assms(1) m(2)] m(3) told_ready [OF m(2) assms(2)] by (simp add: ready_def)
  then have "\<exists>u. bindE (printf_color (Lit (LF @ replicate 5 (CHR 0x09) @ ''   Version: '')) LIGHT_CYAN BLACK (t\<lparr>mem := m\<rparr>))
        (printf_color (At (stk env + 32)) LIGHT_GREEN BLACK) = Inr u \<and>
      told (stk env) rs s ((xs @ items LIGHT_CYAN BLACK (lit_bytes (LF @ replicate 5 (CHR 0x09) @ ''   Version: ''))) @
        items LIGHT_GREEN BLACK (lit_bytes (version env))) u \<and> ready (stk env) ?ps u"
    by (rule bind_returns [OF told_color]) (simp add: literal, simp, rule told_color_ptr, assumption, simp)
  then show ?thesis using m(1) by (auto simp: get_version_def version_items_def)
qed

text \<open>The two arrays of \<^verbatim>\<open>system_fetcher\<close> and what it prints from them.\<close>

definition fetch_arrays :: "u32 \<Rightarrow> (ptr \<times> u8 list) set" where
  "fetch_arrays p = {(At (p + 96), lit_bytes DEFAULT_USER), (At (p + 160), lit_bytes DEFAULT_HOSTNAME)}"

lemma arrays_filled:
  assumes "tty_ok s" "stack_room p"
  shows "\<exists>m1 m2. strcpy (mem s) (p + 96) (Lit DEFAULT_USER) = Inr m1 \<and>
    strcpy m1 (p + 160) (Lit DEFAULT_HOSTNAME) = Inr m2 \<and>
    told p [] s [] (s\<lparr>mem := m2\<rparr>) \<and> ready p (fetch_arrays p) (s\<lparr>mem := m2\<rparr>)"
proof -
  from array_filled [OF assms, of 96 "DEFAULT_USER"] obtain m1 where
    m1: "strcpy (mem s) (p + 96) (Lit DEFAULT_USER) = Inr m1" "told p [] s [] (s\<lparr>mem := m1\<rparr>)"
      "safe_cstr m1 p (At (p + 96)) (lit_bytes DEFAULT_USER)" by (auto simp: literal)
  have "tty_ok (s\<lparr>mem := m1\<rparr>)" using m1(2) by (simp add: told_def)
  from array_filled [OF this assms(2), of 160 "DEFAULT_HOSTNAME"] obtain m2 where
    m2: "strcpy m1 (p + 160) (Lit DEFAULT_HOSTNAME) = Inr m2" "told p [] (s\<lparr>mem := m1\<rparr>) [] (s\<lparr>mem := m2\<rparr>)"
      "safe_cstr m2 p (At (p + 160)) (lit_bytes DEFAULT_HOSTNAME)" "same_outside (span (p + 160) 64) m1 m2"
    by (auto simp: literal)
  note t = told_append [OF m1(2) m2(2)]
  have "apart (of_nat (Suc (length (lit_bytes DEFAULT_USER)))) (p + 96) 64 (p + 160)"
    by (rule apart_same_base) (simp_all add: lit_bytes_def)
  from safe_other [OF m1(3) this m2(4)] m2(3) told_ready [OF t assms(2)] t m1(1) m2(1)
  show ?thesis by (auto simp: ready_def fetch_arrays_def)
qed

definition logo_items :: "(color \<times> color \<times> u8) list" where
  "logo_items =
     items LIGHT_RED BLACK (lit_bytes (art ''$ __   __   ___  ___    '')) @
     items LIGHT_CYAN BLACK (lit_bytes DEFAULT_USER) @ items LIGHT_RED BLACK [0x40] @
     items LIGHT_CYAN BLACK (lit_bytes DEFAULT_HOSTNAME) @
     items LIGHT_RED BLACK (lit_bytes (art ''$ ^ ^ / /  / _ ^/ __|   '')) @
     items LIGHT_RED BLACK (lit_bytes ''-----------'') @
     items LIGHT_RED BLACK (lit_bytes (art ''$  ^ V /  | (_) ^__ ^   '')) @
     items LIGHT_CYAN BLACK (lit_bytes ''Date: '')"

definition fetch_items :: "env \<Rightarrow> inputs \<Rightarrow> string \<Rightarrow> string \<Rightarrow> (color \<times> color \<times> u8) list" where
  "fetch_items env inp ty fam = logo_items @ date_items inp @
     items LIGHT_RED BLACK (lit_bytes (art ''$   ^_/    ^___/|___/   '')) @ cpuid_items ty fam @
     version_items (version env)"

lemma fetch_run:
  assumes "tty_ok s" "stack_room (stk env)" "\<not> busy s 0" "\<not> busy s 3" "\<not> busy s 6"
    and "proper_lit (version env)" "length (version env) < 64"
    and "type_name env = Some ty" "family_name env = Some fam"
  shows "\<exists>t. system_fetcher env junk s = Inr t \<and> told (stk env) date_registers s (fetch_items env (inputs s) ty fam) t"
proof -
  let ?p = "stk env" and ?ps = "fetch_arrays (stk env)"
  let ?lines = "[(art ''$ ^ ^ / /  / _ ^/ __|   '', LIGHT_RED), (''-----------'', LIGHT_RED),
        (art ''$  ^ V /  | (_) ^__ ^   '', LIGHT_RED), (''Date: '', LIGHT_CYAN)]"
  have lines: "\<forall>l \<in> set ?lines. proper_lit (fst l) \<and> Suc (length (fst l)) < 2 ^ 32"
    by (simp add: proper_lit_def art_def)
  from arrays_filled [OF assms(1,2)] obtain m1 m2 where
    m: "strcpy (mem s) (?p + 96) (Lit DEFAULT_USER) = Inr m1" "strcpy m1 (?p + 160) (Lit DEFAULT_HOSTNAME) = Inr m2"
    and start: "told ?p [] s [] (s\<lparr>mem := m2\<rparr>) \<and> ready ?p ?ps (s\<lparr>mem := m2\<rparr>)" by blast
  have user: "(At (?p + 96), lit_bytes DEFAULT_USER) \<in> ?ps" "(At (?p + 160), lit_bytes DEFAULT_HOSTNAME) \<in> ?ps"
    by (simp_all add: fetch_arrays_def)
  have drop: "told ?p rs s xs t \<and> ready ?p ?ps t \<Longrightarrow> told ?p rs s xs t \<and> ready ?p {} t" for rs xs and t :: "'a tty_scheme"
    by (simp add: ready_def)
  have ver: "told ?p rs s xs t \<and> ready ?p {} t \<Longrightarrow>
      \<exists>u. get_version env t = Inr u \<and> told ?p rs s (xs @ version_items (version env)) u" for rs xs and t :: "'a tty_scheme"
    using told_version [of env rs s xs t] assms(2,6,7) by blast
  have "\<exists>t. system_fetcher env junk s = Inr t \<and> told ?p date_registers s (((((((((
      [] @ items LIGHT_RED BLACK (lit_bytes (art ''$ __   __   ___  ___    ''))) @
      items LIGHT_CYAN BLACK (lit_bytes DEFAULT_USER)) @ items LIGHT_RED BLACK (lit_bytes ''@'')) @
      items LIGHT_CYAN BLACK (lit_bytes DEFAULT_HOSTNAME)) @
      concat (List.map (\<lambda>l. items (snd l) BLACK (lit_bytes (fst l))) ?lines)) @ date_items (inputs s)) @
      items LIGHT_RED BLACK (lit_bytes (art ''$   ^_/    ^___/|___/   ''))) @ cpuid_items ty fam) @
      version_items (version env)) t"
    unfolding system_fetcher_def Let_def m bindE_simps
    by (rule bind_returns [OF told_color], rule start, simp add: literal art_def, simp,
        rule bind_returns [OF told_color_ptr], assumption, rule user(1),
        rule bind_returns [OF told_color], assumption, simp add: literal, simp,
        rule bind_returns [OF told_color_ptr], assumption, rule user(2),
        rule bind_returns [OF told_lines [OF _ lines]], assumption,
        rule bind_returns [OF told_date], erule drop, rule assms, rule assms, rule assms,
        rule bind_returns [OF told_color], assumption, simp add: literal art_def, simp,
        rule bind_returns [OF told_cpuid], assumption, rule assms, rule assms,
        rule ver, assumption)
  moreover have "lit_bytes ''@'' = [0x40]" by (simp add: lit_bytes_def)
  ultimately show ?thesis by (simp add: fetch_items_def logo_items_def)
qed

lemma cpuid_unnamed: "type_name env = None \<or> family_name env = None \<Longrightarrow> get_cpuid_line env junk s \<noteq> Inr t"
  by (auto simp: get_cpuid_line_def bindE_eq_Inr get_cpu_type_name(2) get_cpu_family_name(2))

text \<open>The date alone.\<close>

lemma date_shown:
  assumes "tty_ok s" "stack_room (stk env)" "\<not> busy s 0" "\<not> busy s 3" "\<not> busy s 6"
  shows "\<exists>t. get_date env s = Inr t \<and> tty_ok t \<and> screen t = fold term_put (date_items (inputs s)) (screen s)"
proof -
  have "told (stk env) [] s [] s" using assms(1) by (simp add: told_def)
  with told_date [OF conjI assms(3-5)] ready_tty [OF assms(1,2)] show ?thesis by (fastforce simp: told_def)
qed

section \<open>Properties\<close>

text \<open>
  C25: What \<^verbatim>\<open>fetch\<close> shows. On a processor whose type and family have names, with a
  clock that is not busy when it is asked and a version string that fits its array, the command
  returns: the screen gets the logo with user and host name, the date as day, month and year in
  decimal, each from its own wait and two reads of the clock, the two names, and the version.
  What is sent to the address port of the clock is exactly this: for each of the three its status register 10,
  and then twice the register of the day (7), of the month (8) and of the year (9), in that order;
  memory changes only in the frame buffer and in 224 bytes of the stack, and no variable of
  the kernel changes. On any other processor (every AMD, every unknown vendor, an Intel family
  without a name) the command has no result: it uses a pointer that was never assigned.
\<close>

theorem fetch_shown:
  assumes "tty_ok s" "stack_room (stk env)" "\<not> busy s 0" "\<not> busy s 3" "\<not> busy s 6"
    and "proper_lit (version env)" "length (version env) < 64"
  shows "(case (type_name env, family_name env) of
      (Some ty, Some fam) \<Rightarrow> (\<exists>t. system_fetcher env junk s = Inr t \<and> tty_ok t \<and>
        screen t = fold term_put (fetch_items env (inputs s) ty fam) (screen s) \<and>
        same_outside (vga \<union> span (stk env) 224) (mem s) (mem t) \<and> port_reads t = port_reads s + 9 \<and>
        clock_log (port_out t) = clock_log (port_out s) @ [0x0A, 7, 7, 0x0A, 8, 8, 0x0A, 9, 9] \<and>
        interrupts_on t = interrupts_on s \<and> tty.more t = tty.more s)
    | _ \<Rightarrow> \<nexists>t. system_fetcher env junk s = Inr t)"
proof (cases "type_name env = None \<or> family_name env = None")
  case True
  then have "\<nexists>t. system_fetcher env junk s = Inr t"
    by (auto simp: system_fetcher_def bindE_eq_Inr Let_def cpuid_unnamed)
  then show ?thesis using True by (auto split: option.split)
next
  case False
  then obtain ty fam where n: "type_name env = Some ty" "family_name env = Some fam" by auto
  with fetch_run [OF assms n, of junk] show ?thesis by (auto simp: told_def date_registers_def)
qed

theorem fetch_shown_witness:
  "\<forall>junk. \<exists>t. system_fetcher demo_env junk (power_up\<lparr>port_in := \<lambda>n p. 0x24\<rparr>) = Inr t \<and>
    screen t = fold term_put (logo_items @
      (items WHITE BLACK [0x32, 0x34] @ items LIGHT_BLUE BLACK [0x2F] @ items WHITE BLACK [0x32, 0x34] @
       items LIGHT_BLUE BLACK [0x2F] @ items WHITE BLACK [0x32, 0x34]) @
      items LIGHT_RED BLACK (lit_bytes (art ''$   ^_/    ^___/|___/   '')) @
      cpuid_items ''Original OEM'' ''Pentium Pro'' @ version_items ''5fb9a3c'')
      (screen (power_up\<lparr>port_in := \<lambda>n p. 0x24\<rparr>))"
proof
  fix junk
  let ?s = "power_up\<lparr>port_in := \<lambda>n p. 0x24\<rparr>"
  have ok: "tty_ok ?s" "\<not> busy ?s i" for i by (simp_all add: tty_ok_def busy_def)
  have v: "proper_lit (version demo_env)" "length (version demo_env) < 64" "version demo_env = ''5fb9a3c''"
    by (simp_all add: demo_env_def proper_lit_def)
  have n: "type_name demo_env = Some ''Original OEM''" "family_name demo_env = Some ''Pentium Pro''"
    by (simp_all add: type_name_def family_name_def vendor_def sig_type_def sig_family_def signature_def demo_env_def)
  have "uitoa_text (bcd_at ?s i) 10 = [0x32, 0x34]" for i
    by (simp add: bcd_at_def uitoa_text_def digits.simps digit_char_def)
  then have d: "date_items (inputs ?s) = items WHITE BLACK [0x32, 0x34] @ items LIGHT_BLUE BLACK [0x2F] @
      items WHITE BLACK [0x32, 0x34] @ items LIGHT_BLUE BLACK [0x2F] @ items WHITE BLACK [0x32, 0x34]"
    by (simp add: date_items_def)
  from fetch_shown [OF ok(1) demo_room(1) ok(2) ok(2) ok(2) v(1,2), of junk]
  show "\<exists>t. system_fetcher demo_env junk ?s = Inr t \<and>
    screen t = fold term_put (logo_items @
      (items WHITE BLACK [0x32, 0x34] @ items LIGHT_BLUE BLACK [0x2F] @ items WHITE BLACK [0x32, 0x34] @
       items LIGHT_BLUE BLACK [0x2F] @ items WHITE BLACK [0x32, 0x34]) @
      items LIGHT_RED BLACK (lit_bytes (art ''$   ^_/    ^___/|___/   '')) @
      cpuid_items ''Original OEM'' ''Pentium Pro'' @ version_items ''5fb9a3c'') (screen ?s)"
    unfolding n prod.case option.case fetch_items_def d v(3) by blast
qed

end
