(* ===== verification/User_View.thy ===== *)
theory User_View
  imports Running Fetch Growth_Props
begin

text \<open>
  The running kernel as its user sees it. \<open>simulation\<close> is the interface of a step relation
  that computes a function of an abstraction of its states; \<open>view\<close> is the abstract machine (line, tick
  counter, bytes to come from the ports, terminal) and \<open>view_step\<close> its function. The interpretation
  \<open>user\<close> shows that the interrupts of \<open>Running\<close>, with the shell and \<^verbatim>\<open>fetch\<close> behind
  them, are a simulation of it; the properties carry this over to all sequences of events, from any serving state
  and from power on.
\<close>

section \<open>Simulation\<close>

text \<open>
  The interface of a step relation that computes a function of an abstraction of its states:
  an accepted event can happen, and whatever happens, the abstract state moves as the function says.
\<close>

fun admissible :: "('e \<Rightarrow> 'v \<Rightarrow> bool) \<Rightarrow> ('e \<Rightarrow> 'v \<Rightarrow> 'v) \<Rightarrow> 'e list \<Rightarrow> 'v \<Rightarrow> bool" where
  "admissible accepts advance [] v \<longleftrightarrow> True"
| "admissible accepts advance (e # es) v \<longleftrightarrow> accepts e v \<and> admissible accepts advance es (advance e v)"

locale simulation =
  fixes step :: "'s \<Rightarrow> 'e \<Rightarrow> 's \<Rightarrow> bool" and run :: "'s \<Rightarrow> 'e list \<Rightarrow> 's \<Rightarrow> bool" and ok :: "'s \<Rightarrow> bool"
    and abs :: "'s \<Rightarrow> 'v" and advance :: "'e \<Rightarrow> 'v \<Rightarrow> 'v" and accepts :: "'e \<Rightarrow> 'v \<Rightarrow> bool"
    and keeps :: "'s \<Rightarrow> 's \<Rightarrow> bool"
  assumes run_nil: "run s [] t \<longleftrightarrow> t = s"
    and run_cons: "run s (e # es) t \<longleftrightarrow> (\<exists>u. step s e u \<and> run u es t)"
    and possible: "ok s \<Longrightarrow> accepts e (abs s) \<Longrightarrow> \<exists>t. step s e t"
    and advances: "ok s \<Longrightarrow> accepts e (abs s) \<Longrightarrow> step s e t \<Longrightarrow> ok t \<and> abs t = advance e (abs s) \<and> keeps s t"
    and keeps_refl: "keeps s s"
    and keeps_trans: "keeps s t \<Longrightarrow> keeps t u \<Longrightarrow> keeps s u"
begin

lemma run_possible: "ok s \<Longrightarrow> admissible accepts advance es (abs s) \<Longrightarrow> \<exists>t. run s es t"
proof (induction es arbitrary: s)
  case Nil
  show ?case unfolding run_nil by blast
next
  case (Cons e es)
  then have acc: "accepts e (abs s)" "admissible accepts advance es (advance e (abs s))" by simp_all
  from possible [OF Cons.prems(1) acc(1)] obtain u where u: "step s e u" ..
  from advances [OF Cons.prems(1) acc(1) u] acc(2) have "ok u" "admissible accepts advance es (abs u)" by simp_all
  from Cons.IH [OF this] u show ?case unfolding run_cons by blast
qed

lemma run_advances:
  "ok s \<Longrightarrow> admissible accepts advance es (abs s) \<Longrightarrow> run s es t \<Longrightarrow>
   ok t \<and> abs t = fold advance es (abs s) \<and> keeps s t"
proof (induction es arbitrary: s)
  case Nil
  from Nil(1,3) show ?case unfolding run_nil by (simp add: keeps_refl)
next
  case (Cons e es)
  from Cons.prems(2) have acc: "accepts e (abs s)" "admissible accepts advance es (advance e (abs s))" by simp_all
  from Cons.prems(3) obtain u where u: "step s e u" "run u es t" unfolding run_cons by blast
  from advances [OF Cons.prems(1) acc(1) u(1)] have v: "ok u" "abs u = advance e (abs s)" "keeps s u" by simp_all
  from Cons.IH [OF v(1) _ u(2)] acc(2) v(2) have "ok t" "abs t = fold advance es (abs u)" "keeps u t" by simp_all
  with v(2) keeps_trans [OF v(3)] show ?case by simp
qed

end

section \<open>The kernel as its user sees it\<close>

text \<open>
  The line typed so far, the number of timer interrupts, what the ports will deliver, and the
  terminal.
\<close>

record view =
  typed :: "u8 list"
  ticks :: u32
  ahead :: inputs
  display :: "term"

definition view_of :: "'a kernel_scheme \<Rightarrow> view" where
  "view_of s = \<lparr>typed = List.map (get_byte (command s) (mem s)) [0..<unat (cmd_index s)],
     ticks = tick s, ahead = inputs s, display = screen s\<rparr>"

text \<open>The shell sees the line up to its first null byte (which the keys without a character type).\<close>

definition word_typed :: "u8 list \<Rightarrow> string" where
  "word_typed cs = List.map (\<lambda>b. char_of (unat b)) (takeWhile (\<lambda>b. b \<noteq> 0) cs)"

definition after_reads :: "nat \<Rightarrow> inputs \<Rightarrow> inputs" where
  "after_reads n inp = (\<lambda>i. inp (n + i))"

text \<open>
  The answer to a line: how many ports are read for it, and the terminal afterwards. For \<^verbatim>\<open>fetch\<close>
  the clock must not be busy when it is asked, and the processor must have a name; for \<^verbatim>\<open>timer\<close> the
  digits of the counter must fit their array.
\<close>

definition answer :: "env \<Rightarrow> u32 \<Rightarrow> inputs \<Rightarrow> string \<Rightarrow> term \<Rightarrow> nat \<times> term" where
  "answer env n inp line t =
     (if line = ''fetch'' then (case (type_name env, family_name env) of
          (Some ty, Some fam) \<Rightarrow> (9, fold term_put (fetch_items env inp ty fam) t)
        | _ \<Rightarrow> (0, t))
      else (0, reply env n line t))"

definition answered :: "env \<Rightarrow> u32 \<Rightarrow> inputs \<Rightarrow> string \<Rightarrow> bool" where
  "answered env n inp line \<longleftrightarrow> line \<noteq> ''reboot'' \<and> (line = ''timer'' \<longrightarrow> unat n < 10 ^ 7) \<and>
     (line = ''fetch'' \<longrightarrow> type_name env \<noteq> None \<and> family_name env \<noteq> None \<and>
       (\<forall>i \<in> {0, 3, 6}. inp i CMOS_DATA AND 0x80 = 0))"

definition rubout :: "term \<Rightarrow> term" where
  "rubout t = set_cell (row t) (col t - 1) blank (t\<lparr>col := col t - 1\<rparr>)"

text \<open>
  One key: a release does nothing, backspace leaves a line of null bytes, enter answers the line and
  starts a new one, any other key is appended and echoed.
\<close>

definition press :: "env \<Rightarrow> view \<Rightarrow> view" where
  "press env v =
     (let code = ahead v 0 KB_DATA_PORT; key = key_at env code; rest = after_reads 1 (ahead v);
          line = word_typed (typed v)
      in if code AND 0x80 \<noteq> 0 then v\<lparr>ahead := rest\<rparr>
         else if key = 0x08 then
           (if typed v = [] then v\<lparr>ahead := rest\<rparr>
            else v\<lparr>ahead := rest, typed := replicate (length (typed v) - 1) 0, display := rubout (display v)\<rparr>)
         else if key = 0x0A then
           (case answer env (ticks v) rest line (display v) of (n, t) \<Rightarrow>
             v\<lparr>ahead := after_reads n rest, typed := [], display := fold term_put prompt_items t\<rparr>)
         else v\<lparr>ahead := rest, typed := typed v @ [key], display := term_put (WHITE, BLACK, key) (display v)\<rparr>)"

definition pressable :: "env \<Rightarrow> view \<Rightarrow> bool" where
  "pressable env v \<longleftrightarrow>
     (let code = ahead v 0 KB_DATA_PORT; key = key_at env code; rest = after_reads 1 (ahead v)
      in code AND 0x80 \<noteq> 0 \<or>
         (if key = 0x08 then typed v = [] \<or> col (display v) \<noteq> 0
          else if key = 0x0A then answered env (ticks v) rest (word_typed (typed v))
          else length (typed v) < 511))"

primrec view_step :: "env \<Rightarrow> event \<Rightarrow> view \<Rightarrow> view" where
  "view_step env Tick v = v\<lparr>ticks := ticks v + 1\<rparr>"
| "view_step env Key v = press env v"

primrec view_accepts :: "env \<Rightarrow> event \<Rightarrow> view \<Rightarrow> bool" where
  "view_accepts env Tick v \<longleftrightarrow> True"
| "view_accepts env Key v \<longleftrightarrow> pressable env v"

section \<open>What the kernel keeps\<close>

definition env_ok :: "env \<Rightarrow> bool" where
  "env_ok env \<longleftrightarrow> length (dump env) = 8 \<and> proper_lit (version env) \<and> length (version env) < 64"

definition serving :: "env \<Rightarrow> 'a kernel_scheme \<Rightarrow> bool" where
  "serving env s \<longleftrightarrow> session env s (typed (view_of s)) \<and> env_ok env \<and>
     apart 512 (temp s) 7840 VIDEO_MEM_ADDR \<and> (\<forall>n \<in> {0, 1, 4}. interrupt_handler s n = None)"

text \<open>The frame buffer, the stack, the two buffers of the keyboard; and three variables.\<close>

definition user_memory :: "env \<Rightarrow> 'a kernel_scheme \<Rightarrow> u32 set" where
  "user_memory env s = vga \<union> span (stk env) 224 \<union> span (command s) 512 \<union> span (temp s) 512"

definition confined :: "env \<Rightarrow> 'a kernel_scheme \<Rightarrow> 'a kernel_scheme \<Rightarrow> bool" where
  "confined env s t \<longleftrightarrow> same_outside (user_memory env s) (mem s) (mem t) \<and>
     interrupts_on t = interrupts_on s \<and> port_in t = port_in s \<and>
     tty.more t = tty.more (s\<lparr>tick := tick t, cmd_index := cmd_index t, shiftdown := shiftdown t\<rparr>)"

lemma confinedD:
  fixes s t :: "'a kernel_scheme"
  assumes "confined env s t"
  shows "interrupt_handler t = interrupt_handler s" "command t = command s" "temp t = temp s" "kheap t = kheap s"
    "port_in t = port_in s" "interrupts_on t = interrupts_on s"
proof -
  have "tty.more t = tty.more (s\<lparr>tick := tick t, cmd_index := cmd_index t, shiftdown := shiftdown t\<rparr>)"
    "port_in t = port_in s" "interrupts_on t = interrupts_on s" using assms by (simp_all add: confined_def)
  then show "interrupt_handler t = interrupt_handler s" "command t = command s" "temp t = temp s" "kheap t = kheap s"
    "port_in t = port_in s" "interrupts_on t = interrupts_on s" by (cases t; cases s; simp)+
qed

lemma confined_refl: "confined env s s"
  by (simp add: confined_def)

lemma confined_trans:
  fixes s t u :: "'a kernel_scheme"
  assumes "confined env s t" "confined env t u"
  shows "confined env s u"
proof -
  have "user_memory env t = user_memory env s"
    using confinedD [OF assms(1)] by (simp add: user_memory_def)
  moreover have "tty.more u = tty.more (s\<lparr>tick := tick u, cmd_index := cmd_index u, shiftdown := shiftdown u\<rparr>)"
    using assms unfolding confined_def by (cases s; cases t; cases u; simp)
  ultimately show ?thesis using assms by (auto simp: confined_def intro: same_outside_trans)
qed

lemma quiet_confined: "quiet (stk env) s t \<Longrightarrow> confined env s t"
proof -
  assume q: "quiet (stk env) s t"
  have "vga \<union> span (stk env) 52 \<subseteq> user_memory env s" using span_mono [of 52 224 "stk env"] by (auto simp: user_memory_def)
  with q have "same_outside (user_memory env s) (mem s) (mem t)" by (auto simp: quiet_def intro: same_outside_mono)
  moreover have "tty.more t = tty.more s" using q by (simp add: quiet_def)
  then have "tty.more t = tty.more (s\<lparr>tick := tick t, cmd_index := cmd_index t, shiftdown := shiftdown t\<rparr>)"
    by (cases s; cases t; simp)
  ultimately show ?thesis using q by (simp add: confined_def quiet_def)
qed

lemma line_typed: "line_ok env s cs \<Longrightarrow> typed (view_of s) = cs"
  by (auto simp: line_ok_def view_of_def intro!: nth_equalityI)

section \<open>Enter\<close>

lemma word_typed_bytes: "lit_bytes (word_typed cs) = takeWhile (\<lambda>b. b \<noteq> 0) cs"
proof -
  have "(of_char (char_of (unat b) :: char) :: u8) = b" for b :: u8
  proof -
    have "unat b < 256" using unsigned_less [of b] by simp
    then show ?thesis by (simp add: word_unat_eq_iff unat_of_char)
  qed
  then show ?thesis by (simp add: lit_bytes_def word_typed_def comp_def)
qed

lemma line_word: "line_ok env s cs \<Longrightarrow> cstr (mem s) (At (command s)) (lit_bytes (word_typed cs))"
  unfolding word_typed_bytes by (rule line_prefix)

lemma inputs_later:
  "port_in t = port_in s \<Longrightarrow> port_reads t = port_reads s + n \<Longrightarrow> inputs t = after_reads n (inputs s)"
  by (simp add: inputs_def after_reads_def fun_eq_iff add.assoc)

text \<open>A command that answers: \<open>n\<close> ports are read, the terminal is \<open>T\<close> afterwards.\<close>

definition answers :: "env \<Rightarrow> 'a kernel_scheme \<Rightarrow> nat \<times> term \<Rightarrow> 'a kernel_scheme \<Rightarrow> bool" where
  "answers env s a t \<longleftrightarrow> tty_ok t \<and> screen t = snd a \<and> port_in t = port_in s \<and>
     port_reads t = port_reads s + fst a \<and> same_outside (vga \<union> span (stk env) 224) (mem s) (mem t) \<and>
     interrupts_on t = interrupts_on s \<and> tty.more t = tty.more s"

lemma quiet_answers: "quiet (stk env) s t \<Longrightarrow> answers env s (0, screen t) t"
  using span_mono [of 52 224 "stk env"] by (auto simp: quiet_def answers_def intro: same_outside_mono)

lemma told_answers: "told (stk env) rs s cs t \<Longrightarrow> answers env s (length rs, fold term_put cs (screen s)) t"
  by (simp add: told_def answers_def)

lemma command_answers:
  assumes "line_ok env s cs" "env_ok env" "\<forall>n \<in> {0, 1, 4}. interrupt_handler s n = None"
    and "answered env (tick s) (inputs s) (word_typed cs)"
  shows "\<exists>t. processCommand env junk run r (command s) s = Inr t \<and>
    answers env s (answer env (tick s) (inputs s) (word_typed cs) (screen s)) t"
proof -
  have ok: "tty_ok s" "stack_room (stk env)" using assms(1) by (simp_all add: line_ok_def buffers_ok_def)
  note run = dispatch [OF line_word [OF assms(1)], of env junk run r]
  show ?thesis
  proof (cases "word_typed cs = ''fetch''")
    case True
    then obtain ty fam where n: "type_name env = Some ty" "family_name env = Some fam"
      and clock: "\<not> busy s 0" "\<not> busy s 3" "\<not> busy s 6"
      using assms(4) by (auto simp: answered_def busy_def inputs_def)
    from fetch_run [OF ok clock _ _ n, of junk] assms(2) obtain t where
      t: "system_fetcher env junk s = Inr t" "told (stk env) date_registers s (fetch_items env (inputs s) ty fam) t"
      by (auto simp: env_ok_def)
    from told_answers [OF t(2)] t(1) True n run show ?thesis
      by (simp add: answer_def commands_def)
  next
    case False
    then have "tame (tick s) (word_typed cs)" using assms(4) by (simp add: tame_def answered_def)
    from commands_reply [OF ok _ assms(3) this, of junk run r] assms(2) obtain t where
      t: "(case map_of (commands env junk run r) (word_typed cs) of Some f \<Rightarrow> f s | None \<Rightarrow> not_found env s) = Inr t"
        "quiet (stk env) s t" "screen t = reply env (tick s) (word_typed cs) (screen s)" by (auto simp: env_ok_def)
    from quiet_answers [OF t(2)] t(1,3) False run show ?thesis by (simp add: answer_def)
  qed
qed

lemma user_parts: "span (command s) 512 \<subseteq> user_memory env s" "span (temp s) 512 \<subseteq> user_memory env s"
    "vga \<union> span (stk env) 224 \<subseteq> user_memory env s"
  by (auto simp: user_memory_def)

lemma answers_confined: "answers env s a t \<Longrightarrow> confined env s t"
proof -
  assume a: "answers env s a t"
  then have "same_outside (user_memory env s) (mem s) (mem t)"
    using same_outside_mono [OF _ user_parts(3)] unfolding answers_def by blast
  moreover have "tty.more t = tty.more s" using a by (simp add: answers_def)
  then have "tty.more t = tty.more (s\<lparr>tick := tick t, cmd_index := cmd_index t, shiftdown := shiftdown t\<rparr>)"
    by (cases s; cases t; simp)
  ultimately show ?thesis using a by (simp add: confined_def answers_def)
qed

lemma enter_answers:
  assumes "line_ok env s cs" "env_ok env" "\<forall>n \<in> {0, 1, 4}. interrupt_handler s n = None"
    and "answered env (tick s) (inputs s) (word_typed cs)" "answer env (tick s) (inputs s) (word_typed cs) (screen s) = (n, T)"
  shows "\<exists>t. enter_key env junk run r s = Inr t \<and> line_ok env t [] \<and> confined env s t \<and>
    inputs t = after_reads n (inputs s) \<and> tick t = tick s \<and> screen t = fold term_put prompt_items T"
proof -
  from command_answers [OF assms(1-4), of junk run r] assms(5) obtain u where
    u: "processCommand env junk run r (command s) s = Inr u" "answers env s (n, T) u" by auto
  have kept: "tty.more u = tty.more s" using u(2) by (simp add: answers_def)
  note g = same_globals [OF kept]
  let ?v = "clear (u\<lparr>cmd_index := 0\<rparr>)" and ?t = "init_prompt (clear (u\<lparr>cmd_index := 0\<rparr>))"
  have buf: "tty_ok u" "buffers_ok env u" using u(2) assms(1) g by (simp_all add: answers_def line_ok_def buffers_ok_def)
  note line = cleared_line [OF buf]
  have q: "quiet (stk env) ?v ?t" by (rule prompt_quiet) (use buf(1) in \<open>simp add: tty_ok_def\<close>)
  have "same_outside (user_memory env (u\<lparr>cmd_index := 0\<rparr>)) (mem (u\<lparr>cmd_index := 0\<rparr>)) (mem ?v)"
    by (rule same_outside_mono [OF clear_out user_parts(1)])
  then have "confined env (u\<lparr>cmd_index := 0\<rparr>) ?v"
    by (simp add: confined_def) (simp add: clear_def)
  moreover have "confined env u (u\<lparr>cmd_index := 0\<rparr>)" by (simp add: confined_def)
  ultimately have "confined env s ?t"
    using answers_confined [OF u(2)] quiet_confined [OF q] by (blast intro: confined_trans)
  moreover have "screen ?t = fold term_put prompt_items T"
  proof -
    have v: "tty_ok ?v" using buf(1) by (simp add: tty_ok_def)
    have "screen ?v = screen u"
      using clear_screen [of "u\<lparr>cmd_index := 0\<rparr>"] buf(2) by (simp add: buffers_ok_def)
    then show ?thesis
      using init_prompt_emits [OF v] vga.view_emits [OF v] u(2) by (simp add: answers_def)
  qed
  moreover have "inputs ?t = after_reads n (inputs s)"
    using q u(2) by (intro inputs_later) (simp_all add: quiet_def answers_def clear_def)
  moreover have "tick ?t = tick s"
    using same_globals(6) [of ?t ?v] q g(6) by (simp add: quiet_def) (simp add: clear_def)
  ultimately show ?thesis using u(1) quiet_line [OF line q] by (simp add: enter_key_def)
qed

section \<open>The other keys\<close>

lemma char_confined:
  assumes "line_ok env s cs" "length cs < 511" "char_key env k s = Inr t"
  shows "confined env s t"
proof -
  have ok: "tty_ok s" "stack_room (stk env)" using assms(1) by (simp_all add: line_ok_def buffers_ok_def)
  have "\<exists>u. printf (stk env) (Lit ''%c'') [Word (ucast k)] s = Inr u \<and>
      printed (stk env) s (items WHITE BLACK [ucast (ucast k :: u32)]) u"
    by (rule format_printed [OF ready_tty [OF ok], where as = "[Num (ucast k)]"]) (simp_all add: literal)
  then obtain u where u: "printf (stk env) (Lit ''%c'') [Word (ucast k)] s = Inr u" "quiet (stk env) s u"
    using printed_quiet by blast
  have t: "t = u\<lparr>mem := write8 (mem u) (command u + cmd_index u) k, cmd_index := cmd_index u + 1\<rparr>"
    using assms(3) u(1) by (simp add: char_key_def)
  have "cmd_index u = of_nat (length cs)" using quiet_line [OF assms(1) u(2)] by (simp add: line_ok_def)
  then have "command u + cmd_index u \<in> span (command u) (of_nat 512)"
    using assms(2) in_span_of_nat [of "length cs" 512 "command u"] by simp
  then have "same_outside (user_memory env u) (mem u) (mem t)"
    using user_parts(1) [of u env] unfolding t by (auto intro: same_outside_write8)
  moreover have "tty.more t = tty.more (u\<lparr>tick := tick t, cmd_index := cmd_index t, shiftdown := shiftdown t\<rparr>)"
    unfolding t by (cases u) simp
  ultimately have "confined env u t" by (simp add: confined_def t)
  with quiet_confined [OF u(2)] show ?thesis by (rule confined_trans)
qed

lemma index_confined: "confined env s (s\<lparr>cmd_index := i\<rparr>)"
  by (simp add: confined_def)

lemma shift_released:
  "confined env s (s\<lparr>shiftdown := d\<rparr>)" "line_ok env (s\<lparr>shiftdown := d\<rparr>) cs = line_ok env s cs"
  "inputs (s\<lparr>shiftdown := d\<rparr>) = inputs s" "screen (s\<lparr>shiftdown := d\<rparr>) = screen s"
  by (simp_all add: confined_def line_ok_def tty_ok_def buffers_ok_def inputs_def screen_def fun_eq_iff cong: if_cong)

lemma clear_confined: "confined env s (clear s)"
proof -
  have "same_outside (user_memory env s) (mem s) (mem (clear s))"
    by (rule same_outside_mono [OF clear_out user_parts(1)])
  then show ?thesis by (simp add: confined_def) (simp add: clear_def)
qed

lemma copy_confined:
  assumes "d = command s \<or> d = temp s" "cmd_index s \<le> 512"
  shows "confined env s (copy_line d c s)"
proof -
  have "span d 512 \<subseteq> user_memory env s" using assms(1) user_parts(1,2) by blast
  from same_outside_mono [OF copy_line_out [OF assms(2)] this]
  show ?thesis by (simp add: confined_def) (simp add: copy_line_def)
qed

lemma delete_view:
  fixes s :: "'a kernel_scheme"
  assumes "line_ok env s cs" "cs \<noteq> []" "apart 512 (temp s) 7840 VIDEO_MEM_ADDR" "fb_col s \<noteq> 0"
  shows "confined env s (delete_key s)" "line_ok env (delete_key s) (replicate (length cs - 1) 0)"
    "inputs (delete_key s) = inputs s" "tick (delete_key s) = tick s" "screen (delete_key s) = rubout (screen s)"
proof -
  let ?s1 = "s\<lparr>cmd_index := cmd_index s - 1\<rparr>"
  let ?s2 = "copy_line (temp s) (command s) ?s1"
  let ?s3 = "clear ?s2"
  let ?s4 = "copy_line (command s) (temp s) ?s3"
  have n: "cmd_index s = of_nat (length cs)" "0 < length cs" "length cs \<le> 511"
    using assms(1,2) by (simp_all add: line_ok_def)
  then have idx: "cmd_index s - 1 \<le> 512" by (simp add: of_nat_pred32 word_le_nat_alt)
  have "\<not> cmd_index s \<le> 0" using n by (simp add: word_le_nat_alt)
  then have run: "delete_key s = backspace (clear ?s4)" by (simp add: delete_key_def Let_def)
  have ok: "tty_ok (clear ?s4)" "fb_col (clear ?s4) \<noteq> 0"
    using assms(1,4) by (simp_all add: line_ok_def tty_ok_def)
  have copies: "confined env ?s1 ?s2" "confined env ?s3 ?s4" using idx by (simp_all add: copy_confined)
  note c3 = confined_trans [OF confined_trans [OF index_confined copies(1)] clear_confined]
  note c5 = confined_trans [OF confined_trans [OF c3 copies(2)] clear_confined]
  show c: "confined env s (delete_key s)"
    unfolding run by (rule confined_trans [OF c5 quiet_confined [OF frame_quiet [OF backspace_run(1,2) [OF ok]]]])
  note d = delete_run [OF assms]
  show "line_ok env (delete_key s) (replicate (length cs - 1) 0)" by (rule d(6))
  show "screen (delete_key s) = rubout (screen s)" using d(5) by (simp add: rubout_def)
  show "inputs (delete_key s) = inputs s" "tick (delete_key s) = tick s"
    unfolding run by (simp_all add: inputs_def backspace_def write_cell_def Let_def clear_def copy_line_def fun_eq_iff)
qed

section \<open>One key\<close>

lemma view_eqI:
  "line_ok env s cs \<Longrightarrow> tick s = n \<Longrightarrow> inputs s = inp \<Longrightarrow> screen s = T \<Longrightarrow>
   view_of s = \<lparr>typed = cs, ticks = n, ahead = inp, display = T\<rparr>"
  using line_typed [of env s cs] by (simp add: view_of_def)

lemma press_step:
  fixes s :: "'a kernel_scheme"
  assumes line: "line_ok env s (typed (view_of s))" and env: "env_ok env" and temp: "apart 512 (temp s) 7840 VIDEO_MEM_ADDR"
    and hs: "\<forall>n \<in> {0, 1, 4}. interrupt_handler s n = None" and press: "pressable env (view_of s)"
  shows "\<exists>t. keyboard_callback env junk run r s = Inr t \<and> line_ok env t (typed (view_of t)) \<and>
    view_of t = press env (view_of s) \<and> confined env s t"
proof -
  define cs where "cs = typed (view_of s)"
  let ?u = "snd (inb KB_DATA_PORT s)"
  let ?code = "inputs s 0 KB_DATA_PORT" and ?rest = "after_reads 1 (inputs s)"
  let ?key = "key_at env ?code"
  have line': "line_ok env ?u cs" using line by (simp add: cs_def)
  have u: "inputs ?u = ?rest" "tick ?u = tick s" "screen ?u = screen s" "confined env s ?u"
    "temp ?u = temp s" "interrupt_handler ?u = interrupt_handler s" "fb_col ?u = fb_col s"
    by (simp_all add: inputs_def after_reads_def inb_def fun_eq_iff confined_def)
  have view: "view_of s = \<lparr>typed = cs, ticks = tick s, ahead = inputs s, display = screen s\<rparr>"
    by (simp add: view_of_def cs_def)
  have run: "keyboard_callback env junk run r s =
      (if ?code AND 0x80 \<noteq> 0 then Inr (if ?code = 0xAA \<or> ?code = 0x86 then ?u\<lparr>shiftdown := 0\<rparr> else ?u)
       else if ?key = 0x08 then Inr (delete_key ?u)
       else if ?key = 0x0A then enter_key env junk run r ?u
       else char_key env ?key ?u)"
    by (simp add: callback_cases Let_def incoming_def code_at_def inputs_def)
  have here: ?thesis if "keyboard_callback env junk run r s = Inr t" "line_ok env t ds" "confined env ?u t"
    "press env (view_of s) = \<lparr>typed = ds, ticks = tick t, ahead = inputs t, display = screen t\<rparr>" for t ds
    using that view_eqI [OF that(2) refl refl refl] confined_trans [OF u(4) that(3)]
    by (intro exI [of _ t]) simp
  consider (release) "?code AND 0x80 \<noteq> 0" | (empty) "?code AND 0x80 = 0" "?key = 0x08" "cs = []"
    | (rubbed) "?code AND 0x80 = 0" "?key = 0x08" "cs \<noteq> []" | (enter) "?code AND 0x80 = 0" "?key = 0x0A"
    | (char) "?code AND 0x80 = 0" "?key \<noteq> 0x08" "?key \<noteq> 0x0A" by blast
  then show ?thesis
  proof cases
    case release
    let ?t = "if ?code = 0xAA \<or> ?code = 0x86 then ?u\<lparr>shiftdown := 0\<rparr> else ?u"
    have "line_ok env ?t cs" "confined env ?u ?t" "inputs ?t = ?rest" "tick ?t = tick s" "screen ?t = screen s"
      using line' u(1-3) by (simp_all add: shift_released confined_refl)
    then show ?thesis using release run by (intro here [of ?t cs]) (simp_all add: press_def view)
  next
    case empty
    then have "delete_key ?u = ?u" using line' by (simp add: delete_key_def line_ok_def)
    then show ?thesis using empty run line' u by (intro here [of ?u cs]) (simp_all add: press_def view confined_refl)
  next
    case rubbed
    then have "fb_col ?u \<noteq> 0" using press u(7) by (auto simp: pressable_def view screen_def unat_eq_0)
    from delete_view [OF line' rubbed(3) _ this] temp u show ?thesis
      using rubbed run by (intro here [of "delete_key ?u" "replicate (length cs - 1) 0"]) (simp_all add: press_def view)
  next
    case enter
    obtain n T where a: "answer env (tick ?u) (inputs ?u) (word_typed cs) (screen ?u) = (n, T)" by fastforce
    have "answered env (tick ?u) (inputs ?u) (word_typed cs)" using press enter u(1,2) by (simp add: pressable_def view)
    from enter_answers [OF line' env _ this a, of junk run r] hs u(6) obtain t where
      "enter_key env junk run r ?u = Inr t" "line_ok env t []" "confined env ?u t" "inputs t = after_reads n ?rest"
      "tick t = tick s" "screen t = fold term_put prompt_items T" using u(1,2) by auto
    then show ?thesis using enter run a u by (intro here [of t "[]"]) (simp_all add: press_def view)
  next
    case char
    then have len: "length cs < 511" using press by (simp add: pressable_def view)
    from char_key_run [OF line' len, of ?key] obtain t where
      t: "char_key env ?key ?u = Inr t" "line_ok env t (cs @ [?key])" "port_in t = port_in ?u"
        "port_reads t = port_reads ?u" "undisturbed ?u t" "screen t = term_put (WHITE, BLACK, ?key) (screen ?u)" by blast
    moreover have "inputs t = ?rest" using u(1) t(3,4) by (simp add: inputs_def fun_eq_iff)
    moreover have "tick t = tick s" using t(5) u(2) by (simp add: undisturbed_def)
    ultimately show ?thesis
      using char run u char_confined [OF line' len t(1)] by (intro here [of t "cs @ [?key]"]) (simp_all add: press_def view Let_def)
  qed
qed

section \<open>One interrupt\<close>

lemma confined_flag: "confined env (cli s) t \<Longrightarrow> confined env s (t\<lparr>interrupts_on := interrupts_on s\<rparr>)"
  by (cases s) (simp add: confined_def cli_def user_memory_def)

lemma confined_ack: "confined env (ack_irq n s) t \<longleftrightarrow> confined env s t"
proof -
  have "user_memory env (ack_irq n s) = user_memory env s" by (simp add: user_memory_def ack_irq_def outb_def)
  moreover have "tty.more ((ack_irq n s)\<lparr>tick := a, cmd_index := b, shiftdown := c\<rparr>) = tty.more (s\<lparr>tick := a, cmd_index := b, shiftdown := c\<rparr>)"
    for a b c by (cases s) (simp add: ack_irq_def outb_def)
  ultimately show ?thesis by (simp add: confined_def)
qed

lemma view_stub [simp]:
  "view_of (cli s) = view_of s" "view_of (ack_irq n s) = view_of s" "view_of (s\<lparr>interrupts_on := b\<rparr>) = view_of s"
  "line_ok env (s\<lparr>interrupts_on := b\<rparr>) cs = line_ok env s cs"
  "temp (cli s) = temp s" "temp (ack_irq n s) = temp s" "command (cli s) = command s"
  by (simp_all add: view_of_def cli_def ack_irq_def outb_def inputs_def screen_def fun_eq_iff line_ok_def tty_ok_def
      buffers_ok_def cong: if_cong)

lemma serving_later:
  assumes "serving env s" "confined env s t" "line_ok env t (typed (view_of t))"
  shows "serving env t"
  using assms confinedD [OF assms(2)] by (simp add: serving_def session_def)

lemma sti_restores: "interrupts_on s \<Longrightarrow> sti t = t\<lparr>interrupts_on := interrupts_on s\<rparr>"
  by (simp add: sti_def)

lemma interrupt_taken:
  assumes "serving env s" "view_accepts env e (view_of s)"
  shows "\<exists>t. hardware_interrupt (run_handler (Suc d) env junk) r (irq_number e) s = Inr t \<and>
    serving env t \<and> view_of t = view_step env e (view_of s) \<and> confined env s t"
proof -
  note sv = assms(1) [unfolded serving_def session_def]
  have "\<exists>t. irq_handler (run_handler (Suc d) env junk) (r\<lparr>int_num := irq_number e, err_code := 0\<rparr>) (cli s) = Inr t \<and>
      line_ok env t (typed (view_of t)) \<and> view_of t = view_step env e (view_of s) \<and> confined env (cli s) t"
  proof (cases e)
    case Tick
    let ?a = "ack_irq 32 (cli s)"
    have "confined env ?a (timer_callback ?a)" by (simp add: confined_def timer_callback_def)
    then have "confined env (cli s) (timer_callback ?a)" by (simp add: confined_ack)
    moreover have "view_of (timer_callback ?a) = (view_of s)\<lparr>ticks := tick s + 1\<rparr>"
      by (simp add: view_of_def timer_callback_def inputs_def screen_def cli_def ack_irq_def outb_def fun_eq_iff cong: if_cong)
    moreover have "line_ok env (timer_callback ?a) (typed (view_of s))" using sv by simp
    ultimately show ?thesis using Tick sv by (simp add: irq_handler_def Let_def view_of_def)
  next
    case Key
    let ?a = "ack_irq 33 (cli s)" and ?r = "r\<lparr>int_num := 33, err_code := 0\<rparr>"
    have "line_ok env ?a (typed (view_of ?a))" "env_ok env" "apart 512 (temp ?a) 7840 VIDEO_MEM_ADDR"
      "\<forall>n \<in> {0, 1, 4}. interrupt_handler ?a n = None" "pressable env (view_of ?a)"
      using sv assms(2) Key by simp_all
    from press_step [OF this, of junk "run_handler d env junk" ?r] obtain t where
      "keyboard_callback env junk (run_handler d env junk) ?r ?a = Inr t" "line_ok env t (typed (view_of t))"
      "view_of t = press env (view_of ?a)" "confined env ?a t" by blast
    then show ?thesis using Key sv by (simp add: irq_handler_def Let_def confined_ack)
  qed
  then obtain t where t: "irq_handler (run_handler (Suc d) env junk) (r\<lparr>int_num := irq_number e, err_code := 0\<rparr>) (cli s) = Inr t"
    "line_ok env t (typed (view_of t))" "view_of t = view_step env e (view_of s)" "confined env (cli s) t" by blast
  let ?t = "t\<lparr>interrupts_on := interrupts_on s\<rparr>"
  have "interrupts_on s" using sv by simp
  then have "hardware_interrupt (run_handler (Suc d) env junk) r (irq_number e) s = Inr ?t"
    using t(1) by (simp add: hardware_interrupt_def sti_restores del: irq_number.simps)
  moreover have "serving env ?t"
    by (rule serving_later [OF assms(1) confined_flag [OF t(4)]]) (use t(2) in simp)
  ultimately show ?thesis using t(3) confined_flag [OF t(4)] by (intro exI [of _ ?t]) simp
qed

interpretation user: simulation "interrupt_step env junk r" "interrupt_run env junk r" "serving env" view_of
  "view_step env" "view_accepts env" "confined env"
proof
  fix s t :: "'a kernel_scheme" and e es
  show "interrupt_run env junk r s [] t \<longleftrightarrow> t = s" by auto
  show "interrupt_run env junk r s (e # es) t \<longleftrightarrow> (\<exists>u. interrupt_step env junk r s e u \<and> interrupt_run env junk r u es t)"
    by (rule interrupt_run_Cons)
  assume ok: "serving env s" "view_accepts env e (view_of s)"
  have "interrupts_on s" using ok(1) by (simp add: serving_def session_def)
  with interrupt_taken [OF ok, of 0 junk r] taken show "\<exists>t. interrupt_step env junk r s e t" by blast
  assume "interrupt_step env junk r s e t"
  then obtain d where "hardware_interrupt (run_handler (Suc d) env junk) r (irq_number e) s = Inr t" by (rule step_cases)
  with interrupt_taken [OF ok, of d junk r]
  show "serving env t \<and> view_of t = view_step env e (view_of s) \<and> confined env s t" by auto
qed (auto intro: confined_refl confined_trans)

section \<open>Properties\<close>

text \<open>
  C10: The running kernel refines the machine that its user sees. From any serving state and for
  every sequence of timer interrupts and key events (presses and releases in any order, lines with all their
  commands, backspace, \<^verbatim>\<open>fetch\<close>) that the abstract machine admits, the interrupts can
  happen, and however they are served, the line, the tick counter, the reads of the ports and the terminal
  are what the abstract machine computes. Memory changes only in the frame buffer, 224 bytes of the stack and
  the two buffers of the keyboard, and of all variables only the tick counter, the index into the line and the
  shift flag. (Admitted: everything but a line beyond 511 characters, backspace in column 0,
  \<^verbatim>\<open>reboot\<close>, \<^verbatim>\<open>timer\<close> after ten million ticks, and \<^verbatim>\<open>fetch\<close> while the clock is busy or on a
  processor without a name.)
\<close>

theorem kernel_refines_view:
  assumes "serving env s" "admissible (view_accepts env) (view_step env) es (view_of s)"
  shows "(\<exists>t. interrupt_run env junk r s es t) \<and> (\<forall>t. interrupt_run env junk r s es t \<longrightarrow>
    serving env t \<and> view_of t = fold (view_step env) es (view_of s) \<and> confined env s t)"
  using user.run_possible [OF assms] user.run_advances [OF assms] by blast

text \<open>After the start.\<close>

lemma below_image:
  fixes s :: "'a kernel_scheme"
  assumes "0x100000 \<le> p" "p \<le> 0x3F0000" "unat (stk env) + 256 \<le> p" "unat (command s) + 512 \<le> p" "unat (temp s) + 512 \<le> p"
  shows "user_memory env s \<subseteq> region 0 p"
proof -
  have part: "span a n \<subseteq> region 0 p" if "unat a + unat n \<le> p" for a n
    using span_region [of a n] that assms(2) by (fastforce simp: region_def)
  show ?thesis using part [of "stk env" 224] part [of "command s" 512] part [of "temp s" 512] part [of VIDEO_MEM_ADDR 7840] assms
    by (simp add: user_memory_def)
qed

lemma image_apart:
  assumes "heap_state s cs" "kheap s = Some h" "oa_array (index h) = KHEAP_START" "confined env s t" "user_memory env s \<subseteq> region 0 p"
    "p \<le> 0x3F0000"
  shows "heap_state t cs"
proof -
  have "same_outside (region 0 p) (mem s) (mem t)"
    using assms(4,5) by (auto simp: confined_def intro: same_outside_mono)
  moreover have "p \<le> unat (oa_array (index h))" using assms(3,6) by simp
  ultimately have "heap_idle s t" using confinedD(4) [OF assms(4)] assms(2) by (auto simp: heap_idle_def)
  from heap_idle_rep [OF this assms(1)] show ?thesis by simp
qed

lemma growable_apart:
  assumes room: "heap_room p s" and conf: "confined env s t" and mem: "user_memory env s \<subseteq> region 0 p"
  shows "growable 512 t"
proof -
  from room obtain h D T k where h: "kheap s = Some h" "oa_array (index h) = KHEAP_START" "start_address h = 0xC0081000"
    "end_address h = 0xC0100000" "max_address h = 0xCFFFF000" "oa_max_size (index h) = HEAP_INDEX_SIZE"
    "T + 4096 \<le> 0x400000" "k \<le> 1281" "spare_pages p D T 768 256 k s" by (auto simp: heap_room_def)
  have "same_outside (region 0 p) (mem s) (mem t)"
    using conf mem by (auto simp: confined_def intro: same_outside_mono)
  moreover have "frame_allocations t = frame_allocations s" "nframes t = nframes s" "kernel_directory t = kernel_directory s"
    using conf by (cases s; cases t; simp add: confined_def)+
  ultimately have "spare_pages p D T 768 256 k t" by (intro spare_pages_keep [OF h(9), where lo = 0 and hi = p]) simp_all
  then have "growing p D T 768 256 k 512 h t"
    using h confinedD(4) [OF conf] by (simp add: growing_def page_addr_def)
  then show ?thesis by (rule growableI)
qed

text \<open>
  C4: From power on to the prompt and on, with everything in place: the kernel starts, with an
  empty line; from then on, for every sequence of timer interrupts and key events that the machine of its
  user admits, it serves them as that machine does, interrupts stay on, and the page tables
  and the heap that the start has built are as they were, with room for 512 more pages. (The premises place the image: stack and keyboard buffers
  below its end, apart from each other and from the screen, the line empty.)
\<close>

theorem boot_then_use:
  assumes "tty_ok s" "stack_room (stk env)" "addr AND 7 = 0" "kheap s = None"
    and "placement_addr s = of_nat p" "0x100000 \<le> p" "p \<le> 0x3F0000" "unat (stk env) + 256 \<le> p"
    and "read32 (mem s) 0xC0080FF8 \<noteq> HEAP_MAGIC"
    and "buffers_ok env s" "cmd_index s = 0" "\<forall>i < 512. mem s (command s + of_nat i) = 0" "unat (command s) + 512 \<le> p"
    and "env_ok env" "apart 512 (temp s) 7840 VIDEO_MEM_ADDR" "unat (temp s) + 512 \<le> p"
    and "\<forall>n \<in> {0, 1, 4}. interrupt_handler s n = None"
  shows "\<exists>t N. kernel_main env img (alloc (Suc d)) 0x36d76289 addr s = Inr t \<and> port_in t = port_in s \<and>
    typed (view_of t) = [] \<and> ticks (view_of t) = tick s \<and>
    (\<forall>es. admissible (view_accepts env) (view_step env) es (view_of t) \<longrightarrow>
      (\<exists>u. interrupt_run env junk r t es u) \<and> (\<forall>u. interrupt_run env junk r t es u \<longrightarrow>
        view_of u = fold (view_step env) es (view_of t) \<and> interrupts_on u \<and>
        kernel_pages N u \<and> heap_state u [(True, 0x7F000)] \<and> growable 512 u))"
proof -
  from kernel_main_run [OF assms(1-9), of img d] obtain t N where
    t: "kernel_main env img (alloc (Suc d)) MULTIBOOT2_BOOTLOADER_MAGIC addr s = Inr t" "tty_ok t" "interrupts_on t"
    "interrupt_handler t = (interrupt_handler s)(32 := Some Timer_callback, 33 := Some Keyboard_callback, 14 := Some Page_fault)"
    "command t = command s" "temp t = temp s" "cmd_index t = cmd_index s" "tick t = tick s" "port_in t = port_in s"
    "same_outside (vga \<union> span (stk env) 52 \<union> region p 0x400000 \<union> region 0xC0000000 (2 ^ 32)) (mem s) (mem t)"
    and heap: "heap_state t [(True, 0x7F000)]" "heap_room p t"
    and pages: "\<forall>u :: 'a kernel_scheme. same_outside (region 0 p) (mem t) (mem u) \<and> cr3 u = cr3 t \<and>
      paging_on u = paging_on t \<longrightarrow> kernel_pages N u"
    by (elim exE conjE) (rule that)
  have "session env t []" by (rule started_session [OF assms(10-13,7) t(2,3) _ _ t(5-7,10)]) (simp_all add: t(4))
  moreover from this have typed: "typed (view_of t) = []" by (auto simp: session_def intro: line_typed)
  ultimately have sv: "serving env t" using assms(14,15,17) t(4,6) by (simp add: serving_def)
  have mem: "user_memory env t \<subseteq> region 0 p" 
    by (rule below_image [OF assms(6-8)]) (use assms(13,16) t(5,6) in simp_all)
  have kept: "kernel_pages N u \<and> heap_state u [(True, 0x7F000)] \<and> growable 512 u" if "confined env t u" for u
  proof -
    have "same_outside (region 0 p) (mem t) (mem u)" using that mem by (auto simp: confined_def intro: same_outside_mono)
    moreover have "cr3 u = cr3 t" "paging_on u = paging_on t"
      using that by (cases t; cases u; simp add: confined_def)+
    moreover obtain h where "kheap t = Some h" "oa_array (index h) = KHEAP_START" using heap(2) by (auto simp: heap_room_def)
    ultimately show ?thesis
      using pages image_apart [OF heap(1) _ _ that mem assms(7)] growable_apart [OF heap(2) that mem] by blast
  qed
  have "view_of u = fold (view_step env) es (view_of t) \<and> interrupts_on u \<and> kernel_pages N u \<and> heap_state u [(True, 0x7F000)] \<and> growable 512 u"
    if "admissible (view_accepts env) (view_step env) es (view_of t)" "interrupt_run env junk r t es u" for es u
    using user.run_advances [OF sv that] kept by (simp add: serving_def session_def)
  with user.run_possible [OF sv] t(1,8,9) typed show ?thesis
    by (intro exI [of _ t] exI [of _ N]) (simp add: view_of_def del: alloc.simps)
qed

section \<open>Examples\<close>

lemma demo_env_ok: "env_ok demo_env"
  using demo_room(2) by (simp add: env_ok_def) (simp add: demo_env_def proper_lit_def)

text \<open>A machine on which \<^verbatim>\<open>cls\<close> and enter are typed, with a release in between.\<close>

definition cls_typed :: kernel where
  "cls_typed = power_up\<lparr>interrupts_on := True, interrupt_handler := [32 \<mapsto> Timer_callback, 33 \<mapsto> Keyboard_callback],
     port_in := \<lambda>n p. [0x2E, 0xAE, 0x26, 0x1F, 0x1C] ! n\<rparr>"

lemma cls_typed_serving: "serving demo_env cls_typed"
proof -
  have "view_of cls_typed = \<lparr>typed = [], ticks = 0, ahead = inputs cls_typed, display = screen cls_typed\<rparr>"
    by (simp add: view_of_def) (simp add: cls_typed_def)
  then show ?thesis
    using keyed_up_facts(4-6) demo_buffers(2) [of "[]" "[]"] demo_env_ok
    by (simp add: serving_def session_def line_ok_def buffers_ok_def cls_typed_def tty_ok_def get_byte_def read8_def
        keyed_up_def typing_def with_line_def)
qed

theorem kernel_refines_view_witness:
  "\<forall>junk r. \<exists>t. interrupt_run demo_env junk r cls_typed [Key, Key, Tick, Key, Key, Key] t \<and>
    typed (view_of t) = [] \<and> ticks (view_of t) = 1 \<and> display (view_of t) = fold term_put prompt_items cleared"
proof (intro allI)
  fix junk r
  let ?es = "[Key, Key, Tick, Key, Key, Key]"
  have view: "view_of cls_typed = \<lparr>typed = [], ticks = 0, ahead = inputs cls_typed, display = screen cls_typed\<rparr>"
    by (simp add: view_of_def) (simp add: cls_typed_def)
  have codes: "inputs cls_typed n p = [0x2E, 0xAE, 0x26, 0x1F, 0x1C] ! n" for n p
    by (simp add: inputs_def cls_typed_def)
  have keys: "key_at demo_env 0x2E = 0x63" "key_at demo_env 0x26 = 0x6C" "key_at demo_env 0x1F = 0x73" "key_at demo_env 0x1C = 0x0A"
    by (simp_all add: key_at_def keyboard_scan_codes_def)
  have "lit_bytes (word_typed [0x63, 0x6C, 0x73]) = lit_bytes ''cls''"
    unfolding word_typed_bytes by (simp add: lit_bytes_def)
  then have cls: "word_typed [0x63, 0x6C, 0x73] = ''cls''" by simp
  have "admissible (view_accepts demo_env) (view_step demo_env) ?es (view_of cls_typed)"
    by (simp add: view codes keys cls press_def pressable_def after_reads_def answered_def Let_def)
  moreover have "fold (view_step demo_env) ?es (view_of cls_typed) =
      \<lparr>typed = [], ticks = 1, ahead = after_reads 5 (inputs cls_typed), display = fold term_put prompt_items cleared\<rparr>"
    by (simp add: view codes keys cls press_def after_reads_def answer_def reply_def Let_def fun_eq_iff)
  ultimately show "\<exists>t. interrupt_run demo_env junk r cls_typed ?es t \<and>
    typed (view_of t) = [] \<and> ticks (view_of t) = 1 \<and> display (view_of t) = fold term_put prompt_items cleared"
    using kernel_refines_view [OF cls_typed_serving, of ?es junk r] by auto
qed

theorem boot_then_use_witness:
  "\<forall>img junk r. \<exists>t u. kernel_main demo_env img (alloc 1) 0x36d76289 0 keyed_up = Inr t \<and>
    interrupt_run demo_env junk r t [Tick, Key, Key, Tick] u \<and> typed (view_of u) = lit_bytes ''aa'' \<and>
    ticks (view_of u) = 2 \<and> heap_state u [(True, 0x7F000)]"
proof (intro allI)
  fix img junk r
  let ?es = "[Tick, Key, Key, Tick]"
  have "\<forall>i < 512. mem keyed_up (command keyed_up + of_nat i) = 0" "read32 (mem keyed_up) 0xC0080FF8 \<noteq> HEAP_MAGIC"
    by (simp_all add: keyed_up_facts(4) read32_def)
  moreover have "apart 512 (temp keyed_up) 7840 VIDEO_MEM_ADDR" "unat (temp keyed_up) + 512 \<le> 0x200000"
    "\<forall>n \<in> {0, 1, 4}. interrupt_handler keyed_up n = None"
    by (simp_all add: keyed_up_def apart_def)
  ultimately obtain t N where
    t: "kernel_main demo_env img (alloc 1) 0x36d76289 0 keyed_up = Inr t" "port_in t = port_in keyed_up"
      "typed (view_of t) = []" "ticks (view_of t) = tick keyed_up"
      "\<forall>es. admissible (view_accepts demo_env) (view_step demo_env) es (view_of t) \<longrightarrow>
        (\<exists>u. interrupt_run demo_env junk r t es u) \<and> (\<forall>u. interrupt_run demo_env junk r t es u \<longrightarrow>
        view_of u = fold (view_step demo_env) es (view_of t) \<and> interrupts_on u \<and> kernel_pages N u \<and>
        heap_state u [(True, 0x7F000)] \<and> growable 512 u)"
    using boot_then_use [OF keyed_up_facts(1) power_up_boot(1) _ keyed_up_facts(2,3) _ _ power_up_boot(2) _
      keyed_up_facts(5,6) _ keyed_up_facts(7) demo_env_ok, of 0 img 0 junk r] by (auto simp del: alloc.simps)
  obtain T where view: "view_of t = \<lparr>typed = [], ticks = 0, ahead = (\<lambda>n p. 0x1E), display = T\<rparr>"
    using t(2-4) keyed_up_facts(8,9) by (cases "view_of t") (simp add: view_of_def inputs_def fun_eq_iff)
  have key: "key_at demo_env 0x1E = 0x61" by (simp add: key_at_def keyboard_scan_codes_def)
  have "admissible (view_accepts demo_env) (view_step demo_env) ?es (view_of t)"
    by (simp add: view key press_def pressable_def after_reads_def Let_def)
  with t(5) obtain u where u: "interrupt_run demo_env junk r t ?es u" "view_of u = fold (view_step demo_env) ?es (view_of t)"
    "heap_state u [(True, 0x7F000)]" by blast
  moreover have "typed (fold (view_step demo_env) ?es (view_of t)) = lit_bytes ''aa''"
    "ticks (fold (view_step demo_env) ?es (view_of t)) = 2"
    by (simp_all add: view key press_def after_reads_def Let_def lit_bytes_def)
  ultimately show "\<exists>t u. kernel_main demo_env img (alloc 1) 0x36d76289 0 keyed_up = Inr t \<and>
    interrupt_run demo_env junk r t ?es u \<and> typed (view_of u) = lit_bytes ''aa'' \<and>
    ticks (view_of u) = 2 \<and> heap_state u [(True, 0x7F000)]"
    using t(1) by (intro exI [of _ t] exI [of _ u]) (simp del: alloc.simps fold.simps)
qed

end
